(* ===== verification/Prelude.thy ===== *)
theory Prelude
  imports Main "HOL-Library.Word" "HOL-Library.Monad_Syntax"
begin

text \<open>
  Shared ground of the development: the machine types of \<open>modeltypes.h\<close>, the checks that end
  the process (\<open>ASSERT\<close>, indexing a vector out of range), the few \<open>std::vector\<close> and
  \<open>memcpy\<close> operations the sources use, and the generic lemmas about them. A computation that
  may end the process has an \<open>option\<close> result: \<open>None\<close> is the failed \<open>ASSERT\<close>, the
  null dereference or the out-of-range access, \<open>Some\<close> the normal return.
\<close>

section \<open>Machine types\<close>

text \<open>
  \<open>modelclock_t\<close> is \<open>unsigned int\<close>, values and addresses are 64 bits wide.
  \<open>thread_id_t\<close> is an \<open>int\<close> that the checker uses as a compact zero-based index
  (\<open>ModelExecution::get_next_id\<close> hands ids out from 0 upwards), so a natural number here.
\<close>

type_synonym modelclock_t = "32 word"
type_synonym uint64 = "64 word"
type_synonym addr = "64 word"
type_synonym thread_id_t = nat

text \<open>References to heap objects: actions, nodes of the node stack, promises.\<close>

type_synonym act_ref = nat
type_synonym node_ref = nat
type_synonym promise_ref = nat

definition int_to_id :: "nat \<Rightarrow> thread_id_t" where
  "int_to_id i = i"

definition id_to_int :: "thread_id_t \<Rightarrow> nat" where
  "id_to_int i = i"

named_theorems id_simps
named_theorems vec_simps

lemma id_to_int_int_to_id [simp, id_simps]: "id_to_int (int_to_id i) = i"
  by (simp add: id_to_int_def int_to_id_def)

lemma int_to_id_id_to_int [simp, id_simps]: "int_to_id (id_to_int i) = i"
  by (simp add: id_to_int_def int_to_id_def)

section \<open>Checks that end the process\<close>

definition ASSERT :: "bool \<Rightarrow> unit option" where
  "ASSERT b = (if b then Some () else None)"

lemma ASSERT_simps [simp]:
  "ASSERT True = Some ()"
  "ASSERT False = None"
  "ASSERT b = Some u \<longleftrightarrow> b"
  "ASSERT b = None \<longleftrightarrow> \<not> b"
  by (auto simp: ASSERT_def)

lemma bind_ASSERT [simp]: "Option.bind (ASSERT b) f = (if b then f () else None)"
  by (simp add: ASSERT_def)

section \<open>Vectors\<close>

definition vec_at :: "'a list \<Rightarrow> nat \<Rightarrow> 'a option" where
  "vec_at xs i = (if i < length xs then Some (xs ! i) else None)"

text \<open>\<open>std::vector::resize(n, v)\<close>: cut to \<open>n\<close> elements or pad with \<open>v\<close>.\<close>

definition resize :: "'a list \<Rightarrow> nat \<Rightarrow> 'a \<Rightarrow> 'a list" where
  "resize xs n v = take n xs @ replicate (n - length xs) v"

text \<open>\<open>memcpy(dst, src, n)\<close> on arrays of the same element type.\<close>

definition memcpy :: "'a list \<Rightarrow> 'a list \<Rightarrow> nat \<Rightarrow> 'a list" where
  "memcpy dst src n = take n src @ drop n dst"

lemma vec_at_simps [simp]:
  "vec_at xs i = Some x \<longleftrightarrow> i < length xs \<and> xs ! i = x"
  "vec_at xs i = None \<longleftrightarrow> length xs \<le> i"
  by (auto simp: vec_at_def)

lemma length_resize [simp, vec_simps]: "length (resize xs n v) = n"
  by (simp add: resize_def)

lemma nth_resize [vec_simps]:
  "i < n \<Longrightarrow> resize xs n v ! i = (if i < length xs then xs ! i else v)"
  by (auto simp: resize_def nth_append)

lemma resize_same [simp]: "resize xs (length xs) v = xs"
  by (simp add: resize_def)

lemma length_memcpy [simp, vec_simps]:
  "n \<le> length src \<Longrightarrow> n \<le> length dst \<Longrightarrow> length (memcpy dst src n) = length dst"
  by (simp add: memcpy_def)

lemma nth_memcpy [vec_simps]:
  "n \<le> length src \<Longrightarrow> n \<le> length dst \<Longrightarrow> i < length dst \<Longrightarrow>
     memcpy dst src n ! i = (if i < n then src ! i else dst ! i)"
  by (auto simp: memcpy_def nth_append)

text \<open>The number of set flags of a \<open>vector<bool>\<close>.\<close>

definition count_true :: "bool list \<Rightarrow> nat" where
  "count_true bs = length (filter id bs)"

lemma count_true_simps [simp]:
  "count_true [] = 0"
  "count_true (b # bs) = (if b then Suc (count_true bs) else count_true bs)"
  "count_true (bs @ cs) = count_true bs + count_true cs"
  "count_true (replicate n False) = 0"
  by (auto simp: count_true_def)

lemma count_true_resize:
  "length bs \<le> n \<Longrightarrow> count_true (resize bs n False) = count_true bs"
  by (simp add: resize_def)

lemma count_true_set:
  "i < length bs \<Longrightarrow> \<not> bs ! i \<Longrightarrow> count_true (bs[i := True]) = Suc (count_true bs)"
proof (induction bs arbitrary: i)
  case (Cons b bs)
  then show ?case by (cases i) auto
qed simp

lemma count_true_clear:
  "i < length bs \<Longrightarrow> bs ! i \<Longrightarrow> Suc (count_true (bs[i := False])) = count_true bs"
proof (induction bs arbitrary: i)
  case (Cons b bs)
  then show ?case by (cases i) auto
qed simp

lemma count_true_0_iff: "count_true bs = 0 \<longleftrightarrow> (\<forall>i < length bs. \<not> bs ! i)"
proof (induction bs)
  case (Cons b bs)
  then show ?case by (auto simp: nth_Cons less_Suc_eq_0_disj split: nat.splits)
qed simp

lemma count_true_pos_if: "i < length bs \<Longrightarrow> bs ! i \<Longrightarrow> 0 < count_true bs"
  using count_true_0_iff [of bs] by (cases "count_true bs") auto

section \<open>Loops over a state that may end the process\<close>

primrec foldM :: "('a \<Rightarrow> 's \<Rightarrow> 's option) \<Rightarrow> 'a list \<Rightarrow> 's \<Rightarrow> 's option" where
  "foldM f [] s = Some s"
| "foldM f (x # xs) s = Option.bind (f x s) (foldM f xs)"

primrec mapM :: "('a \<Rightarrow> 'b option) \<Rightarrow> 'a list \<Rightarrow> 'b list option" where
  "mapM f [] = Some []"
| "mapM f (x # xs) = do { y \<leftarrow> f x; ys \<leftarrow> mapM f xs; Some (y # ys) }"

lemma foldM_append: "foldM f (xs @ ys) s = Option.bind (foldM f xs s) (foldM f ys)"
proof (induction xs arbitrary: s)
  case (Cons x xs)
  then show ?case by (cases "f x s") simp_all
qed simp

lemma foldM_Some: "foldM (\<lambda>x s. Some (f x s)) xs s = Some (fold f xs s)"
  by (induction xs arbitrary: s) simp_all

lemma foldM_invariant:
  assumes "foldM f xs s = Some s'" and "I s"
    and "\<And>x s s'. x \<in> set xs \<Longrightarrow> I s \<Longrightarrow> f x s = Some s' \<Longrightarrow> I s'"
  shows "I s'"
  using assms
proof (induction xs arbitrary: s)
  case (Cons x xs)
  then obtain s1 where "f x s = Some s1" "foldM f xs s1 = Some s'" by (auto simp: bind_eq_Some_conv)
  with Cons show ?case by (metis list.set_intros)
qed simp

lemma foldM_returns:
  assumes "I s" and "\<And>x s. x \<in> set xs \<Longrightarrow> I s \<Longrightarrow> \<exists>s'. f x s = Some s' \<and> I s'"
  shows "\<exists>s'. foldM f xs s = Some s' \<and> I s'"
  using assms
proof (induction xs arbitrary: s)
  case (Cons x xs)
  then obtain s1 where "f x s = Some s1" "I s1" by (metis list.set_intros(1))
  with Cons show ?case by (metis foldM.simps(2) bind.bind_lunit list.set_intros(2))
qed simp

lemma mapM_eq_Some:
  "mapM f xs = Some ys \<longleftrightarrow> length ys = length xs \<and> (\<forall>i < length xs. f (xs ! i) = Some (ys ! i))"
proof (induction xs arbitrary: ys)
  case (Cons x xs)
  show ?case
  proof (cases ys)
    case (Cons y zs)
    with Cons.IH show ?thesis by (auto simp: bind_eq_Some_conv nth_Cons less_Suc_eq_0_disj)
  qed (auto simp: bind_eq_Some_conv)
qed auto

lemma mapM_returns: "(\<And>x. x \<in> set xs \<Longrightarrow> \<exists>y. f x = Some y) \<Longrightarrow> \<exists>ys. mapM f xs = Some ys"
proof (induction xs)
  case (Cons x xs)
  then obtain y ys where "f x = Some y" "mapM f xs = Some ys" by fastforce
  then show ?case by simp
qed simp

end
