(* ===== verification/ModelTypes.thy ===== *)
theory ModelTypes
  imports Prelude
begin

text \<open>
  The data of \<open>action.h\<close>, \<open>clockvector.h\<close> and \<open>memoryorder.h\<close> that the other
  components share: memory orders, action types, clock vectors and actions. The operations are
  in the theories of their classes.
\<close>

section \<open>Memory orders\<close>

text \<open>
  The five C11 orders. A C \<open>enum\<close> object can hold other values, and the order inference of
  \<open>scfence/\<close> stores its wildcards \<open>0x1000 + x\<close> there (\<open>wildcard.h\<close>), so the type has
  a constructor for them: they take the \<open>default\<close> branch of every \<open>switch\<close>.
\<close>

datatype memory_order =
    memory_order_relaxed
  | memory_order_acquire
  | memory_order_release
  | memory_order_acq_rel
  | memory_order_seq_cst
  | memory_order_other "32 word"

fun memory_order_code :: "memory_order \<Rightarrow> 32 word" where
  "memory_order_code memory_order_relaxed = 0"
| "memory_order_code memory_order_acquire = 1"
| "memory_order_code memory_order_release = 2"
| "memory_order_code memory_order_acq_rel = 3"
| "memory_order_code memory_order_seq_cst = 4"
| "memory_order_code (memory_order_other w) = w"

section \<open>Action types\<close>

datatype action_type =
    MODEL_FIXUP_RELSEQ
  | THREAD_CREATE
  | THREAD_START
  | THREAD_YIELD
  | THREAD_JOIN
  | THREAD_FINISH
  | ATOMIC_UNINIT
  | ATOMIC_READ
  | ATOMIC_WRITE
  | ATOMIC_RMWR
  | ATOMIC_RMW
  | ATOMIC_RMWC
  | ATOMIC_INIT
  | ATOMIC_FENCE
  | ATOMIC_LOCK
  | ATOMIC_TRYLOCK
  | ATOMIC_UNLOCK
  | ATOMIC_NOTIFY_ONE
  | ATOMIC_NOTIFY_ALL
  | ATOMIC_WAIT
  | ATOMIC_ANNOTATION

fun action_type_code :: "action_type \<Rightarrow> 32 word" where
  "action_type_code MODEL_FIXUP_RELSEQ = 0"
| "action_type_code THREAD_CREATE = 1"
| "action_type_code THREAD_START = 2"
| "action_type_code THREAD_YIELD = 3"
| "action_type_code THREAD_JOIN = 4"
| "action_type_code THREAD_FINISH = 5"
| "action_type_code ATOMIC_UNINIT = 6"
| "action_type_code ATOMIC_READ = 7"
| "action_type_code ATOMIC_WRITE = 8"
| "action_type_code ATOMIC_RMWR = 9"
| "action_type_code ATOMIC_RMW = 10"
| "action_type_code ATOMIC_RMWC = 11"
| "action_type_code ATOMIC_INIT = 12"
| "action_type_code ATOMIC_FENCE = 13"
| "action_type_code ATOMIC_LOCK = 14"
| "action_type_code ATOMIC_TRYLOCK = 15"
| "action_type_code ATOMIC_UNLOCK = 16"
| "action_type_code ATOMIC_NOTIFY_ONE = 17"
| "action_type_code ATOMIC_NOTIFY_ALL = 18"
| "action_type_code ATOMIC_WAIT = 19"
| "action_type_code ATOMIC_ANNOTATION = 20"

section \<open>Clock vectors and actions\<close>

record ClockVector =
  cv_clock :: "modelclock_t list"
  cv_num_threads :: nat

text \<open>
  An action. The pointers to other objects are references: \<open>reads_from\<close> and
  \<open>last_fence_release\<close> to actions, \<open>reads_from_promise\<close> to a promise, \<open>node\<close> to a
  node of the node stack. The clock vector of an action is never shared
  (\<open>ModelAction::create_cv\<close> always allocates a new one), so it is part of the record.
\<close>

record ModelAction =
  ma_type :: action_type
  ma_order :: memory_order
  ma_original_order :: memory_order
  ma_location :: addr
  ma_tid :: thread_id_t
  ma_value :: uint64
  ma_reads_from :: "act_ref option"
  ma_reads_from_promise :: "promise_ref option"
  ma_last_fence_release :: "act_ref option"
  ma_node :: "node_ref option"
  ma_seq_number :: modelclock_t
  ma_cv :: "ClockVector option"
  ma_sleep_flag :: bool

text \<open>The heap of actions: what a \<open>ModelAction *\<close> points to.\<close>

type_synonym act_store = "act_ref \<Rightarrow> ModelAction"

section \<open>Promises\<close>

text \<open>
  A promised future value and the promise object (\<open>promise.h\<close>). The readers are references
  to actions; the back pointer to the execution, used for \<open>get_index\<close> only, is left out.
\<close>

record future_value =
  fv_value :: uint64
  fv_expiration :: modelclock_t
  fv_tid :: thread_id_t

record Promise =
  pr_available_thread :: "bool list"
  pr_was_available_thread :: "bool list"
  pr_num_available_threads :: int
  pr_num_was_available_threads :: int
  pr_fv :: future_value
  pr_readers :: "act_ref list"
  pr_write :: "act_ref option"

type_synonym promise_store = "promise_ref \<Rightarrow> Promise"

definition VALUE_NONE :: uint64 where
  "VALUE_NONE = 0xdeadbeef"

definition FENCE_LOCATION :: addr where
  "FENCE_LOCATION = 0x7"

end
