(* ===== verification/ClockVector.thy ===== *)
theory ClockVector
  imports ModelTypes
begin

text \<open>
  \<open>clockvector.h\<close> and \<open>clockvector.cc\<close>: construction from a parent vector and an action,
  the element-wise merge, the clock lookup and the synchronisation test. The invariant is that the
  array has \<open>num_threads\<close> elements. The locale \<open>vector_clock\<close> is the contract the rest of
  the checker uses: a merge is the least upper bound of the two clocks and reports whether the
  receiver grew.
\<close>

section \<open>Operations\<close>

definition ClockVector_wf :: "ClockVector \<Rightarrow> bool" where
  "ClockVector_wf cv \<longleftrightarrow> length (cv_clock cv) = cv_num_threads cv"

definition new_ClockVector :: "ClockVector option \<Rightarrow> ModelAction \<Rightarrow> ClockVector" where
  "new_ClockVector parent act =
     (let n0 = int_to_id (ma_tid act) + 1;
          n = (case parent of
                 Some p \<Rightarrow> if cv_num_threads p > n0 then cv_num_threads p else n0
               | None \<Rightarrow> n0);
          zeros = replicate n 0;
          clock = (case parent of
                     Some p \<Rightarrow> memcpy zeros (cv_clock p) (cv_num_threads p)
                   | None \<Rightarrow> zeros)
      in \<lparr>cv_clock = clock[id_to_int (ma_tid act) := ma_seq_number act], cv_num_threads = n\<rparr>)"

definition ClockVector_getClock :: "ClockVector \<Rightarrow> thread_id_t \<Rightarrow> modelclock_t" where
  "ClockVector_getClock cv thread =
     (let threadid = id_to_int thread
      in if threadid < cv_num_threads cv then cv_clock cv ! threadid else 0)"

definition ClockVector_synchronized_since :: "ClockVector \<Rightarrow> ModelAction \<Rightarrow> bool" where
  "ClockVector_synchronized_since cv act =
     (let i = id_to_int (ma_tid act)
      in if i < cv_num_threads cv then ma_seq_number act \<le> cv_clock cv ! i else False)"

text \<open>The growing step of \<open>merge\<close>: \<open>realloc\<close> and zeroing of the new elements.\<close>

definition merge_grow :: "ClockVector \<Rightarrow> ClockVector \<Rightarrow> ClockVector" where
  "merge_grow this cv =
     (if cv_num_threads cv > cv_num_threads this
      then \<lparr>cv_clock = resize (cv_clock this) (cv_num_threads cv) 0,
            cv_num_threads = cv_num_threads cv\<rparr>
      else this)"

definition merge_elem ::
    "ClockVector \<Rightarrow> nat \<Rightarrow> modelclock_t list \<times> bool \<Rightarrow> modelclock_t list \<times> bool" where
  "merge_elem cv i acc =
     (case acc of (clock, changed) \<Rightarrow>
        if cv_clock cv ! i > clock ! i then (clock[i := cv_clock cv ! i], True)
        else (clock, changed))"

definition ClockVector_merge :: "ClockVector \<Rightarrow> ClockVector \<Rightarrow> bool \<times> ClockVector" where
  "ClockVector_merge this cv =
     (let grown = merge_grow this cv;
          (clock, changed) = fold (merge_elem cv) [0..<cv_num_threads cv] (cv_clock grown, False)
      in (changed, grown\<lparr>cv_clock := clock\<rparr>))"

section \<open>The merge loop\<close>

lemma fst_merge_elem_length [simp]:
  "length (fst (fold (merge_elem cv) is acc)) = length (fst acc)"
  by (induction "is" arbitrary: acc) (auto simp: merge_elem_def split: prod.splits)

text \<open>What the first \<open>n\<close> iterations of the loop have done.\<close>

lemma merge_loop_prefix:
  assumes "n \<le> length clock"
  shows "fold (merge_elem cv) [0..<n] (clock, False) =
           (map (\<lambda>i. if i < n then max (clock ! i) (cv_clock cv ! i) else clock ! i)
                [0..<length clock],
            \<exists>i<n. clock ! i < cv_clock cv ! i)"
  using assms
proof (induction n)
  case 0
  then show ?case by (simp add: map_nth)
next
  case (Suc n)
  let ?m = "\<lambda>n. map (\<lambda>i. if i < n then max (clock ! i) (cv_clock cv ! i) else clock ! i)
                     [0..<length clock]"
  have IH: "fold (merge_elem cv) [0..<n] (clock, False) =
              (?m n, \<exists>i<n. clock ! i < cv_clock cv ! i)"
    using Suc by simp
  have at_n: "?m n ! n = clock ! n"
    using Suc.prems by simp
  have step: "?m (Suc n) = (if clock ! n < cv_clock cv ! n then (?m n)[n := cv_clock cv ! n] else ?m n)"
    by (rule nth_equalityI) (auto simp: nth_list_update less_Suc_eq max_def)
  have "fold (merge_elem cv) [0..<Suc n] (clock, False) =
          merge_elem cv n (?m n, \<exists>i<n. clock ! i < cv_clock cv ! i)"
    by (simp add: IH)
  also have "\<dots> = (?m (Suc n), \<exists>i<Suc n. clock ! i < cv_clock cv ! i)"
    unfolding merge_elem_def step at_n prod.case by (simp add: less_Suc_eq ex_disj_distrib) blast
  finally show ?case .
qed

lemma merge_grow_wf: "ClockVector_wf this \<Longrightarrow> ClockVector_wf (merge_grow this cv)"
  by (auto simp: merge_grow_def ClockVector_wf_def)

lemma merge_grow_num_threads:
  "cv_num_threads (merge_grow this cv) = max (cv_num_threads this) (cv_num_threads cv)"
  by (simp add: merge_grow_def max_def)

lemma merge_grow_getClock:
  "ClockVector_wf this \<Longrightarrow>
     ClockVector_getClock (merge_grow this cv) t = ClockVector_getClock this t"
  by (auto simp: merge_grow_def ClockVector_wf_def ClockVector_getClock_def nth_resize id_to_int_def)

text \<open>The result of a merge, element by element.\<close>

lemma merge_result:
  assumes "ClockVector_wf this" and "ClockVector_wf cv"
  defines "grown \<equiv> merge_grow this cv"
  shows "ClockVector_merge this cv =
           ((\<exists>i<cv_num_threads cv. cv_clock grown ! i < cv_clock cv ! i),
            grown\<lparr>cv_clock := map (\<lambda>i. if i < cv_num_threads cv
                                       then max (cv_clock grown ! i) (cv_clock cv ! i)
                                       else cv_clock grown ! i)
                                   [0..<length (cv_clock grown)]\<rparr>)"
proof -
  have "cv_num_threads cv \<le> length (cv_clock grown)"
    using merge_grow_wf [OF assms(1), of cv] merge_grow_num_threads [of this cv]
    by (simp add: ClockVector_wf_def grown_def)
  from merge_loop_prefix [OF this, of cv] show ?thesis
    by (simp add: ClockVector_merge_def grown_def Let_def)
qed

lemma ClockVector_merge_wf:
  "ClockVector_wf this \<Longrightarrow> ClockVector_wf cv \<Longrightarrow> ClockVector_wf (snd (ClockVector_merge this cv))"
  using merge_grow_wf [of this cv] by (simp add: merge_result ClockVector_wf_def)

lemma ClockVector_merge_num_threads:
  "ClockVector_wf this \<Longrightarrow> ClockVector_wf cv \<Longrightarrow>
     cv_num_threads (snd (ClockVector_merge this cv)) = max (cv_num_threads this) (cv_num_threads cv)"
  by (simp add: merge_result merge_grow_num_threads)

lemma ClockVector_merge_getClock:
  assumes "ClockVector_wf this" and "ClockVector_wf cv"
  shows "ClockVector_getClock (snd (ClockVector_merge this cv)) t =
           max (ClockVector_getClock this t) (ClockVector_getClock cv t)"
proof -
  let ?g = "merge_grow this cv"
  have len: "length (cv_clock ?g) = max (cv_num_threads this) (cv_num_threads cv)"
    using merge_grow_wf [OF assms(1), of cv] merge_grow_num_threads [of this cv]
    by (simp add: ClockVector_wf_def)
  have g: "ClockVector_getClock ?g t = ClockVector_getClock this t"
    using assms(1) by (rule merge_grow_getClock)
  show ?thesis
    using len g
    by (auto simp: merge_result [OF assms] ClockVector_getClock_def Let_def merge_grow_num_threads
        max_def)
qed

lemma ClockVector_merge_changed:
  assumes "ClockVector_wf this" and "ClockVector_wf cv"
  shows "fst (ClockVector_merge this cv) \<longleftrightarrow>
           (\<exists>t. ClockVector_getClock this t < ClockVector_getClock cv t)"
proof -
  let ?g = "merge_grow this cv"
  have lt: "cv_clock ?g ! i < cv_clock cv ! i \<longleftrightarrow>
              ClockVector_getClock this i < ClockVector_getClock cv i" if "i < cv_num_threads cv" for i
  proof -
    have "ClockVector_getClock this i = cv_clock ?g ! i"
      using that merge_grow_getClock [OF assms(1), of cv i, symmetric] merge_grow_num_threads [of this cv]
      by (simp add: ClockVector_getClock_def [of ?g] id_to_int_def less_max_iff_disj)
    then show ?thesis
      using that by (simp add: ClockVector_getClock_def id_to_int_def)
  qed
  have beyond: "\<not> ClockVector_getClock this t < ClockVector_getClock cv t"
    if "\<not> t < cv_num_threads cv" for t
    using that by (simp add: ClockVector_getClock_def id_to_int_def)
  have "fst (ClockVector_merge this cv) \<longleftrightarrow>
          (\<exists>i<cv_num_threads cv. cv_clock ?g ! i < cv_clock cv ! i)"
    by (simp add: merge_result [OF assms])
  then show ?thesis
    using lt beyond by blast
qed

section \<open>Construction\<close>

lemma new_ClockVector_wf:
  "(\<And>p. parent = Some p \<Longrightarrow> ClockVector_wf p) \<Longrightarrow> ClockVector_wf (new_ClockVector parent act)"
  by (auto simp: new_ClockVector_def ClockVector_wf_def memcpy_def Let_def split: option.splits)

lemma new_ClockVector_getClock:
  assumes "\<And>p. parent = Some p \<Longrightarrow> ClockVector_wf p"
  shows "ClockVector_getClock (new_ClockVector parent act) t =
           (if t = ma_tid act then ma_seq_number act
            else case parent of Some p \<Rightarrow> ClockVector_getClock p t | None \<Rightarrow> 0)"
proof (cases parent)
  case None
  then show ?thesis
    by (simp add: new_ClockVector_def ClockVector_getClock_def Let_def id_to_int_def int_to_id_def
        nth_list_update del: replicate_Suc)
next
  case (Some p)
  let ?n = "max (cv_num_threads p) (Suc (ma_tid act))"
  from Some assms have len: "length (cv_clock p) = cv_num_threads p"
    by (simp add: ClockVector_wf_def)
  have new: "new_ClockVector parent act =
      \<lparr>cv_clock = (memcpy (replicate ?n 0) (cv_clock p) (cv_num_threads p))
                     [ma_tid act := ma_seq_number act], cv_num_threads = ?n\<rparr>"
    using Some by (simp add: new_ClockVector_def Let_def int_to_id_def id_to_int_def max_def)
  show ?thesis
    unfolding new using Some len
    by (simp add: ClockVector_getClock_def Let_def id_to_int_def nth_list_update nth_memcpy less_max_iff_disj
        del: replicate_Suc)
qed

lemma new_ClockVector_num_threads:
  "ma_tid act < cv_num_threads (new_ClockVector parent act)"
  by (auto simp: new_ClockVector_def Let_def int_to_id_def split: option.splits)

lemma synchronized_since_iff:
  "ClockVector_synchronized_since cv act \<longleftrightarrow>
     ma_tid act < cv_num_threads cv \<and> ma_seq_number act \<le> ClockVector_getClock cv (ma_tid act)"
  by (simp add: ClockVector_synchronized_since_def ClockVector_getClock_def Let_def id_to_int_def)

section \<open>The contract of a clock vector\<close>

locale vector_clock =
  fixes clock :: "'cv \<Rightarrow> thread_id_t \<Rightarrow> modelclock_t"
    and merge :: "'cv \<Rightarrow> 'cv \<Rightarrow> bool \<times> 'cv"
    and invar :: "'cv \<Rightarrow> bool"
  assumes clock_merge: "invar a \<Longrightarrow> invar b \<Longrightarrow> clock (snd (merge a b)) t = max (clock a t) (clock b t)"
    and merge_changed: "invar a \<Longrightarrow> invar b \<Longrightarrow> fst (merge a b) \<longleftrightarrow> (\<exists>t. clock a t < clock b t)"
    and invar_merge: "invar a \<Longrightarrow> invar b \<Longrightarrow> invar (snd (merge a b))"
begin

lemma merge_least:
  assumes "invar a" "invar b" "\<And>t. clock a t \<le> clock c t" "\<And>t. clock b t \<le> clock c t"
  shows "clock (snd (merge a b)) t \<le> clock c t"
  using assms by (simp add: clock_merge)

lemma merge_upper:
  "invar a \<Longrightarrow> invar b \<Longrightarrow>
     clock a t \<le> clock (snd (merge a b)) t \<and> clock b t \<le> clock (snd (merge a b)) t"
  by (simp add: clock_merge)

lemma merge_commute:
  "invar a \<Longrightarrow> invar b \<Longrightarrow> clock (snd (merge a b)) t = clock (snd (merge b a)) t"
  by (simp add: clock_merge max.commute)

lemma merge_assoc:
  "invar a \<Longrightarrow> invar b \<Longrightarrow> invar c \<Longrightarrow>
     clock (snd (merge (snd (merge a b)) c)) t = clock (snd (merge a (snd (merge b c)))) t"
  by (simp add: clock_merge invar_merge max.assoc)

lemma merge_unchanged:
  assumes "invar a" "invar b"
  shows "\<not> fst (merge a b) \<longleftrightarrow> (\<forall>t. clock (snd (merge a b)) t = clock a t)"
proof -
  have "\<not> fst (merge a b) \<longleftrightarrow> (\<forall>t. clock b t \<le> clock a t)"
    using assms by (auto simp: merge_changed not_less)
  also have "\<dots> \<longleftrightarrow> (\<forall>t. clock (snd (merge a b)) t = clock a t)"
    using assms by (simp add: clock_merge max_def) (metis nle_le)
  finally show ?thesis .
qed

text \<open>Merging the same vector twice reports a change the first time only.\<close>

lemma merge_again_unchanged:
  "invar a \<Longrightarrow> invar b \<Longrightarrow> \<not> fst (merge (snd (merge a b)) b)"
  by (auto simp: merge_changed invar_merge clock_merge)

end

interpretation cvm: vector_clock ClockVector_getClock ClockVector_merge ClockVector_wf
  by unfold_locales
    (simp_all add: ClockVector_merge_getClock ClockVector_merge_changed ClockVector_merge_wf)

end
