(* ===== verification/Action.thy ===== *)
theory Action
  imports ClockVector
begin

unbundle bit_operations_syntax

text \<open>
  \<open>action.h\<close> and \<open>action.cc\<close>: the operations of \<open>ModelAction\<close>. A method that only
  reads its object takes the \<open>ModelAction\<close> record; one that follows a pointer to another action
  takes the heap of actions as well; one that changes the object returns the changed record.
\<close>

section \<open>Construction and small updates\<close>

definition ACTION_INITIAL_CLOCK :: modelclock_t where
  "ACTION_INITIAL_CLOCK = 0"

definition VALUE_TRYSUCCESS :: uint64 where
  "VALUE_TRYSUCCESS = 1"

definition VALUE_TRYFAILED :: uint64 where
  "VALUE_TRYFAILED = 0"

text \<open>The thread is the one given or else the scheduler's current thread; its id is \<open>tid\<close>.\<close>

definition new_ModelAction ::
    "action_type \<Rightarrow> memory_order \<Rightarrow> addr \<Rightarrow> uint64 \<Rightarrow> thread_id_t \<Rightarrow> ModelAction option" where
  "new_ModelAction type order loc val tid = do {
     ASSERT (loc \<noteq> 0 \<or> type = ATOMIC_FENCE \<or> type = MODEL_FIXUP_RELSEQ);
     Some \<lparr>ma_type = type, ma_order = order, ma_original_order = order, ma_location = loc,
           ma_tid = tid, ma_value = val, ma_reads_from = None, ma_reads_from_promise = None,
           ma_last_fence_release = None, ma_node = None, ma_seq_number = ACTION_INITIAL_CLOCK,
           ma_cv = None, ma_sleep_flag = False\<rparr>
   }"

definition copy_from_new :: "ModelAction \<Rightarrow> ModelAction \<Rightarrow> ModelAction" where
  "copy_from_new this newaction = this\<lparr>ma_seq_number := ma_seq_number newaction\<rparr>"

section \<open>Classification\<close>

definition is_thread_start :: "ModelAction \<Rightarrow> bool" where
  "is_thread_start a \<longleftrightarrow> ma_type a = THREAD_START"

definition is_thread_join :: "ModelAction \<Rightarrow> bool" where
  "is_thread_join a \<longleftrightarrow> ma_type a = THREAD_JOIN"

definition is_relseq_fixup :: "ModelAction \<Rightarrow> bool" where
  "is_relseq_fixup a \<longleftrightarrow> ma_type a = MODEL_FIXUP_RELSEQ"

definition is_mutex_op :: "ModelAction \<Rightarrow> bool" where
  "is_mutex_op a \<longleftrightarrow> ma_type a = ATOMIC_LOCK \<or> ma_type a = ATOMIC_TRYLOCK \<or>
     ma_type a = ATOMIC_UNLOCK \<or> ma_type a = ATOMIC_WAIT \<or> ma_type a = ATOMIC_NOTIFY_ONE \<or>
     ma_type a = ATOMIC_NOTIFY_ALL"

definition is_lock :: "ModelAction \<Rightarrow> bool" where
  "is_lock a \<longleftrightarrow> ma_type a = ATOMIC_LOCK"

definition is_wait :: "ModelAction \<Rightarrow> bool" where
  "is_wait a \<longleftrightarrow> ma_type a = ATOMIC_WAIT"

definition is_notify :: "ModelAction \<Rightarrow> bool" where
  "is_notify a \<longleftrightarrow> ma_type a = ATOMIC_NOTIFY_ONE \<or> ma_type a = ATOMIC_NOTIFY_ALL"

definition is_notify_one :: "ModelAction \<Rightarrow> bool" where
  "is_notify_one a \<longleftrightarrow> ma_type a = ATOMIC_NOTIFY_ONE"

definition is_unlock :: "ModelAction \<Rightarrow> bool" where
  "is_unlock a \<longleftrightarrow> ma_type a = ATOMIC_UNLOCK"

definition is_trylock :: "ModelAction \<Rightarrow> bool" where
  "is_trylock a \<longleftrightarrow> ma_type a = ATOMIC_TRYLOCK"

definition is_success_lock :: "ModelAction \<Rightarrow> bool" where
  "is_success_lock a \<longleftrightarrow>
     ma_type a = ATOMIC_LOCK \<or> (ma_type a = ATOMIC_TRYLOCK \<and> ma_value a = VALUE_TRYSUCCESS)"

definition is_failed_trylock :: "ModelAction \<Rightarrow> bool" where
  "is_failed_trylock a \<longleftrightarrow> ma_type a = ATOMIC_TRYLOCK \<and> ma_value a = VALUE_TRYFAILED"

definition is_uninitialized :: "ModelAction \<Rightarrow> bool" where
  "is_uninitialized a \<longleftrightarrow> ma_type a = ATOMIC_UNINIT"

definition is_read :: "ModelAction \<Rightarrow> bool" where
  "is_read a \<longleftrightarrow> ma_type a = ATOMIC_READ \<or> ma_type a = ATOMIC_RMWR \<or> ma_type a = ATOMIC_RMW"

definition is_write :: "ModelAction \<Rightarrow> bool" where
  "is_write a \<longleftrightarrow> ma_type a = ATOMIC_WRITE \<or> ma_type a = ATOMIC_RMW \<or>
     ma_type a = ATOMIC_INIT \<or> ma_type a = ATOMIC_UNINIT"

definition is_rmwr :: "ModelAction \<Rightarrow> bool" where
  "is_rmwr a \<longleftrightarrow> ma_type a = ATOMIC_RMWR"

definition could_be_write :: "ModelAction \<Rightarrow> bool" where
  "could_be_write a \<longleftrightarrow> is_write a \<or> is_rmwr a"

definition is_atomic_var :: "ModelAction \<Rightarrow> bool" where
  "is_atomic_var a \<longleftrightarrow> is_read a \<or> could_be_write a"

definition is_yield :: "ModelAction \<Rightarrow> bool" where
  "is_yield a \<longleftrightarrow> ma_type a = THREAD_YIELD"

definition is_rmw :: "ModelAction \<Rightarrow> bool" where
  "is_rmw a \<longleftrightarrow> ma_type a = ATOMIC_RMW"

definition is_rmwc :: "ModelAction \<Rightarrow> bool" where
  "is_rmwc a \<longleftrightarrow> ma_type a = ATOMIC_RMWC"

definition is_fence :: "ModelAction \<Rightarrow> bool" where
  "is_fence a \<longleftrightarrow> ma_type a = ATOMIC_FENCE"

definition is_initialization :: "ModelAction \<Rightarrow> bool" where
  "is_initialization a \<longleftrightarrow> ma_type a = ATOMIC_INIT"

definition is_annotation :: "ModelAction \<Rightarrow> bool" where
  "is_annotation a \<longleftrightarrow> ma_type a = ATOMIC_ANNOTATION"

definition is_relaxed :: "ModelAction \<Rightarrow> bool" where
  "is_relaxed a \<longleftrightarrow> ma_order a = memory_order_relaxed"

definition is_acquire :: "ModelAction \<Rightarrow> bool" where
  "is_acquire a \<longleftrightarrow> (case ma_order a of
      memory_order_acquire \<Rightarrow> True
    | memory_order_acq_rel \<Rightarrow> True
    | memory_order_seq_cst \<Rightarrow> True
    | _ \<Rightarrow> False)"

definition is_release :: "ModelAction \<Rightarrow> bool" where
  "is_release a \<longleftrightarrow> (case ma_order a of
      memory_order_release \<Rightarrow> True
    | memory_order_acq_rel \<Rightarrow> True
    | memory_order_seq_cst \<Rightarrow> True
    | _ \<Rightarrow> False)"

definition is_seqcst :: "ModelAction \<Rightarrow> bool" where
  "is_seqcst a \<longleftrightarrow> ma_order a = memory_order_seq_cst"

lemmas action_class_defs =
  is_thread_start_def is_thread_join_def is_relseq_fixup_def is_mutex_op_def is_lock_def is_wait_def
  is_notify_def is_notify_one_def is_unlock_def is_trylock_def is_success_lock_def
  is_failed_trylock_def is_uninitialized_def is_read_def is_write_def is_rmwr_def could_be_write_def
  is_atomic_var_def is_yield_def is_rmw_def is_rmwc_def is_fence_def is_initialization_def
  is_annotation_def

lemmas action_order_defs = is_relaxed_def is_acquire_def is_release_def is_seqcst_def

section \<open>Updates\<close>

definition set_seq_number :: "ModelAction \<Rightarrow> modelclock_t \<Rightarrow> ModelAction option" where
  "set_seq_number this num = do {
     ASSERT (\<not> is_uninitialized this);
     ASSERT (ma_seq_number this = ACTION_INITIAL_CLOCK);
     Some (this\<lparr>ma_seq_number := num\<rparr>)
   }"

definition copy_typeandorder :: "ModelAction \<Rightarrow> ModelAction \<Rightarrow> ModelAction" where
  "copy_typeandorder this act = this\<lparr>ma_type := ma_type act, ma_order := ma_order act\<rparr>"

definition ModelAction_process_rmw :: "ModelAction \<Rightarrow> ModelAction \<Rightarrow> ModelAction" where
  "ModelAction_process_rmw this act =
     (let this1 = this\<lparr>ma_order := ma_order act\<rparr>
      in if is_rmwc act then this1\<lparr>ma_type := ATOMIC_READ\<rparr>
         else if is_rmw act then this1\<lparr>ma_type := ATOMIC_RMW, ma_value := ma_value act\<rparr>
         else this1)"

definition set_try_lock :: "ModelAction \<Rightarrow> bool \<Rightarrow> ModelAction" where
  "set_try_lock this obtainedlock =
     this\<lparr>ma_value := (if obtainedlock then VALUE_TRYSUCCESS else VALUE_TRYFAILED)\<rparr>"

text \<open>
  \<open>set_read_from\<close> reports a bug to the model checker when the store is uninitialised: the second
  component says whether \<open>assert_bug\<close> is called.
\<close>

definition set_read_from :: "ModelAction \<Rightarrow> act_ref \<Rightarrow> ModelAction \<Rightarrow> ModelAction \<times> bool" where
  "set_read_from this act_ptr act =
     (this\<lparr>ma_reads_from := Some act_ptr, ma_reads_from_promise := None\<rparr>, is_uninitialized act)"

definition set_read_from_promise :: "ModelAction \<Rightarrow> promise_ref \<Rightarrow> ModelAction option" where
  "set_read_from_promise this promise = do {
     ASSERT (is_read this);
     Some (this\<lparr>ma_reads_from_promise := Some promise, ma_reads_from := None\<rparr>)
   }"

section \<open>Relations between actions\<close>

definition same_var :: "ModelAction \<Rightarrow> ModelAction \<Rightarrow> bool" where
  "same_var this act \<longleftrightarrow>
     (if (is_wait act \<or> is_wait this) \<and>
         (if is_wait act \<and> is_wait this then ma_value this = ma_value act
          else if is_wait this then ma_value this = ma_location act
          else if is_wait act then ma_location this = ma_value act
          else False)
      then True
      else ma_location this = ma_location act)"

definition same_thread :: "ModelAction \<Rightarrow> ModelAction \<Rightarrow> bool" where
  "same_thread this act \<longleftrightarrow> ma_tid this = ma_tid act"

definition could_synchronize_with :: "ModelAction \<Rightarrow> ModelAction \<Rightarrow> bool" where
  "could_synchronize_with this act =
     (if same_thread this act then False
      else if \<not> same_var this act \<and> \<not> is_fence this \<and> \<not> is_fence act then False
      else if (could_be_write this \<or> could_be_write act \<or> is_fence this \<or> is_fence act) \<and>
              is_seqcst this \<and> is_seqcst act then True
      else if is_acquire this \<and> is_release act \<and> is_read this \<and> could_be_write act then True
      else if (is_lock this \<or> is_trylock this) \<and> (is_unlock act \<or> is_wait act) then True
      else if is_trylock this \<and> is_success_lock act then True
      else if is_unlock this \<and> (is_trylock act \<or> is_lock act) then True
      else if is_trylock this \<and> (is_unlock act \<or> is_wait act) then True
      else if is_notify this \<and> is_wait act then True
      else if is_wait this \<and> is_notify act then True
      else False)"

definition is_conflicting_lock :: "ModelAction \<Rightarrow> ModelAction \<Rightarrow> bool" where
  "is_conflicting_lock this act =
     (if same_thread this act then False
      else if is_success_lock act then True
      else if is_unlock act \<and> is_trylock this \<and> ma_value this = VALUE_TRYSUCCESS then True
      else if is_wait act \<and> is_trylock this \<and> ma_value this = VALUE_TRYSUCCESS then True
      else False)"

text \<open>\<open>operator <\<close> and \<open>operator >\<close> compare positions in the execution order.\<close>

definition act_less :: "ModelAction \<Rightarrow> ModelAction \<Rightarrow> bool" where
  "act_less this act \<longleftrightarrow> ma_seq_number this < ma_seq_number act"

definition act_greater :: "ModelAction \<Rightarrow> ModelAction \<Rightarrow> bool" where
  "act_greater this act \<longleftrightarrow> ma_seq_number this > ma_seq_number act"

section \<open>Clock vectors of actions\<close>

definition create_cv :: "ModelAction \<Rightarrow> ModelAction option \<Rightarrow> ModelAction" where
  "create_cv this parent =
     (case parent of
        Some p \<Rightarrow> this\<lparr>ma_cv := Some (new_ClockVector (ma_cv p) this)\<rparr>
      | None \<Rightarrow> this\<lparr>ma_cv := Some (new_ClockVector None this)\<rparr>)"

text \<open>Both actions must have a clock vector: the code dereferences them.\<close>

definition synchronize_with :: "ModelAction \<Rightarrow> ModelAction \<Rightarrow> (bool \<times> ModelAction) option" where
  "synchronize_with this act =
     (if act_less this act then Some (False, this)
      else do {
        cv \<leftarrow> ma_cv this;
        other \<leftarrow> ma_cv act;
        Some (True, this\<lparr>ma_cv := Some (snd (ClockVector_merge cv other))\<rparr>)
      })"

text \<open>
  The clock vector of an action is created before the action enters any list
  (\<open>initialize_curr_action\<close>, \<open>get_uninitialized_action\<close>); where there is none the two tests
  below, which dereference it, answer \<open>False\<close>.
\<close>

definition has_synchronized_with :: "ModelAction \<Rightarrow> ModelAction \<Rightarrow> bool" where
  "has_synchronized_with this act =
     (case ma_cv this of Some cv \<Rightarrow> ClockVector_synchronized_since cv act | None \<Rightarrow> False)"

definition happens_before :: "ModelAction \<Rightarrow> ModelAction \<Rightarrow> bool" where
  "happens_before this act =
     (case ma_cv act of Some cv \<Rightarrow> ClockVector_synchronized_since cv this | None \<Rightarrow> False)"

section \<open>Values\<close>

definition get_write_value :: "ModelAction \<Rightarrow> uint64 option" where
  "get_write_value this = do { ASSERT (is_write this); Some (ma_value this) }"

definition get_reads_from_value ::
    "act_store \<Rightarrow> promise_store \<Rightarrow> ModelAction \<Rightarrow> uint64 option" where
  "get_reads_from_value acts proms this = do {
     ASSERT (is_read this);
     (case ma_reads_from this of
        Some rf \<Rightarrow> get_write_value (acts rf)
      | None \<Rightarrow>
          (case ma_reads_from_promise this of
             Some p \<Rightarrow> Some (fv_value (pr_fv (proms p)))
           | None \<Rightarrow> Some VALUE_NONE))
   }"

definition get_return_value ::
    "act_store \<Rightarrow> promise_store \<Rightarrow> ModelAction \<Rightarrow> uint64 option" where
  "get_return_value acts proms this =
     (if is_read this then get_reads_from_value acts proms this
      else if is_write this then get_write_value this
      else Some (ma_value this))"

definition get_node :: "ModelAction \<Rightarrow> node_ref option option" where
  "get_node this = do { ASSERT (\<not> is_uninitialized this); Some (ma_node this) }"

text \<open>The mutex an action works on: an address, \<open>None\<close> for the null pointer.\<close>

definition get_mutex :: "ModelAction \<Rightarrow> addr option" where
  "get_mutex this =
     (if is_trylock this \<or> is_lock this \<or> is_unlock this then Some (ma_location this)
      else if is_wait this then Some (ma_value this)
      else None)"

text \<open>
  The operand of a thread operation. \<open>thrd_priv\<close> reads the \<open>priv\<close> field of the user's
  \<open>thrd_t\<close> at an address, \<open>thread_at\<close> is the thread object at an address.
\<close>

definition get_thread_operand ::
    "(addr \<Rightarrow> thread_id_t option) \<Rightarrow> (addr \<Rightarrow> thread_id_t option) \<Rightarrow> ModelAction \<Rightarrow> thread_id_t option"
where
  "get_thread_operand thrd_priv thread_at this =
     (if ma_type this = THREAD_CREATE then thrd_priv (ma_location this)
      else if ma_type this = THREAD_JOIN then thread_at (ma_location this)
      else None)"

text \<open>
  The trace hash. \<open>promise_number\<close> is \<open>ModelExecution::get_promise_number\<close>, -1 for a promise
  that is no longer pending; conversions to \<open>unsigned int\<close> keep the low 32 bits.
\<close>

definition action_hash ::
    "(promise_ref \<Rightarrow> int) \<Rightarrow> act_store \<Rightarrow> promise_store \<Rightarrow> ModelAction \<Rightarrow> 32 word option" where
  "action_hash promise_number acts proms this =
     (let h0 = action_type_code (ma_type this);
          h1 = h0 XOR push_bit 3 (memory_order_code (ma_order this));
          h2 = h1 XOR push_bit 5 (ma_seq_number this);
          h3 = h2 XOR push_bit 6 (word_of_nat (id_to_int (ma_tid this)))
      in if is_read this then do {
           let h4 = (case ma_reads_from this of
                       Some rf \<Rightarrow> h3 XOR ma_seq_number (acts rf)
                     | None \<Rightarrow>
                         (case ma_reads_from_promise this of
                            Some p \<Rightarrow> h3 XOR word_of_int (promise_number p)
                          | None \<Rightarrow> h3));
           v \<leftarrow> get_reads_from_value acts proms this;
           Some (h4 XOR ucast v)
         }
         else Some h3)"

section \<open>Names\<close>

fun get_type_str :: "action_type \<Rightarrow> string" where
  "get_type_str MODEL_FIXUP_RELSEQ = ''relseq fixup''"
| "get_type_str THREAD_CREATE = ''thread create''"
| "get_type_str THREAD_START = ''thread start''"
| "get_type_str THREAD_YIELD = ''thread yield''"
| "get_type_str THREAD_JOIN = ''thread join''"
| "get_type_str THREAD_FINISH = ''thread finish''"
| "get_type_str ATOMIC_UNINIT = ''uninitialized''"
| "get_type_str ATOMIC_READ = ''atomic read''"
| "get_type_str ATOMIC_WRITE = ''atomic write''"
| "get_type_str ATOMIC_RMW = ''atomic rmw''"
| "get_type_str ATOMIC_FENCE = ''fence''"
| "get_type_str ATOMIC_RMWR = ''atomic rmwr''"
| "get_type_str ATOMIC_RMWC = ''atomic rmwc''"
| "get_type_str ATOMIC_INIT = ''init atomic''"
| "get_type_str ATOMIC_LOCK = ''lock''"
| "get_type_str ATOMIC_UNLOCK = ''unlock''"
| "get_type_str ATOMIC_TRYLOCK = ''trylock''"
| "get_type_str ATOMIC_WAIT = ''wait''"
| "get_type_str ATOMIC_NOTIFY_ONE = ''notify one''"
| "get_type_str ATOMIC_NOTIFY_ALL = ''notify all''"
| "get_type_str ATOMIC_ANNOTATION = ''annotation''"

fun get_mo_str :: "memory_order \<Rightarrow> string" where
  "get_mo_str memory_order_relaxed = ''relaxed''"
| "get_mo_str memory_order_acquire = ''acquire''"
| "get_mo_str memory_order_release = ''release''"
| "get_mo_str memory_order_acq_rel = ''acq_rel''"
| "get_mo_str memory_order_seq_cst = ''seq_cst''"
| "get_mo_str (memory_order_other w) = ''unknown''"

section \<open>Examples\<close>

text \<open>An action of thread 1 at an address, for concrete instances of the theorems.\<close>

definition example_action :: "action_type \<Rightarrow> memory_order \<Rightarrow> ModelAction" where
  "example_action type order =
     \<lparr>ma_type = type, ma_order = order, ma_original_order = order, ma_location = 0x100,
      ma_tid = 1, ma_value = 5, ma_reads_from = None, ma_reads_from_promise = None,
      ma_last_fence_release = None, ma_node = None, ma_seq_number = 3,
      ma_cv = None, ma_sleep_flag = False\<rparr>"

end
