(* ===== verification/Promise.thy ===== *)
theory Promise
  imports Action
begin

text \<open>
  \<open>promise.h\<close> and \<open>promise.cc\<close>: a promised future value and the threads that may still
  resolve it. The invariant ties the two counters to the two flag vectors, and says that a thread
  that is available was available; with it \<open>has_failed\<close> means that no thread is left.
\<close>

section \<open>Operations\<close>

definition thread_is_available :: "Promise \<Rightarrow> thread_id_t \<Rightarrow> bool" where
  "thread_is_available p tid =
     (let i = id_to_int tid
      in if i \<ge> length (pr_available_thread p) then False else pr_available_thread p ! i)"

definition thread_was_available :: "Promise \<Rightarrow> thread_id_t \<Rightarrow> bool" where
  "thread_was_available p tid =
     (let i = id_to_int tid
      in if i \<ge> length (pr_was_available_thread p) then False else pr_was_available_thread p ! i)"

definition max_available_thread_idx :: "Promise \<Rightarrow> nat" where
  "max_available_thread_idx p = length (pr_available_thread p)"

definition has_failed :: "Promise \<Rightarrow> bool" where
  "has_failed p \<longleftrightarrow> pr_num_available_threads p = 0"

definition eliminate_thread :: "Promise \<Rightarrow> thread_id_t \<Rightarrow> bool \<times> Promise" where
  "eliminate_thread p tid =
     (let i = id_to_int tid
      in if \<not> thread_is_available p tid then (False, p)
         else let p' = p\<lparr>pr_available_thread := (pr_available_thread p)[i := False],
                         pr_num_available_threads := pr_num_available_threads p - 1\<rparr>
              in (has_failed p', p'))"

text \<open>The two halves of \<open>add_thread\<close>: one per flag vector.\<close>

definition add_thread_available :: "Promise \<Rightarrow> nat \<Rightarrow> Promise" where
  "add_thread_available p i =
     (let av = (if i \<ge> length (pr_available_thread p)
                then resize (pr_available_thread p) (i + 1) False else pr_available_thread p)
      in if \<not> av ! i
         then p\<lparr>pr_available_thread := av[i := True],
                pr_num_available_threads := pr_num_available_threads p + 1\<rparr>
         else p\<lparr>pr_available_thread := av\<rparr>)"

definition add_thread_was_available :: "Promise \<Rightarrow> nat \<Rightarrow> Promise" where
  "add_thread_was_available p i =
     (let av = (if i \<ge> length (pr_was_available_thread p)
                then resize (pr_was_available_thread p) (i + 1) False else pr_was_available_thread p)
      in if \<not> av ! i
         then p\<lparr>pr_was_available_thread := av[i := True],
                pr_num_was_available_threads := pr_num_was_available_threads p + 1\<rparr>
         else p\<lparr>pr_was_available_thread := av\<rparr>)"

definition Promise_add_thread :: "Promise \<Rightarrow> thread_id_t \<Rightarrow> Promise" where
  "Promise_add_thread p tid =
     (let i = id_to_int tid in add_thread_was_available (add_thread_available p i) i)"

definition new_Promise :: "act_ref \<Rightarrow> ModelAction \<Rightarrow> future_value \<Rightarrow> Promise" where
  "new_Promise read_ptr read fv =
     (let p = \<lparr>pr_available_thread = [], pr_was_available_thread = [],
               pr_num_available_threads = 0, pr_num_was_available_threads = 0,
               pr_fv = fv, pr_readers = [read_ptr], pr_write = None\<rparr>
      in snd (eliminate_thread (Promise_add_thread p (fv_tid fv)) (ma_tid read)))"

definition add_reader :: "Promise \<Rightarrow> act_ref \<Rightarrow> ModelAction \<Rightarrow> bool \<times> Promise" where
  "add_reader p reader_ptr reader =
     eliminate_thread (p\<lparr>pr_readers := pr_readers p @ [reader_ptr]\<rparr>) (ma_tid reader)"

definition get_reader :: "Promise \<Rightarrow> nat \<Rightarrow> act_ref option" where
  "get_reader p i = (if i < length (pr_readers p) then Some (pr_readers p ! i) else None)"

text \<open>The first reader is dereferenced: it exists from the constructor on.\<close>

definition same_location :: "act_store \<Rightarrow> Promise \<Rightarrow> ModelAction \<Rightarrow> bool" where
  "same_location acts p act =
     (case get_reader p 0 of Some r \<Rightarrow> same_var (acts r) act | None \<Rightarrow> False)"

definition is_compatible :: "act_store \<Rightarrow> Promise \<Rightarrow> ModelAction \<Rightarrow> bool" where
  "is_compatible acts p act \<longleftrightarrow>
     thread_is_available p (ma_tid act) \<and>
     (case get_reader p 0 of Some r \<Rightarrow> same_var (acts r) act | None \<Rightarrow> False)"

definition is_compatible_exclusive :: "act_store \<Rightarrow> Promise \<Rightarrow> ModelAction \<Rightarrow> bool" where
  "is_compatible_exclusive acts p act \<longleftrightarrow>
     pr_num_available_threads p = 1 \<and> is_compatible acts p act"

definition same_value :: "Promise \<Rightarrow> ModelAction \<Rightarrow> bool option" where
  "same_value p write = do { v \<leftarrow> get_write_value write; Some (fv_value (pr_fv p) = v) }"

section \<open>The invariant\<close>

definition Promise_wf :: "Promise \<Rightarrow> bool" where
  "Promise_wf p \<longleftrightarrow>
     pr_num_available_threads p = int (count_true (pr_available_thread p)) \<and>
     pr_num_was_available_threads p = int (count_true (pr_was_available_thread p)) \<and>
     (\<forall>t. thread_is_available p t \<longrightarrow> thread_was_available p t) \<and>
     pr_readers p \<noteq> []"

lemma thread_is_available_iff:
  "thread_is_available p t \<longleftrightarrow> t < length (pr_available_thread p) \<and> pr_available_thread p ! t"
  by (auto simp: thread_is_available_def id_to_int_def)

lemma thread_was_available_iff:
  "thread_was_available p t \<longleftrightarrow> t < length (pr_was_available_thread p) \<and> pr_was_available_thread p ! t"
  by (auto simp: thread_was_available_def id_to_int_def)

lemma has_failed_iff: "Promise_wf p \<Longrightarrow> has_failed p \<longleftrightarrow> (\<forall>t. \<not> thread_is_available p t)"
  by (auto simp: has_failed_def Promise_wf_def count_true_0_iff thread_is_available_iff)

section \<open>Elimination\<close>

lemma eliminate_thread_available:
  "thread_is_available (snd (eliminate_thread p t)) u \<longleftrightarrow> thread_is_available p u \<and> u \<noteq> t"
  by (auto simp: eliminate_thread_def thread_is_available_iff Let_def nth_list_update id_to_int_def)

lemma eliminate_thread_was_available [simp]:
  "thread_was_available (snd (eliminate_thread p t)) u = thread_was_available p u"
  by (simp add: eliminate_thread_def thread_was_available_iff Let_def)

lemma eliminate_thread_readers [simp]: "pr_readers (snd (eliminate_thread p t)) = pr_readers p"
  by (simp add: eliminate_thread_def Let_def)

lemma eliminate_thread_fv [simp]: "pr_fv (snd (eliminate_thread p t)) = pr_fv p"
  by (simp add: eliminate_thread_def Let_def)

lemma eliminate_thread_wf:
  assumes "Promise_wf p"
  shows "Promise_wf (snd (eliminate_thread p t))"
proof (cases "thread_is_available p t")
  case True
  then have "t < length (pr_available_thread p)" "pr_available_thread p ! t"
    by (simp_all add: thread_is_available_iff)
  then have "Suc (count_true ((pr_available_thread p)[t := False])) = count_true (pr_available_thread p)"
    by (rule count_true_clear)
  moreover have "thread_was_available (snd (eliminate_thread p t)) u"
    if "thread_is_available (snd (eliminate_thread p t)) u" for u
    using that assms by (auto simp: eliminate_thread_available Promise_wf_def)
  ultimately show ?thesis
    using True assms by (auto simp: eliminate_thread_def Promise_wf_def Let_def id_to_int_def)
next
  case False
  with assms show ?thesis by (simp add: eliminate_thread_def)
qed

text \<open>The return value: the elimination has taken the last thread that was left.\<close>

lemma eliminate_thread_result:
  assumes "Promise_wf p"
  shows "fst (eliminate_thread p t) \<longleftrightarrow>
           thread_is_available p t \<and> (\<forall>u. thread_is_available p u \<longrightarrow> u = t)"
proof (cases "thread_is_available p t")
  case True
  then have "fst (eliminate_thread p t) = has_failed (snd (eliminate_thread p t))"
    by (simp add: eliminate_thread_def Let_def)
  also have "\<dots> \<longleftrightarrow> (\<forall>u. thread_is_available p u \<longrightarrow> u = t)"
    using has_failed_iff [OF eliminate_thread_wf [OF assms]]
    by (auto simp: eliminate_thread_available)
  finally show ?thesis using True by simp
next
  case False
  then show ?thesis by (simp add: eliminate_thread_def)
qed

section \<open>Addition\<close>

lemma flags_after_set:
  fixes bs :: "bool list"
  assumes "bs' = (if i \<ge> length bs then resize bs (i + 1) False else bs)"
  shows "i < length bs'" and "count_true bs' = count_true bs"
    and "(t < length bs' \<and> bs' ! t) \<longleftrightarrow> (t < length bs \<and> bs ! t)"
  using assms by (auto simp: count_true_resize nth_resize split: if_splits)

lemma add_thread_available_available:
  "thread_is_available (add_thread_available p i) u \<longleftrightarrow> thread_is_available p u \<or> u = i"
proof -
  define av where "av = (if i \<ge> length (pr_available_thread p)
                then resize (pr_available_thread p) (i + 1) False else pr_available_thread p)"
  note av = flags_after_set [OF av_def]
  have "thread_is_available (add_thread_available p i) u \<longleftrightarrow>
          (u < length av \<and> (u = i \<or> av ! u))"
    using av(1) by (auto simp: add_thread_available_def av_def [symmetric] Let_def
        thread_is_available_iff nth_list_update split: if_splits)
  also have "\<dots> \<longleftrightarrow> thread_is_available p u \<or> u = i"
    using av(1) av(3) [of u] by (auto simp: thread_is_available_iff)
  finally show ?thesis .
qed

lemma add_thread_was_available_was_available:
  "thread_was_available (add_thread_was_available p i) u \<longleftrightarrow> thread_was_available p u \<or> u = i"
proof -
  define av where "av = (if i \<ge> length (pr_was_available_thread p)
                then resize (pr_was_available_thread p) (i + 1) False else pr_was_available_thread p)"
  note av = flags_after_set [OF av_def]
  have "thread_was_available (add_thread_was_available p i) u \<longleftrightarrow>
          (u < length av \<and> (u = i \<or> av ! u))"
    using av(1) by (auto simp: add_thread_was_available_def av_def [symmetric] Let_def
        thread_was_available_iff nth_list_update split: if_splits)
  also have "\<dots> \<longleftrightarrow> thread_was_available p u \<or> u = i"
    using av(1) av(3) [of u] by (auto simp: thread_was_available_iff)
  finally show ?thesis .
qed

lemma add_thread_available_count:
  assumes "pr_num_available_threads p = int (count_true (pr_available_thread p))"
  shows "pr_num_available_threads (add_thread_available p i) =
           int (count_true (pr_available_thread (add_thread_available p i)))"
proof -
  define av where "av = (if i \<ge> length (pr_available_thread p)
                then resize (pr_available_thread p) (i + 1) False else pr_available_thread p)"
  note av = flags_after_set [OF av_def]
  show ?thesis
    using assms av(1,2) by (simp add: add_thread_available_def av_def [symmetric] Let_def count_true_set)
qed

lemma add_thread_was_available_count:
  assumes "pr_num_was_available_threads p = int (count_true (pr_was_available_thread p))"
  shows "pr_num_was_available_threads (add_thread_was_available p i) =
           int (count_true (pr_was_available_thread (add_thread_was_available p i)))"
proof -
  define av where "av = (if i \<ge> length (pr_was_available_thread p)
                then resize (pr_was_available_thread p) (i + 1) False else pr_was_available_thread p)"
  note av = flags_after_set [OF av_def]
  show ?thesis
    using assms av(1,2) by (simp add: add_thread_was_available_def av_def [symmetric] Let_def count_true_set)
qed

lemma add_thread_frames [simp]:
  "thread_was_available (add_thread_available p i) u = thread_was_available p u"
  "thread_is_available (add_thread_was_available p i) u = thread_is_available p u"
  "pr_num_was_available_threads (add_thread_available p i) = pr_num_was_available_threads p"
  "pr_was_available_thread (add_thread_available p i) = pr_was_available_thread p"
  "pr_num_available_threads (add_thread_was_available p i) = pr_num_available_threads p"
  "pr_available_thread (add_thread_was_available p i) = pr_available_thread p"
  "pr_readers (add_thread_available p i) = pr_readers p"
  "pr_readers (add_thread_was_available p i) = pr_readers p"
  "pr_fv (add_thread_available p i) = pr_fv p"
  "pr_fv (add_thread_was_available p i) = pr_fv p"
  by (simp_all add: add_thread_available_def add_thread_was_available_def Let_def
      thread_was_available_iff thread_is_available_iff)

lemma Promise_add_thread_available:
  "thread_is_available (Promise_add_thread p t) u \<longleftrightarrow> thread_is_available p u \<or> u = t"
  by (simp add: Promise_add_thread_def id_to_int_def add_thread_available_available)

lemma Promise_add_thread_was_available:
  "thread_was_available (Promise_add_thread p t) u \<longleftrightarrow> thread_was_available p u \<or> u = t"
  by (simp add: Promise_add_thread_def id_to_int_def add_thread_was_available_was_available)

lemma Promise_add_thread_wf: "Promise_wf p \<Longrightarrow> Promise_wf (Promise_add_thread p t)"
  using Promise_add_thread_available [of p t] Promise_add_thread_was_available [of p t]
  by (auto simp: Promise_wf_def Promise_add_thread_def Let_def
      add_thread_available_count add_thread_was_available_count)

lemma add_reader_wf: "Promise_wf p \<Longrightarrow> Promise_wf (snd (add_reader p r a))"
  unfolding add_reader_def
  by (rule eliminate_thread_wf) (simp add: Promise_wf_def thread_is_available_iff thread_was_available_iff)

lemma add_reader_available:
  "thread_is_available (snd (add_reader p r a)) u \<longleftrightarrow> thread_is_available p u \<and> u \<noteq> ma_tid a"
  by (simp add: add_reader_def eliminate_thread_available) (simp add: thread_is_available_iff)

lemma new_Promise_wf: "Promise_wf (new_Promise r a fv)"
  unfolding new_Promise_def Let_def
  by (intro eliminate_thread_wf Promise_add_thread_wf)
    (simp add: Promise_wf_def thread_is_available_iff thread_was_available_iff)

lemma new_Promise_available:
  "thread_is_available (new_Promise r a fv) u \<longleftrightarrow> u = fv_tid fv \<and> u \<noteq> ma_tid a"
  by (simp add: new_Promise_def Let_def eliminate_thread_available Promise_add_thread_available)
    (simp add: thread_is_available_iff)

lemma new_Promise_failed: "has_failed (new_Promise r a fv) \<longleftrightarrow> fv_tid fv = ma_tid a"
  using has_failed_iff [OF new_Promise_wf [of r a fv]] by (auto simp: new_Promise_available)

lemmas promise_laws =
  eliminate_thread_wf Promise_add_thread_wf add_reader_wf new_Promise_wf

lemmas promise_available =
  eliminate_thread_available Promise_add_thread_available add_reader_available new_Promise_available

end
