(* ===== verification/CycleGraph.thy ===== *)
theory CycleGraph
  imports Promise
begin

text \<open>
  \<open>cyclegraph.h\<close> and \<open>cyclegraph.cc\<close>: the graph of modification-order constraints. Nodes
  live in a heap indexed by references; a node stands for a store or for a promised value, has its
  outgoing and incoming edges as vectors, and points to the read-modify-write that reads from it.
  \<open>addNodeEdge\<close> keeps the flag \<open>hasCycles\<close> up to date with a graph search after every
  insertion; the additions since the last commit can be rolled back. The hash tables from actions
  and promises to nodes are maps here; an entry overwritten with \<open>NULL\<close> is an absent one.
  The dumping code under \<open>SUPPORT_MOD_ORDER_DUMP\<close> (0 in \<open>config.h\<close>) is left out.
\<close>

section \<open>Nodes\<close>

type_synonym cnode = nat

record CycleNode =
  cn_action :: "act_ref option"
  cn_promise :: "promise_ref option"
  cn_edges :: "cnode list"
  cn_back_edges :: "cnode list"
  cn_hasRMW :: "cnode option"

type_synonym cheap = "cnode \<Rightarrow> CycleNode"

definition new_CycleNode_action :: "act_ref \<Rightarrow> CycleNode" where
  "new_CycleNode_action act =
     \<lparr>cn_action = Some act, cn_promise = None, cn_edges = [], cn_back_edges = [], cn_hasRMW = None\<rparr>"

definition new_CycleNode_promise :: "promise_ref \<Rightarrow> CycleNode" where
  "new_CycleNode_promise promise =
     \<lparr>cn_action = None, cn_promise = Some promise, cn_edges = [], cn_back_edges = [], cn_hasRMW = None\<rparr>"

definition is_promise :: "CycleNode \<Rightarrow> bool" where
  "is_promise n \<longleftrightarrow> cn_action n = None"

text \<open>\<open>vector_remove_node\<close> erases the first occurrence and says whether there was one.\<close>

fun vector_remove_node :: "'a list \<Rightarrow> 'a \<Rightarrow> bool \<times> 'a list" where
  "vector_remove_node [] n = (False, [])"
| "vector_remove_node (x # xs) n =
     (if x = n then (True, xs)
      else let (found, ys) = vector_remove_node xs n in (found, x # ys))"

definition CycleNode_addEdge :: "cheap \<Rightarrow> cnode \<Rightarrow> cnode \<Rightarrow> bool \<times> cheap" where
  "CycleNode_addEdge h this node =
     (if node \<in> set (cn_edges (h this)) then (False, h)
      else let h1 = h(this := (h this)\<lparr>cn_edges := cn_edges (h this) @ [node]\<rparr>);
               h2 = h1(node := (h1 node)\<lparr>cn_back_edges := cn_back_edges (h1 node) @ [this]\<rparr>)
           in (True, h2))"

definition CycleNode_removeEdge :: "cheap \<Rightarrow> cnode \<Rightarrow> cnode option \<times> cheap" where
  "CycleNode_removeEdge h this =
     (if cn_edges (h this) = [] then (None, h)
      else let ret = last (cn_edges (h this));
               h1 = h(this := (h this)\<lparr>cn_edges := butlast (cn_edges (h this))\<rparr>);
               h2 = h1(ret := (h1 ret)\<lparr>cn_back_edges :=
                                 snd (vector_remove_node (cn_back_edges (h1 ret)) this)\<rparr>)
           in (Some ret, h2))"

definition CycleNode_removeBackEdge :: "cheap \<Rightarrow> cnode \<Rightarrow> cnode option \<times> cheap" where
  "CycleNode_removeBackEdge h this =
     (if cn_back_edges (h this) = [] then (None, h)
      else let ret = last (cn_back_edges (h this));
               h1 = h(this := (h this)\<lparr>cn_back_edges := butlast (cn_back_edges (h this))\<rparr>);
               h2 = h1(ret := (h1 ret)\<lparr>cn_edges :=
                                 snd (vector_remove_node (cn_edges (h1 ret)) this)\<rparr>)
           in (Some ret, h2))"

definition CycleNode_setRMW :: "cheap \<Rightarrow> cnode \<Rightarrow> cnode \<Rightarrow> bool \<times> cheap" where
  "CycleNode_setRMW h this node =
     (if cn_hasRMW (h this) \<noteq> None then (True, h)
      else (False, h(this := (h this)\<lparr>cn_hasRMW := Some node\<rparr>)))"

definition CycleNode_clearRMW :: "cheap \<Rightarrow> cnode \<Rightarrow> cheap" where
  "CycleNode_clearRMW h this = h(this := (h this)\<lparr>cn_hasRMW := None\<rparr>)"

definition CycleNode_resolvePromise ::
    "act_store \<Rightarrow> promise_store \<Rightarrow> cheap \<Rightarrow> cnode \<Rightarrow> act_ref \<Rightarrow> cheap option" where
  "CycleNode_resolvePromise acts proms h this writer = do {
     ASSERT (is_promise (h this));
     p \<leftarrow> cn_promise (h this);
     ASSERT (is_compatible acts (proms p) (acts writer));
     let n = (h this)\<lparr>cn_action := Some writer, cn_promise := None\<rparr>;
     ASSERT (\<not> is_promise n);
     Some (h(this := n))
   }"

section \<open>The graph\<close>

record CycleGraph =
  cg_heap :: cheap
  cg_next :: cnode
  cg_actionToNode :: "act_ref \<rightharpoonup> cnode"
  cg_promiseToNode :: "promise_ref \<rightharpoonup> cnode"
  cg_hasCycles :: bool
  cg_oldCycles :: bool
  cg_rollbackvector :: "cnode list"
  cg_rmwrollbackvector :: "cnode list"

definition blank_CycleNode :: CycleNode where
  "blank_CycleNode =
     \<lparr>cn_action = None, cn_promise = None, cn_edges = [], cn_back_edges = [], cn_hasRMW = None\<rparr>"

definition new_CycleGraph :: CycleGraph where
  "new_CycleGraph =
     \<lparr>cg_heap = (\<lambda>_. blank_CycleNode), cg_next = 0,
      cg_actionToNode = Map.empty, cg_promiseToNode = Map.empty,
      cg_hasCycles = False, cg_oldCycles = False,
      cg_rollbackvector = [], cg_rmwrollbackvector = []\<rparr>"

text \<open>\<open>new CycleNode(...)\<close>: the next free reference.\<close>

definition alloc_CycleNode :: "CycleGraph \<Rightarrow> CycleNode \<Rightarrow> cnode \<times> CycleGraph" where
  "alloc_CycleNode g n =
     (cg_next g, g\<lparr>cg_heap := (cg_heap g)(cg_next g := n), cg_next := Suc (cg_next g)\<rparr>)"

definition putNode_action :: "CycleGraph \<Rightarrow> act_ref \<Rightarrow> cnode \<Rightarrow> CycleGraph" where
  "putNode_action g act node = g\<lparr>cg_actionToNode := (cg_actionToNode g)(act \<mapsto> node)\<rparr>"

definition putNode_promise :: "CycleGraph \<Rightarrow> promise_ref \<Rightarrow> cnode \<Rightarrow> CycleGraph" where
  "putNode_promise g promise node = g\<lparr>cg_promiseToNode := (cg_promiseToNode g)(promise \<mapsto> node)\<rparr>"

definition erasePromiseNode :: "CycleGraph \<Rightarrow> promise_ref \<Rightarrow> CycleGraph" where
  "erasePromiseNode g promise = g\<lparr>cg_promiseToNode := (cg_promiseToNode g)(promise := None)\<rparr>"

definition getNode_action :: "CycleGraph \<Rightarrow> act_ref \<Rightarrow> cnode \<times> CycleGraph" where
  "getNode_action g action =
     (case cg_actionToNode g action of
        Some node \<Rightarrow> (node, g)
      | None \<Rightarrow> let (node, g1) = alloc_CycleNode g (new_CycleNode_action action)
                in (node, putNode_action g1 action node))"

definition getNode_promise :: "CycleGraph \<Rightarrow> promise_ref \<Rightarrow> cnode \<times> CycleGraph" where
  "getNode_promise g promise =
     (case cg_promiseToNode g promise of
        Some node \<Rightarrow> (node, g)
      | None \<Rightarrow> let (node, g1) = alloc_CycleNode g (new_CycleNode_promise promise)
                in (node, putNode_promise g1 promise node))"

text \<open>
  The templates \<open>addEdge\<close>, \<open>addRMWEdge\<close> and \<open>checkReachable\<close> are instantiated at
  actions and promises: an endpoint is one of the two.
\<close>

datatype mo_obj = MoAction act_ref | MoPromise promise_ref

fun getNode :: "CycleGraph \<Rightarrow> mo_obj \<Rightarrow> cnode \<times> CycleGraph" where
  "getNode g (MoAction a) = getNode_action g a"
| "getNode g (MoPromise p) = getNode_promise g p"

fun getNode_noCreate :: "CycleGraph \<Rightarrow> mo_obj \<Rightarrow> cnode option" where
  "getNode_noCreate g (MoAction a) = cg_actionToNode g a"
| "getNode_noCreate g (MoPromise p) = cg_promiseToNode g p"

section \<open>Search\<close>

text \<open>
  The body of the search loops: every successor that is not in \<open>discovered\<close> is recorded and
  pushed on \<open>queue\<close>, which is used as a stack (\<open>back\<close> and \<open>pop_back\<close>).
\<close>

definition discover :: "cnode list \<Rightarrow> cnode list \<times> cnode set \<Rightarrow> cnode list \<times> cnode set" where
  "discover nexts st =
     fold (\<lambda>next (queue, discovered).
             if next \<in> discovered then (queue, discovered)
             else (queue @ [next], insert next discovered))
          nexts st"

partial_function (option) reach_loop ::
    "cheap \<Rightarrow> cnode \<Rightarrow> cnode list \<Rightarrow> cnode set \<Rightarrow> bool option" where
  "reach_loop h to queue discovered =
     (if queue = [] then Some False
      else let node = last queue
           in if node = to then Some True
              else let st = discover (cn_edges (h node)) (butlast queue, discovered)
                   in reach_loop h to (fst st) (snd st))"

declare reach_loop.simps [code]

definition checkReachable_node :: "CycleGraph \<Rightarrow> cnode \<Rightarrow> cnode \<Rightarrow> bool option" where
  "checkReachable_node g from to = reach_loop (cg_heap g) to [from] {from}"

definition checkReachable :: "CycleGraph \<Rightarrow> mo_obj \<Rightarrow> mo_obj \<Rightarrow> bool option" where
  "checkReachable g from to =
     (case (getNode_noCreate g from, getNode_noCreate g to) of
        (Some fromnode, Some tonode) \<Rightarrow> checkReachable_node g fromnode tonode
      | _ \<Rightarrow> Some False)"

partial_function (option) promise_loop ::
    "act_store \<Rightarrow> cheap \<Rightarrow> promise_ref \<Rightarrow> cnode list \<Rightarrow> cnode set \<Rightarrow> Promise \<Rightarrow>
     (bool \<times> Promise) option" where
  "promise_loop acts h promise queue discovered pr =
     (if queue = [] then Some (False, pr)
      else let node = last queue
           in if cn_promise (h node) = Some promise then Some (True, pr)
              else let pr' = (case cn_action (h node) of
                                Some a \<Rightarrow> snd (eliminate_thread pr (ma_tid (acts a)))
                              | None \<Rightarrow> pr);
                       st = discover (cn_edges (h node)) (butlast queue, discovered)
                   in promise_loop acts h promise (fst st) (snd st) pr')"

declare promise_loop.simps [code]

text \<open>
  The start node is dereferenced without a check; the search works on the promise object, which
  it changes.
\<close>

definition checkPromise ::
    "act_store \<Rightarrow> CycleGraph \<Rightarrow> act_ref \<Rightarrow> promise_ref \<Rightarrow> Promise \<Rightarrow> (bool \<times> Promise) option" where
  "checkPromise acts g fromact promise pr = do {
     from \<leftarrow> cg_actionToNode g fromact;
     promise_loop acts (cg_heap g) promise [from] {from} pr
   }"

section \<open>Insertion\<close>

text \<open>The loop that follows the chain of read-modify-writes, unless it meets \<open>tonode\<close>.\<close>

partial_function (option) rmw_chain_end :: "cheap \<Rightarrow> cnode \<Rightarrow> cnode \<Rightarrow> cnode option" where
  "rmw_chain_end h tonode rmwnode =
     (if rmwnode = tonode then Some rmwnode
      else case cn_hasRMW (h rmwnode) of
             None \<Rightarrow> Some rmwnode
           | Some r \<Rightarrow> rmw_chain_end h tonode r)"

declare rmw_chain_end.simps [code]

text \<open>\<open>if (!hasCycles) hasCycles = checkReachable(...)\<close>\<close>

definition update_hasCycles :: "CycleGraph \<Rightarrow> cnode \<Rightarrow> cnode \<Rightarrow> CycleGraph option" where
  "update_hasCycles g from to =
     (if cg_hasCycles g then Some g
      else do { c \<leftarrow> checkReachable_node g from to; Some (g\<lparr>cg_hasCycles := c\<rparr>) })"

definition addNodeEdge :: "CycleGraph \<Rightarrow> cnode \<Rightarrow> cnode \<Rightarrow> (bool \<times> CycleGraph) option" where
  "addNodeEdge g fromnode tonode =
     (case CycleNode_addEdge (cg_heap g) fromnode tonode of
        (False, _) \<Rightarrow> Some (False, g)
      | (True, h) \<Rightarrow> do {
          g1 \<leftarrow> update_hasCycles
                 (g\<lparr>cg_heap := h, cg_rollbackvector := cg_rollbackvector g @ [fromnode]\<rparr>)
                 tonode fromnode;
          (case cn_hasRMW (cg_heap g1 fromnode) of
             None \<Rightarrow> Some (True, g1)
           | Some r \<Rightarrow> do {
               rmwnode \<leftarrow> rmw_chain_end (cg_heap g1) tonode r;
               if rmwnode \<noteq> tonode
               then (case CycleNode_addEdge (cg_heap g1) rmwnode tonode of
                       (False, _) \<Rightarrow> Some (True, g1)
                     | (True, h2) \<Rightarrow> do {
                         g2 \<leftarrow> update_hasCycles (g1\<lparr>cg_heap := h2\<rparr>) tonode rmwnode;
                         Some (True, g2\<lparr>cg_rollbackvector := cg_rollbackvector g2 @ [rmwnode]\<rparr>)
                       })
               else Some (True, g1)
             })
        })"

definition CycleGraph_addEdge :: "CycleGraph \<Rightarrow> mo_obj \<Rightarrow> mo_obj \<Rightarrow> (bool \<times> CycleGraph) option" where
  "CycleGraph_addEdge g from to =
     (let (fromnode, g1) = getNode g from;
          (tonode, g2) = getNode g1 to
      in addNodeEdge g2 fromnode tonode)"

text \<open>One step of the transfer of the outgoing edges of \<open>fromnode\<close> to \<open>rmwnode\<close>.\<close>

definition transfer_edge :: "cnode \<Rightarrow> cnode \<Rightarrow> CycleGraph \<Rightarrow> CycleGraph" where
  "transfer_edge rmwnode tonode g =
     (if tonode \<noteq> rmwnode
      then (case CycleNode_addEdge (cg_heap g) rmwnode tonode of
              (True, h) \<Rightarrow> g\<lparr>cg_heap := h, cg_rollbackvector := cg_rollbackvector g @ [rmwnode]\<rparr>
            | (False, _) \<Rightarrow> g)
      else g)"

definition addRMWEdge_node :: "CycleGraph \<Rightarrow> cnode \<Rightarrow> cnode \<Rightarrow> CycleGraph option" where
  "addRMWEdge_node g fromnode rmwnode = do {
     ASSERT (cn_hasRMW (cg_heap g rmwnode) = None);
     let g1 = (case CycleNode_setRMW (cg_heap g) fromnode rmwnode of
                 (True, _) \<Rightarrow> g\<lparr>cg_hasCycles := True\<rparr>
               | (False, h) \<Rightarrow> g\<lparr>cg_heap := h,
                                 cg_rmwrollbackvector := cg_rmwrollbackvector g @ [fromnode]\<rparr>);
     let g2 = fold (transfer_edge rmwnode) (cn_edges (cg_heap g1 fromnode)) g1;
     (_, g3) \<leftarrow> addNodeEdge g2 fromnode rmwnode;
     Some g3
   }"

definition addRMWEdge :: "CycleGraph \<Rightarrow> mo_obj \<Rightarrow> act_ref \<Rightarrow> CycleGraph option" where
  "addRMWEdge g from rmw =
     (let (fromnode, g1) = getNode g from;
          (rmwnode, g2) = getNode_action g1 rmw
      in addRMWEdge_node g2 fromnode rmwnode)"

section \<open>Changes that can be rolled back\<close>

definition startChanges :: "CycleGraph \<Rightarrow> CycleGraph option" where
  "startChanges g = do {
     ASSERT (cg_rollbackvector g = []);
     ASSERT (cg_rmwrollbackvector g = []);
     ASSERT (cg_oldCycles g = cg_hasCycles g);
     Some g
   }"

definition commitChanges :: "CycleGraph \<Rightarrow> CycleGraph" where
  "commitChanges g =
     g\<lparr>cg_rollbackvector := [], cg_rmwrollbackvector := [], cg_oldCycles := cg_hasCycles g\<rparr>"

definition rollbackChanges :: "CycleGraph \<Rightarrow> CycleGraph" where
  "rollbackChanges g =
     (let h1 = fold (\<lambda>n h. snd (CycleNode_removeEdge h n)) (cg_rollbackvector g) (cg_heap g);
          h2 = fold (\<lambda>n h. CycleNode_clearRMW h n) (cg_rmwrollbackvector g) h1
      in g\<lparr>cg_heap := h2, cg_hasCycles := cg_oldCycles g,
           cg_rollbackvector := [], cg_rmwrollbackvector := []\<rparr>)"

definition checkForCycles :: "CycleGraph \<Rightarrow> bool" where
  "checkForCycles g = cg_hasCycles g"

section \<open>Resolving promises\<close>

partial_function (option) merge_back_edges ::
    "CycleGraph \<Rightarrow> cnode \<Rightarrow> cnode \<Rightarrow> (bool \<times> CycleGraph) option" where
  "merge_back_edges g w_node p_node =
     (case CycleNode_removeBackEdge (cg_heap g) p_node of
        (None, _) \<Rightarrow> Some (True, g)
      | (Some back, h) \<Rightarrow>
          let g1 = g\<lparr>cg_heap := h\<rparr>
          in if back = w_node then merge_back_edges g1 w_node p_node
             else Option.bind (addNodeEdge g1 back w_node) (\<lambda>r.
                    if cg_hasCycles (snd r) then Some (False, snd r)
                    else merge_back_edges (snd r) w_node p_node))"

declare merge_back_edges.simps [code]

partial_function (option) merge_forward_edges ::
    "CycleGraph \<Rightarrow> cnode \<Rightarrow> cnode \<Rightarrow> (bool \<times> CycleGraph) option" where
  "merge_forward_edges g w_node p_node =
     (case CycleNode_removeEdge (cg_heap g) p_node of
        (None, _) \<Rightarrow> Some (True, g)
      | (Some forward, h) \<Rightarrow>
          let g1 = g\<lparr>cg_heap := h\<rparr>
          in if forward = w_node then merge_forward_edges g1 w_node p_node
             else Option.bind (addNodeEdge g1 w_node forward) (\<lambda>r.
                    if cg_hasCycles (snd r) then Some (False, snd r)
                    else merge_forward_edges (snd r) w_node p_node))"

declare merge_forward_edges.simps [code]

text \<open>The transfer of the read-modify-write: \<open>None\<close> where the merge fails.\<close>

definition merge_rmw :: "cheap \<Rightarrow> cnode \<Rightarrow> cnode \<Rightarrow> cheap option" where
  "merge_rmw h w_node p_node =
     (case cn_hasRMW (h p_node) of
        None \<Rightarrow> Some h
      | Some r \<Rightarrow>
          if Some r \<noteq> cn_hasRMW (h w_node)
          then (case CycleNode_setRMW h w_node r of (True, _) \<Rightarrow> None | (False, h') \<Rightarrow> Some h')
          else Some h)"

definition mergeNodes ::
    "act_store \<Rightarrow> promise_store \<Rightarrow> CycleGraph \<Rightarrow> cnode \<Rightarrow> cnode \<Rightarrow> (bool \<times> CycleGraph) option" where
  "mergeNodes acts proms g w_node p_node = do {
     ASSERT (\<not> is_promise (cg_heap g w_node));
     ASSERT (is_promise (cg_heap g p_node));
     promise \<leftarrow> cn_promise (cg_heap g p_node);
     w \<leftarrow> cn_action (cg_heap g w_node);
     same \<leftarrow> (if is_compatible acts (proms promise) (acts w)
              then same_value (proms promise) (acts w) else Some False);
     if \<not> same then Some (False, g)
     else (case merge_rmw (cg_heap g) w_node p_node of
             None \<Rightarrow> Some (False, g)
           | Some h \<Rightarrow> do {
               (ok, g1) \<leftarrow> merge_back_edges (g\<lparr>cg_heap := h\<rparr>) w_node p_node;
               if \<not> ok then Some (False, g1)
               else do {
                 (ok2, g2) \<leftarrow> merge_forward_edges g1 w_node p_node;
                 if \<not> ok2 then Some (False, g2)
                 else let g3 = erasePromiseNode g2 promise in Some (\<not> cg_hasCycles g3, g3)
               }
             })
   }"

text \<open>
  Where the store has no node yet the promise node becomes the node of the store. The node's
  \<open>promise\<close> field is read again after \<open>CycleNode::resolvePromise\<close> has run, and
  \<open>erasePromiseNode\<close> passes it on to \<open>HashTable::put\<close>, whose \<open>ASSERT(key)\<close>
  refuses a null key: a null field ends the process.
\<close>

definition CycleGraph_resolvePromise ::
    "act_store \<Rightarrow> promise_store \<Rightarrow> CycleGraph \<Rightarrow> promise_ref \<Rightarrow> act_ref \<Rightarrow>
     (bool \<times> CycleGraph) option" where
  "CycleGraph_resolvePromise acts proms g promise writer = do {
     promise_node \<leftarrow> cg_promiseToNode g promise;
     (case cg_actionToNode g writer of
        Some w_node \<Rightarrow> mergeNodes acts proms g w_node promise_node
      | None \<Rightarrow> do {
          h \<leftarrow> CycleNode_resolvePromise acts proms (cg_heap g) promise_node writer;
          p \<leftarrow> cn_promise (h promise_node);
          Some (True, putNode_action
                        (erasePromiseNode (g\<lparr>cg_heap := h\<rparr>) p)
                        writer promise_node)
        })
   }"

end
