(* ===== verification/CycleSearch.thy ===== *)
theory CycleSearch
  imports CycleGraph
begin

text \<open>
  The graph search of \<open>CycleGraph\<close>: on a well-formed graph the loops of \<open>checkReachable\<close>
  and \<open>checkPromise\<close> return, and decide reachability along the edges. With it the flag
  \<open>hasCycles\<close> that \<open>addNodeEdge\<close> maintains is exact.
\<close>

section \<open>The relation of a graph and its invariant\<close>

definition edge_rel :: "cheap \<Rightarrow> (cnode \<times> cnode) set" where
  "edge_rel h = {(n, m). m \<in> set (cn_edges (h n))}"

definition rmw_rel :: "cheap \<Rightarrow> (cnode \<times> cnode) set" where
  "rmw_rel h = {(n, r). cn_hasRMW (h n) = Some r}"

abbreviation cg_rel :: "CycleGraph \<Rightarrow> (cnode \<times> cnode) set" where
  "cg_rel g \<equiv> edge_rel (cg_heap g)"

definition heap_wf :: "cheap \<Rightarrow> cnode \<Rightarrow> bool" where
  "heap_wf h k \<longleftrightarrow>
     (\<forall>n\<ge>k. h n = blank_CycleNode) \<and>
     (\<forall>n m. m \<in> set (cn_edges (h n)) \<longleftrightarrow> n \<in> set (cn_back_edges (h m))) \<and>
     (\<forall>n. distinct (cn_edges (h n)) \<and> distinct (cn_back_edges (h n))) \<and>
     (\<forall>n. set (cn_edges (h n)) \<subseteq> {..<k}) \<and>
     rmw_rel h \<subseteq> {..<k} \<times> {..<k} \<and>
     acyclic (rmw_rel h)"

definition cg_wf :: "CycleGraph \<Rightarrow> bool" where
  "cg_wf g \<longleftrightarrow>
     heap_wf (cg_heap g) (cg_next g) \<and>
     (\<forall>a n. cg_actionToNode g a = Some n \<longrightarrow> n < cg_next g \<and> cn_action (cg_heap g n) = Some a) \<and>
     (\<forall>p n. cg_promiseToNode g p = Some n \<longrightarrow>
        n < cg_next g \<and> cn_promise (cg_heap g n) = Some p \<and> cn_action (cg_heap g n) = None)"

lemma edge_rel_iff [simp]: "(n, m) \<in> edge_rel h \<longleftrightarrow> m \<in> set (cn_edges (h n))"
  by (simp add: edge_rel_def)

lemma rmw_rel_iff [simp]: "(n, r) \<in> rmw_rel h \<longleftrightarrow> cn_hasRMW (h n) = Some r"
  by (simp add: rmw_rel_def)

lemma blank_simps [simp]:
  "cn_edges blank_CycleNode = []" "cn_back_edges blank_CycleNode = []"
  "cn_hasRMW blank_CycleNode = None" "cn_action blank_CycleNode = None"
  "cn_promise blank_CycleNode = None"
  by (simp_all add: blank_CycleNode_def)

lemma heap_wf_blank: "heap_wf h k \<Longrightarrow> k \<le> n \<Longrightarrow> h n = blank_CycleNode"
  by (simp add: heap_wf_def)

lemma heap_wf_mirror: "heap_wf h k \<Longrightarrow> m \<in> set (cn_edges (h n)) \<longleftrightarrow> n \<in> set (cn_back_edges (h m))"
  by (simp add: heap_wf_def)

lemma heap_wf_rmw:
  "heap_wf h k \<Longrightarrow> rmw_rel h \<subseteq> {..<k} \<times> {..<k}" "heap_wf h k \<Longrightarrow> acyclic (rmw_rel h)"
  unfolding heap_wf_def by blast+

lemma heap_wf_distinct:
  "heap_wf h k \<Longrightarrow> distinct (cn_edges (h n))" "heap_wf h k \<Longrightarrow> distinct (cn_back_edges (h n))"
  unfolding heap_wf_def by blast+

lemma heap_wf_edge_bound:
  assumes "heap_wf h k" "m \<in> set (cn_edges (h n))"
  shows "m < k" and "n < k"
proof -
  have "set (cn_edges (h n)) \<subseteq> {..<k}" using assms(1) unfolding heap_wf_def by blast
  with assms(2) show "m < k" by blast
  show "n < k"
  proof (rule ccontr)
    assume "\<not> n < k"
    with assms(1) have "h n = blank_CycleNode" by (simp add: heap_wf_def)
    with assms(2) show False by simp
  qed
qed

lemma edge_rel_finite: "heap_wf h k \<Longrightarrow> finite (edge_rel h)"
proof -
  assume wf: "heap_wf h k"
  have "edge_rel h \<subseteq> {..<k} \<times> {..<k}"
    using heap_wf_edge_bound [OF wf] by (auto simp: edge_rel_def)
  then show ?thesis by (rule finite_subset) simp
qed

section \<open>Searching\<close>

lemma discover_spec:
  "\<exists>new. discover nexts (q, d) = (q @ new, d \<union> set nexts) \<and> set new = set nexts - d \<and> distinct new"
proof (induction nexts arbitrary: q d)
  case Nil
  then show ?case by (simp add: discover_def)
next
  case (Cons x nexts)
  show ?case
  proof (cases "x \<in> d")
    case True
    then have eq: "discover (x # nexts) (q, d) = discover nexts (q, d)"
      by (simp add: discover_def)
    from Cons.IH [of q d] obtain new
      where "discover nexts (q, d) = (q @ new, d \<union> set nexts)" "set new = set nexts - d" "distinct new"
      by blast
    with eq True show ?thesis by (intro exI [of _ new]) auto
  next
    case False
    then have eq: "discover (x # nexts) (q, d) = discover nexts (q @ [x], insert x d)"
      by (simp add: discover_def)
    from Cons.IH [of "q @ [x]" "insert x d"] obtain new
      where "discover nexts (q @ [x], insert x d) = ((q @ [x]) @ new, insert x d \<union> set nexts)"
        "set new = set nexts - insert x d" "distinct new"
      by blast
    with eq False show ?thesis by (intro exI [of _ "x # new"]) auto
  qed
qed

text \<open>
  The state of a search from \<open>from\<close>: the discovered nodes are reachable and include the stack,
  and what has been taken off the stack has all its successors discovered.
\<close>

definition search_inv ::
    "cheap \<Rightarrow> cnode set \<Rightarrow> cnode \<Rightarrow> (cnode \<Rightarrow> bool) \<Rightarrow> cnode list \<Rightarrow> cnode set \<Rightarrow> bool" where
  "search_inv h V from hit q d \<longleftrightarrow>
     finite V \<and> (\<forall>n\<in>V. set (cn_edges (h n)) \<subseteq> V) \<and>
     distinct q \<and> set q \<subseteq> d \<and> d \<subseteq> V \<and> from \<in> d \<and>
     d \<subseteq> (edge_rel h)\<^sup>* `` {from} \<and>
     (\<forall>n \<in> d - set q. \<not> hit n \<and> set (cn_edges (h n)) \<subseteq> d)"

lemma search_inv_start:
  assumes "heap_wf h k" and "from < k"
  shows "search_inv h {..<k} from hit [from] {from}"
  using assms heap_wf_edge_bound [OF assms(1)] by (auto simp: search_inv_def)

lemma search_inv_done:
  assumes "search_inv h V from hit [] d"
  shows "d = (edge_rel h)\<^sup>* `` {from}" and "\<And>n. (from, n) \<in> (edge_rel h)\<^sup>* \<Longrightarrow> \<not> hit n"
proof -
  have closed: "n \<in> d" if "(from, n) \<in> (edge_rel h)\<^sup>*" for n
    using that
  proof induction
    case base
    then show ?case using assms by (simp add: search_inv_def)
  next
    case (step y z)
    then show ?case using assms by (fastforce simp: search_inv_def)
  qed
  then show "d = (edge_rel h)\<^sup>* `` {from}"
    using assms by (auto simp: search_inv_def)
  show "\<And>n. (from, n) \<in> (edge_rel h)\<^sup>* \<Longrightarrow> \<not> hit n"
    using closed assms by (auto simp: search_inv_def)
qed

lemma search_inv_step:
  assumes inv: "search_inv h V from hit q d" and q: "q \<noteq> []" and miss: "\<not> hit (last q)"
  defines "st \<equiv> discover (cn_edges (h (last q))) (butlast q, d)"
  shows "search_inv h V from hit (fst st) (snd st)"
    and "card (V - snd st) + length (fst st) < card (V - d) + length q"
    and "snd st - set (fst st) = insert (last q) (d - set q)"
proof -
  let ?n = "last q" and ?E = "set (cn_edges (h (last q)))"
  obtain new where st: "st = (butlast q @ new, d \<union> ?E)" and new: "set new = ?E - d" "distinct new"
    using discover_spec [of "cn_edges (h ?n)" "butlast q" d] by (auto simp: st_def)
  have q_split: "q = butlast q @ [?n]" using q by simp
  have dq: "distinct (butlast q)" "?n \<notin> set (butlast q)" "set q = insert ?n (set (butlast q))"
  proof -
    have "distinct (butlast q @ [?n])" using inv q_split by (simp add: search_inv_def)
    then show "distinct (butlast q)" "?n \<notin> set (butlast q)" by auto
    show "set q = insert ?n (set (butlast q))" by (subst q_split) auto
  qed
  have n: "?n \<in> d" "?n \<in> V" using inv last_in_set [OF q] unfolding search_inv_def by blast+
  then have E: "?E \<subseteq> V" using inv by (auto simp: search_inv_def)
  have reach: "?E \<subseteq> (edge_rel h)\<^sup>* `` {from}"
  proof
    fix m assume "m \<in> ?E"
    moreover have "(from, ?n) \<in> (edge_rel h)\<^sup>*" using n inv by (auto simp: search_inv_def)
    ultimately show "m \<in> (edge_rel h)\<^sup>* `` {from}" by (auto intro: rtrancl_into_rtrancl)
  qed
  show diff: "snd st - set (fst st) = insert ?n (d - set q)"
    using dq n new by (auto simp: st)
  show "search_inv h V from hit (fst st) (snd st)"
    unfolding search_inv_def
  proof (intro conjI)
    show "\<forall>n\<in>snd st - set (fst st). \<not> hit n \<and> set (cn_edges (h n)) \<subseteq> snd st"
      unfolding diff using inv miss by (auto simp: st search_inv_def)
  qed (use inv dq n new E reach in \<open>auto simp: st search_inv_def\<close>)
  have "card (V - (d \<union> ?E)) + length new = card (V - d)"
  proof -
    have "V - d = (V - (d \<union> ?E)) \<union> set new" using new E by auto
    moreover have "finite V" "(V - (d \<union> ?E)) \<inter> set new = {}" using inv new by (auto simp: search_inv_def)
    ultimately have "card (V - d) = card (V - (d \<union> ?E)) + card (set new)"
      by (metis card_Un_disjoint finite_Diff finite_set)
    then show ?thesis using distinct_card [OF new(2)] by linarith
  qed
  moreover have "length q = Suc (length (butlast q))" using q_split by (metis length_append_singleton)
  ultimately show "card (V - snd st) + length (fst st) < card (V - d) + length q"
    by (simp add: st)
qed

lemma reach_loop_correct:
  assumes "search_inv h V from (\<lambda>n. n = to) q d"
  shows "reach_loop h to q d = Some ((from, to) \<in> (edge_rel h)\<^sup>*)"
  using assms
proof (induction "card (V - d) + length q" arbitrary: q d rule: less_induct)
  case less
  show ?case
  proof (cases "q = []")
    case True
    then show ?thesis
      using search_inv_done(2) [of h V "from" "\<lambda>n. n = to" d to] less.prems
      by (auto simp: reach_loop.simps [of h to "[]" d])
  next
    case False
    show ?thesis
    proof (cases "last q = to")
      case True
      with False less.prems have "(from, to) \<in> (edge_rel h)\<^sup>*"
        by (auto simp: search_inv_def dest: last_in_set)
      with False True show ?thesis by (simp add: reach_loop.simps [of h to q d])
    next
      case miss: False
      let ?st = "discover (cn_edges (h (last q))) (butlast q, d)"
      note step = search_inv_step [OF less.prems False miss]
      have "reach_loop h to q d = reach_loop h to (fst ?st) (snd ?st)"
        using False miss by (simp add: reach_loop.simps [of h to q d] Let_def)
      also have "\<dots> = Some ((from, to) \<in> (edge_rel h)\<^sup>*)"
        by (rule less.hyps [OF step(2) step(1)])
      finally show ?thesis .
    qed
  qed
qed

lemma checkReachable_node_correct:
  assumes "heap_wf (cg_heap g) k" and "from < k"
  shows "checkReachable_node g from to = Some ((from, to) \<in> (cg_rel g)\<^sup>*)"
  unfolding checkReachable_node_def
  using search_inv_start [OF assms] by (rule reach_loop_correct)

text \<open>
  \<open>checkPromise\<close>: the threads of the stores taken off the stack so far have been eliminated
  from the promise, no other thread has been.
\<close>

definition node_tids :: "act_store \<Rightarrow> cheap \<Rightarrow> cnode set \<Rightarrow> thread_id_t set" where
  "node_tids acts h N = {ma_tid (acts a) | n a. n \<in> N \<and> cn_action (h n) = Some a}"

lemma promise_loop_correct:
  assumes "search_inv h V from (\<lambda>n. cn_promise (h n) = Some p) q d"
    and "Promise_wf pr"
    and "\<And>t. thread_is_available pr t \<longleftrightarrow> thread_is_available pr0 t \<and> t \<notin> node_tids acts h (d - set q)"
  shows "\<exists>b pr'. promise_loop acts h p q d pr = Some (b, pr') \<and> Promise_wf pr' \<and>
           (b \<longleftrightarrow> (\<exists>n. (from, n) \<in> (edge_rel h)\<^sup>* \<and> cn_promise (h n) = Some p)) \<and>
           (\<forall>t. thread_is_available pr' t \<longrightarrow> thread_is_available pr0 t) \<and>
           (\<not> b \<longrightarrow> (\<forall>t. thread_is_available pr' t \<longleftrightarrow>
              thread_is_available pr0 t \<and> t \<notin> node_tids acts h ((edge_rel h)\<^sup>* `` {from})))"
  using assms
proof (induction "card (V - d) + length q" arbitrary: q d pr rule: less_induct)
  case less
  let ?hit = "\<lambda>n. cn_promise (h n) = Some p"
  show ?case
  proof (cases "q = []")
    case True
    with less.prems(1) have "search_inv h V from ?hit [] d" by simp
    note final = search_inv_done [OF this]
    have "promise_loop acts h p q d pr = Some (False, pr)"
      unfolding True by (subst promise_loop.simps) simp
    with final less.prems True show ?thesis by auto
  next
    case False
    show ?thesis
    proof (cases "?hit (last q)")
      case True
      from False less.prems(1) have "(from, last q) \<in> (edge_rel h)\<^sup>*"
        by (auto simp: search_inv_def dest: last_in_set)
      with True False less.prems(2,3) show ?thesis
        by (auto simp: promise_loop.simps [of acts h p q d pr])
    next
      case miss: False
      let ?st = "discover (cn_edges (h (last q))) (butlast q, d)"
      let ?pr = "case cn_action (h (last q)) of
                   Some a \<Rightarrow> snd (eliminate_thread pr (ma_tid (acts a))) | None \<Rightarrow> pr"
      note step = search_inv_step [OF less.prems(1) False miss]
      have unfold: "promise_loop acts h p q d pr = promise_loop acts h p (fst ?st) (snd ?st) ?pr"
        using False miss by (simp add: promise_loop.simps [of acts h p q d pr] Let_def)
      have wf: "Promise_wf ?pr"
        using less.prems(2) by (auto intro: eliminate_thread_wf split: option.splits)
      have av: "thread_is_available ?pr t \<longleftrightarrow>
                  thread_is_available pr0 t \<and> t \<notin> node_tids acts h (snd ?st - set (fst ?st))" for t
        unfolding step(3) using less.prems(3) [of t]
        by (auto simp: node_tids_def eliminate_thread_available split: option.splits)
      show ?thesis
        unfolding unfold by (rule less.hyps [OF step(2) step(1) wf av])
    qed
  qed
qed

section \<open>Inserting edges\<close>

lemma addEdge_False_iff [simp]:
  "fst (CycleNode_addEdge h n m) \<longleftrightarrow> m \<notin> set (cn_edges (h n))"
  by (simp add: CycleNode_addEdge_def Let_def)

lemma addEdge_heap:
  assumes "m \<notin> set (cn_edges (h n))"
  defines "h' \<equiv> snd (CycleNode_addEdge h n m)"
  shows "cn_edges (h' x) = (if x = n then cn_edges (h n) @ [m] else cn_edges (h x))"
    and "cn_back_edges (h' x) = (if x = m then cn_back_edges (h m) @ [n] else cn_back_edges (h x))"
    and "cn_hasRMW (h' x) = cn_hasRMW (h x)"
    and "cn_action (h' x) = cn_action (h x)"
    and "cn_promise (h' x) = cn_promise (h x)"
  using assms(1) by (simp_all add: h'_def CycleNode_addEdge_def Let_def)

lemma addEdge_rels:
  assumes "m \<notin> set (cn_edges (h n))"
  shows "edge_rel (snd (CycleNode_addEdge h n m)) = insert (n, m) (edge_rel h)"
    and "rmw_rel (snd (CycleNode_addEdge h n m)) = rmw_rel h"
  using addEdge_heap [of m h n, OF assms] by (auto simp: edge_rel_def rmw_rel_def split: if_splits)

lemma addEdge_wf:
  assumes wf: "heap_wf h k" and new: "m \<notin> set (cn_edges (h n))" and "n < k" "m < k"
  shows "heap_wf (snd (CycleNode_addEdge h n m)) k"
  unfolding heap_wf_def addEdge_rels [of m h n, OF new]
proof (intro conjI allI impI)
  let ?h = "snd (CycleNode_addEdge h n m)"
  note heap = addEdge_heap [of m h n, OF new]
  show "?h x = blank_CycleNode" if "k \<le> x" for x
    using that assms by (auto simp: CycleNode_addEdge_def Let_def heap_wf_def)
  show "y \<in> set (cn_edges (?h x)) \<longleftrightarrow> x \<in> set (cn_back_edges (?h y))" for x y
    using heap_wf_mirror [OF wf, of y x] by (auto simp: heap)
  show "distinct (cn_edges (?h x))" for x
    using wf new by (auto simp: heap heap_wf_def)
  show "distinct (cn_back_edges (?h x))" for x
    using wf new heap_wf_mirror [OF wf, of m n] by (auto simp: heap heap_wf_def)
  show "set (cn_edges (?h x)) \<subseteq> {..<k}" for x
    using heap_wf_edge_bound(1) [OF wf] assms(4) by (auto simp: heap)
  show "rmw_rel h \<subseteq> {..<k} \<times> {..<k}" "acyclic (rmw_rel h)"
    using wf by (simp_all add: heap_wf_def)
qed

text \<open>
  Checking reachability after the insertion of \<open>(a, b)\<close>, as the code does, finds the same
  answer for \<open>b\<close> to \<open>a\<close> as before it.
\<close>

lemma reach_back_insert: "(b, a) \<in> (insert (a, b) R)\<^sup>* \<longleftrightarrow> (b, a) \<in> R\<^sup>*"
  by (auto simp: rtrancl_insert)

lemma acyclic_insert_reach: "acyclic (insert (a, b) R) \<longleftrightarrow> acyclic R \<and> (b, a) \<notin> (insert (a, b) R)\<^sup>*"
  by (simp add: acyclic_insert reach_back_insert)

lemma update_hasCycles_spec:
  assumes "heap_wf (cg_heap g) k" and "from < k"
  shows "update_hasCycles g from to =
           Some (g\<lparr>cg_hasCycles := cg_hasCycles g \<or> (from, to) \<in> (cg_rel g)\<^sup>*\<rparr>)"
  using checkReachable_node_correct [OF assms, of to] by (simp add: update_hasCycles_def)

lemma rmw_chain_end_spec:
  assumes "heap_wf h k"
  shows "\<exists>e. rmw_chain_end h to r = Some e \<and> (r, e) \<in> (rmw_rel h)\<^sup>* \<and>
              (e = to \<or> cn_hasRMW (h e) = None)"
proof -
  have "finite (rmw_rel h)"
    using assms by (auto simp: heap_wf_def intro: finite_subset [of _ "{..<k} \<times> {..<k}"])
  then have wf: "wf ((rmw_rel h)\<inverse>)"
    using assms by (simp add: heap_wf_def finite_acyclic_wf_converse)
  show ?thesis
  proof (induction r rule: wf_induct_rule [OF wf])
    case (1 r)
    show ?case
    proof (cases "r = to \<or> cn_hasRMW (h r) = None")
      case True
      then show ?thesis
        by (auto simp: rmw_chain_end.simps [of h to r] split: option.splits)
    next
      case False
      then obtain s where s: "cn_hasRMW (h r) = Some s" "r \<noteq> to" by auto
      with "1.IH" [of s] obtain e where "rmw_chain_end h to s = Some e"
        "(s, e) \<in> (rmw_rel h)\<^sup>*" "e = to \<or> cn_hasRMW (h e) = None"
        by auto
      with s show ?thesis
        by (auto simp: rmw_chain_end.simps [of h to r] intro: converse_rtrancl_into_rtrancl)
    qed
  qed
qed

section \<open>\<open>addNodeEdge\<close> returns, and \<open>hasCycles\<close> is exact\<close>

text \<open>A logged insertion together with the update of the flag it leads to.\<close>

definition log_insert :: "cnode \<Rightarrow> cnode \<Rightarrow> CycleGraph \<Rightarrow> CycleGraph" where
  "log_insert n m g =
     (let h = snd (CycleNode_addEdge (cg_heap g) n m)
      in g\<lparr>cg_heap := h, cg_rollbackvector := cg_rollbackvector g @ [n],
           cg_hasCycles := cg_hasCycles g \<or> \<not> acyclic (edge_rel h)\<rparr>)"

lemma same_log: "g\<lparr>cg_heap := h, cg_rollbackvector := cg_rollbackvector g\<rparr> = g\<lparr>cg_heap := h\<rparr>"
  by (cases g) simp

text \<open>The flag is never false on a cyclic graph.\<close>

definition flag_sound :: "CycleGraph \<Rightarrow> bool" where
  "flag_sound g \<longleftrightarrow> (\<not> cg_hasCycles g \<longrightarrow> acyclic (cg_rel g))"

lemma checked_insert:
  assumes wf: "heap_wf (cg_heap g) k" and new: "m \<notin> set (cn_edges (cg_heap g n))"
    and "n < k" "m < k" and sound: "flag_sound g"
  shows "update_hasCycles
           (g\<lparr>cg_heap := snd (CycleNode_addEdge (cg_heap g) n m), cg_rollbackvector := l\<rparr>) m n =
         Some (log_insert n m g\<lparr>cg_rollbackvector := l\<rparr>)"
proof -
  let ?h = "snd (CycleNode_addEdge (cg_heap g) n m)"
  let ?g = "g\<lparr>cg_heap := ?h, cg_rollbackvector := l\<rparr>"
  have "heap_wf (cg_heap ?g) k" using addEdge_wf [OF wf new assms(3,4)] by simp
  from update_hasCycles_spec [OF this assms(4), of n]
  have "update_hasCycles ?g m n =
          Some (?g\<lparr>cg_hasCycles := cg_hasCycles g \<or> (m, n) \<in> (edge_rel ?h)\<^sup>*\<rparr>)" by simp
  moreover have "cg_hasCycles g \<or> (m, n) \<in> (edge_rel ?h)\<^sup>* \<longleftrightarrow> cg_hasCycles g \<or> \<not> acyclic (edge_rel ?h)"
    using sound acyclic_insert_reach [of n m "cg_rel g"] addEdge_rels(1) [of m "cg_heap g" n, OF new]
    by (auto simp: flag_sound_def)
  ultimately show ?thesis by (simp add: log_insert_def Let_def)
qed

lemma log_insert_simps [simp]:
  "cg_next (log_insert n m g) = cg_next g"
  "cg_actionToNode (log_insert n m g) = cg_actionToNode g"
  "cg_promiseToNode (log_insert n m g) = cg_promiseToNode g"
  "cg_oldCycles (log_insert n m g) = cg_oldCycles g"
  "cg_rollbackvector (log_insert n m g) = cg_rollbackvector g @ [n]"
  "cg_rmwrollbackvector (log_insert n m g) = cg_rmwrollbackvector g"
  "cg_heap (log_insert n m g) = snd (CycleNode_addEdge (cg_heap g) n m)"
  "cg_hasCycles (log_insert n m g) \<longleftrightarrow> cg_hasCycles g \<or> \<not> acyclic (cg_rel (log_insert n m g))"
  "flag_sound (log_insert n m g)"
  by (simp_all add: log_insert_def flag_sound_def Let_def)

lemma log_insert_wf:
  assumes "cg_wf g" and new: "m \<notin> set (cn_edges (cg_heap g n))" and "n < cg_next g" "m < cg_next g"
  shows "cg_wf (log_insert n m g)"
  using assms(1) addEdge_wf [of "cg_heap g" "cg_next g" m n, OF _ new assms(3,4)]
    addEdge_heap [of m "cg_heap g" n, OF new]
  by (simp add: cg_wf_def)

text \<open>
  The outcomes of \<open>addNodeEdge\<close>: the edge was there; it was added alone; or it was added
  and so was the edge from the last read-modify-write \<open>e\<close> of the chain of the source.
\<close>

lemma addNodeEdge_cases:
  assumes wf: "cg_wf g" and f: "f < cg_next g" and t: "t < cg_next g" and sound: "flag_sound g"
  obtains (old) "t \<in> set (cn_edges (cg_heap g f))" "addNodeEdge g f t = Some (False, g)"
  | (plain) "t \<notin> set (cn_edges (cg_heap g f))" "cn_hasRMW (cg_heap g f) = None"
      "addNodeEdge g f t = Some (True, log_insert f t g)"
  | (chained) r e where "t \<notin> set (cn_edges (cg_heap g f))" "cn_hasRMW (cg_heap g f) = Some r"
      "(r, e) \<in> (rmw_rel (cg_heap g))\<^sup>*"
      "e = t \<or> cn_hasRMW (cg_heap g e) = None \<and> t \<in> set (cn_edges (cg_heap (log_insert f t g) e))"
      "addNodeEdge g f t = Some (True, log_insert f t g)"
  | (extended) r e where "t \<notin> set (cn_edges (cg_heap g f))" "cn_hasRMW (cg_heap g f) = Some r"
      "(r, e) \<in> (rmw_rel (cg_heap g))\<^sup>*" "e \<noteq> t" "cn_hasRMW (cg_heap g e) = None" "e < cg_next g"
      "t \<notin> set (cn_edges (cg_heap (log_insert f t g) e))"
      "addNodeEdge g f t = Some (True, log_insert e t (log_insert f t g))"
proof (cases "t \<in> set (cn_edges (cg_heap g f))")
  case True
  then have "addNodeEdge g f t = Some (False, g)"
    by (simp add: addNodeEdge_def CycleNode_addEdge_def)
  with True show ?thesis by (rule old)
next
  case new: False
  let ?g = "log_insert f t g"
  have hwf: "heap_wf (cg_heap g) (cg_next g)" using wf by (simp add: cg_wf_def)
  have hwf': "heap_wf (cg_heap ?g) (cg_next g)" using addEdge_wf [OF hwf new f t] by simp
  have ins: "CycleNode_addEdge (cg_heap g) f t = (True, cg_heap ?g)"
    using addEdge_False_iff [of "cg_heap g" f t] new by (simp add: prod_eq_iff)
  have rmw: "cn_hasRMW (cg_heap ?g n) = cn_hasRMW (cg_heap g n)" for n
    using addEdge_heap(3) [of t "cg_heap g" f, OF new] by simp
  have rel: "rmw_rel (cg_heap ?g) = rmw_rel (cg_heap g)"
    by (simp add: rmw_rel_def rmw [simplified])
  have upd: "update_hasCycles (g\<lparr>cg_heap := cg_heap ?g, cg_rollbackvector := cg_rollbackvector g @ [f]\<rparr>) t f
        = Some ?g"
    using checked_insert [OF hwf new f t sound] by (simp add: log_insert_def Let_def)
  show ?thesis
  proof (cases "cn_hasRMW (cg_heap g f)")
    case None
    with ins upd rmw have "addNodeEdge g f t = Some (True, ?g)"
      by (simp add: addNodeEdge_def del: log_insert_simps)
    with new None show ?thesis by (rule plain)
  next
    case (Some r)
    from rmw_chain_end_spec [OF hwf', of t r] obtain e
      where e: "rmw_chain_end (cg_heap ?g) t r = Some e" "(r, e) \<in> (rmw_rel (cg_heap ?g))\<^sup>*"
        "e = t \<or> cn_hasRMW (cg_heap ?g e) = None"
      by blast
    note start = ins upd rmw e(1) Some
    show ?thesis
    proof (cases "e = t \<or> t \<in> set (cn_edges (cg_heap ?g e))")
      case True
      then have "addNodeEdge g f t = Some (True, ?g)"
        using start by (auto simp: addNodeEdge_def CycleNode_addEdge_def [of "cg_heap ?g"] simp del: log_insert_simps)
      with new Some e True rel rmw show ?thesis by (intro chained [of r e]) auto
    next
      case False
      have "e \<in> insert r (Range (rmw_rel (cg_heap g)))"
        using e(2) unfolding rel by (auto elim: rtranclE)
      moreover have "rmw_rel (cg_heap g) \<subseteq> {..<cg_next g} \<times> {..<cg_next g}"
        using hwf by (simp add: heap_wf_def)
      moreover have "(f, r) \<in> rmw_rel (cg_heap g)" using Some by simp
      ultimately have lt: "e < cg_next g" by blast
      have new2: "t \<notin> set (cn_edges (cg_heap ?g e))" using False by blast
      have ins2: "CycleNode_addEdge (cg_heap ?g) e t = (True, cg_heap (log_insert e t ?g))"
        using addEdge_False_iff [of "cg_heap ?g" e t] new2 by (simp add: prod_eq_iff)
      have upd2: "update_hasCycles (?g\<lparr>cg_heap := cg_heap (log_insert e t ?g)\<rparr>) t e
          = Some (log_insert e t ?g\<lparr>cg_rollbackvector := cg_rollbackvector ?g\<rparr>)"
        using checked_insert [OF hwf' new2 lt t log_insert_simps(9), of "cg_rollbackvector ?g"]
        unfolding same_log log_insert_simps(7) [of e] .
      have "addNodeEdge g f t = Some (True, log_insert e t ?g)"
        using start ins2 upd2 False by (simp add: addNodeEdge_def del: log_insert_simps) (simp add: log_insert_def Let_def)
      with new Some e False rel rmw lt new2 show ?thesis by (intro extended [of r e]) auto
    qed
  qed
qed

end
