(* ===== verification/CycleChange.thy ===== *)
theory CycleChange
  imports CycleSearch
begin

text \<open>
  The changes \<open>addEdge\<close> and \<open>addRMWEdge\<close> make to the graph, as a step relation: nodes are
  allocated, edges are inserted and logged, read-modify-writes are recorded and logged, the flag is
  written. Every client operation is a sequence of such steps, so an invariant of the steps is an
  invariant of the operations.
\<close>

section \<open>Nodes\<close>

lemma new_CycleGraph_wf [simp]: "cg_wf new_CycleGraph"
  by (simp add: cg_wf_def heap_wf_def new_CycleGraph_def rmw_rel_def acyclic_def)

lemma new_CycleGraph_flag [simp]: "flag_sound new_CycleGraph"
  by (simp add: flag_sound_def new_CycleGraph_def edge_rel_def acyclic_def)

lemma new_node_simps [simp]:
  "cn_edges (new_CycleNode_action a) = []" "cn_edges (new_CycleNode_promise p) = []"
  "cn_back_edges (new_CycleNode_action a) = []" "cn_back_edges (new_CycleNode_promise p) = []"
  "cn_hasRMW (new_CycleNode_action a) = None" "cn_hasRMW (new_CycleNode_promise p) = None"
  "cn_action (new_CycleNode_action a) = Some a" "cn_action (new_CycleNode_promise p) = None"
  "cn_promise (new_CycleNode_action a) = None" "cn_promise (new_CycleNode_promise p) = Some p"
  by (simp_all add: new_CycleNode_action_def new_CycleNode_promise_def)

text \<open>The part of a heap the graph algorithms depend on.\<close>

definition same_shape :: "cheap \<Rightarrow> cheap \<Rightarrow> bool" where
  "same_shape h h' \<longleftrightarrow>
     (\<forall>n. cn_edges (h' n) = cn_edges (h n) \<and> cn_back_edges (h' n) = cn_back_edges (h n) \<and>
          cn_hasRMW (h' n) = cn_hasRMW (h n))"

lemma same_shape_refl [simp]: "same_shape h h"
  by (simp add: same_shape_def)

lemma same_shape_trans [trans]: "same_shape h h1 \<Longrightarrow> same_shape h1 h2 \<Longrightarrow> same_shape h h2"
  by (simp add: same_shape_def)

lemma same_shape_sym: "same_shape h h1 \<Longrightarrow> same_shape h1 h"
  by (simp add: same_shape_def)

lemma same_shape_rels: "same_shape h h' \<Longrightarrow> edge_rel h' = edge_rel h \<and> rmw_rel h' = rmw_rel h"
  by (simp add: same_shape_def edge_rel_def rmw_rel_def)

lemma fresh_node_wf:
  assumes wf: "heap_wf h k" and "cn_edges n = []" "cn_back_edges n = []" "cn_hasRMW n = None"
  shows "heap_wf (h(k := n)) (Suc k)" and "same_shape h (h(k := n))"
proof -
  have "h k = blank_CycleNode" using heap_wf_blank [OF wf] by simp
  with assms(2-4) show shape: "same_shape h (h(k := n))" by (simp add: same_shape_def)
  have eq: "cn_edges ((h(k := n)) x) = cn_edges (h x)"
    "cn_back_edges ((h(k := n)) x) = cn_back_edges (h x)" for x
    using shape by (simp_all add: same_shape_def)
  have rels: "edge_rel (h(k := n)) = edge_rel h" "rmw_rel (h(k := n)) = rmw_rel h"
    using same_shape_rels [OF shape] by blast+
  show "heap_wf (h(k := n)) (Suc k)"
    unfolding heap_wf_def eq rels
  proof (intro conjI allI impI)
    show "(h(k := n)) x = blank_CycleNode" if "Suc k \<le> x" for x
      using that heap_wf_blank [OF wf, of x] by simp
    show "set (cn_edges (h x)) \<subseteq> {..<Suc k}" for x
      using heap_wf_edge_bound(1) [OF wf] less_SucI by blast
    show "rmw_rel h \<subseteq> {..<Suc k} \<times> {..<Suc k}"
      using heap_wf_rmw(1) [OF wf] by (auto simp: less_SucI)
  qed (rule heap_wf_mirror [OF wf] heap_wf_distinct [OF wf] heap_wf_rmw(2) [OF wf])+
qed

text \<open>
  \<open>getNode\<close> finds the node or allocates one without edges, and afterwards the object has
  that node.
\<close>

fun new_node :: "mo_obj \<Rightarrow> CycleNode" where
  "new_node (MoAction a) = new_CycleNode_action a"
| "new_node (MoPromise p) = new_CycleNode_promise p"

lemma new_node_shape [simp]:
  "cn_edges (new_node x) = []" "cn_back_edges (new_node x) = []" "cn_hasRMW (new_node x) = None"
  by (cases x; simp)+

lemma getNode_found: "getNode_noCreate g x = Some n \<Longrightarrow> getNode g x = (n, g)"
  by (cases x) (simp_all add: getNode_action_def getNode_promise_def)

lemma getNode_new:
  assumes "getNode_noCreate g x = None"
  shows "fst (getNode g x) = cg_next g"
    and "cg_next (snd (getNode g x)) = Suc (cg_next g)"
    and "cg_heap (snd (getNode g x)) = (cg_heap g)(cg_next g := new_node x)"
    and "getNode_noCreate (snd (getNode g x)) y = (if y = x then Some (cg_next g) else getNode_noCreate g y)"
  using assms
  by (cases x; cases y; simp add: getNode_action_def getNode_promise_def alloc_CycleNode_def
      putNode_action_def putNode_promise_def)+

lemma getNode_frame [simp]:
  "cg_hasCycles (snd (getNode g x)) = cg_hasCycles g"
  "cg_oldCycles (snd (getNode g x)) = cg_oldCycles g"
  "cg_rollbackvector (snd (getNode g x)) = cg_rollbackvector g"
  "cg_rmwrollbackvector (snd (getNode g x)) = cg_rmwrollbackvector g"
  by (cases x; simp add: getNode_action_def getNode_promise_def alloc_CycleNode_def
      putNode_action_def putNode_promise_def split: option.splits)+

text \<open>Well-formedness through the common lookup: the node of an object names the object.\<close>

fun node_names :: "CycleNode \<Rightarrow> mo_obj \<Rightarrow> bool" where
  "node_names n (MoAction a) \<longleftrightarrow> cn_action n = Some a"
| "node_names n (MoPromise p) \<longleftrightarrow> cn_promise n = Some p \<and> cn_action n = None"

lemma new_node_names [simp]: "node_names (new_node x) x"
  by (cases x) simp_all

lemma cg_wf_iff:
  "cg_wf g \<longleftrightarrow> heap_wf (cg_heap g) (cg_next g) \<and>
     (\<forall>x n. getNode_noCreate g x = Some n \<longrightarrow> n < cg_next g \<and> node_names (cg_heap g n) x)"
  (is "_ \<longleftrightarrow> _ \<and> (\<forall>x. ?P x)")
proof -
  have "(\<forall>x. ?P x) \<longleftrightarrow> (\<forall>a. ?P (MoAction a)) \<and> (\<forall>p. ?P (MoPromise p))"
    by (metis mo_obj.exhaust)
  then show ?thesis by (simp add: cg_wf_def)
qed

lemma getNode_new_wf:
  assumes wf: "cg_wf g" and none: "getNode_noCreate g x = None"
  shows "cg_wf (snd (getNode g x))" and "same_shape (cg_heap g) (cg_heap (snd (getNode g x)))"
proof -
  note new = getNode_new [OF none]
  have hwf: "heap_wf (cg_heap g) (cg_next g)" using wf by (simp add: cg_wf_def)
  show "same_shape (cg_heap g) (cg_heap (snd (getNode g x)))"
    unfolding new by (rule fresh_node_wf(2) [OF hwf new_node_shape])
  have "n < Suc (cg_next g) \<and> node_names (((cg_heap g)(cg_next g := new_node x)) n) y"
    if "(if y = x then Some (cg_next g) else getNode_noCreate g y) = Some n" for y n
  proof (cases "y = x")
    case False
    with that wf have "n < cg_next g" "node_names (cg_heap g n) y" by (simp_all add: cg_wf_iff)
    then show ?thesis by simp
  qed (use that in simp)
  with fresh_node_wf(1) [OF hwf new_node_shape, of x] show "cg_wf (snd (getNode g x))"
    unfolding cg_wf_iff new by blast
qed

lemma getNode_wf:
  assumes "cg_wf g"
  shows "cg_wf (snd (getNode g x))" and "same_shape (cg_heap g) (cg_heap (snd (getNode g x)))"
  using assms getNode_new_wf [of g x] getNode_found [of g x]
  by (cases "getNode_noCreate g x"; simp)+

lemma getNode_bounds:
  assumes "cg_wf g"
  shows "fst (getNode g x) < cg_next (snd (getNode g x))" and "cg_next g \<le> cg_next (snd (getNode g x))"
proof -
  have "fst (getNode g x) < cg_next (snd (getNode g x)) \<and> cg_next g \<le> cg_next (snd (getNode g x))"
  proof (cases "getNode_noCreate g x")
    case None
    then show ?thesis by (simp add: getNode_new)
  next
    case (Some n)
    with assms show ?thesis by (simp add: getNode_found cg_wf_iff)
  qed
  then show "fst (getNode g x) < cg_next (snd (getNode g x))" "cg_next g \<le> cg_next (snd (getNode g x))"
    by simp_all
qed

lemma getNode_lookup_same: "getNode_noCreate (snd (getNode g x)) x = Some (fst (getNode g x))"
  by (cases "getNode_noCreate g x") (simp_all add: getNode_found getNode_new)

lemma getNode_lookup_other:
  "getNode_noCreate g y = Some m \<Longrightarrow> getNode_noCreate (snd (getNode g x)) y = Some m"
  by (cases "getNode_noCreate g x") (auto simp: getNode_found getNode_new)

section \<open>Steps\<close>

inductive mo_change :: "CycleGraph \<Rightarrow> CycleGraph \<Rightarrow> bool" where
  alloc: "mo_change g (snd (getNode g x))"
| edge: "mo_change g (g\<lparr>cg_heap := snd (CycleNode_addEdge (cg_heap g) n m),
                       cg_rollbackvector := cg_rollbackvector g @ [n]\<rparr>)"
  if "m \<notin> set (cn_edges (cg_heap g n))" "n < cg_next g" "m < cg_next g"
| rmw: "mo_change g (g\<lparr>cg_heap := snd (CycleNode_setRMW (cg_heap g) n r),
                      cg_rmwrollbackvector := cg_rmwrollbackvector g @ [n]\<rparr>)"
  if "cn_hasRMW (cg_heap g n) = None" "cn_hasRMW (cg_heap g r) = None" "n \<noteq> r"
    "n < cg_next g" "r < cg_next g"
| flag: "mo_change g (g\<lparr>cg_hasCycles := c\<rparr>)"

lemma setRMW_heap:
  fixes h :: cheap and n r :: cnode
  assumes "cn_hasRMW (h n) = None"
  defines "h' \<equiv> snd (CycleNode_setRMW h n r)"
  shows "cn_hasRMW (h' x) = (if x = n then Some r else cn_hasRMW (h x))"
    and "cn_edges (h' x) = cn_edges (h x)" and "cn_back_edges (h' x) = cn_back_edges (h x)"
    and "cn_action (h' x) = cn_action (h x)" and "cn_promise (h' x) = cn_promise (h x)"
  using assms(1) by (simp_all add: h'_def CycleNode_setRMW_def)

lemma setRMW_rels:
  assumes "cn_hasRMW (h n) = None"
  shows "rmw_rel (snd (CycleNode_setRMW h n r)) = insert (n, r) (rmw_rel h)"
    and "edge_rel (snd (CycleNode_setRMW h n r)) = edge_rel h"
  using setRMW_heap [of h n, OF assms] assms by (auto simp: edge_rel_def rmw_rel_def split: if_splits)

lemma setRMW_wf:
  assumes wf: "heap_wf h k" and none: "cn_hasRMW (h n) = None" "cn_hasRMW (h r) = None"
    and "n \<noteq> r" "n < k" "r < k"
  shows "heap_wf (snd (CycleNode_setRMW h n r)) k"
proof -
  note heap = setRMW_heap [of h n, OF none(1)]
  have "(r, n) \<notin> (rmw_rel h)\<^sup>*"
    using none(2) \<open>n \<noteq> r\<close> by (auto elim: converse_rtranclE)
  then have "acyclic (insert (n, r) (rmw_rel h))"
    using wf by (simp add: heap_wf_def acyclic_insert)
  moreover have "snd (CycleNode_setRMW h n r) x = blank_CycleNode" if "k \<le> x" for x
    using that assms by (auto simp: CycleNode_setRMW_def heap_wf_def)
  ultimately show ?thesis
    using wf assms(5,6) unfolding heap_wf_def setRMW_rels [of h n, OF none(1)] heap by simp
qed

lemma mo_change_wf: "mo_change g g' \<Longrightarrow> cg_wf g \<Longrightarrow> cg_wf g'"
proof (induction rule: mo_change.induct)
  case (edge m g n)
  then show ?case
    using log_insert_wf [of g m n] by (simp add: log_insert_def Let_def cg_wf_def)
next
  case (rmw g n r)
  then show ?case
    using setRMW_wf [of "cg_heap g" "cg_next g" n r] setRMW_heap [of "cg_heap g" n]
    by (simp add: cg_wf_def)
next
  case (alloc g x)
  then show ?case by (rule getNode_wf(1))
qed (simp add: cg_wf_def)

lemma mo_changes_wf: "mo_change\<^sup>*\<^sup>* g g' \<Longrightarrow> cg_wf g \<Longrightarrow> cg_wf g'"
  by (induction rule: rtranclp_induct) (auto intro: mo_change_wf)

lemma mo_change_next: "mo_change g g' \<Longrightarrow> cg_wf g \<Longrightarrow> cg_next g \<le> cg_next g'"
  by (induction rule: mo_change.induct) (simp_all add: getNode_bounds(2))

section \<open>The operations as sequences of steps\<close>

text \<open>
  Atomicity of read-modify-writes: one that reads from a store has an edge from it, and everything
  ordered after the store is the read-modify-write itself or is ordered after it.
\<close>

definition rmw_closed :: "(cnode \<times> cnode) set \<Rightarrow> (cnode \<times> cnode) set \<Rightarrow> bool" where
  "rmw_closed E R \<longleftrightarrow> R \<subseteq> E \<and> R\<inverse> O E \<subseteq> E\<^sup>*"

lemma rmw_closed_extend:
  assumes "rmw_closed E R" and "E \<subseteq> E'"
    and "\<And>n t r. (n, t) \<in> E' \<Longrightarrow> (n, t) \<notin> E \<Longrightarrow> (n, r) \<in> R \<Longrightarrow> (r, t) \<in> E'\<^sup>*"
  shows "rmw_closed E' R"
  unfolding rmw_closed_def
proof
  show "R \<subseteq> E'" using assms(1,2) by (auto simp: rmw_closed_def)
  show "R\<inverse> O E' \<subseteq> E'\<^sup>*"
  proof (clarify)
    fix r n t assume "(n, r) \<in> R" "(n, t) \<in> E'"
    then show "(r, t) \<in> E'\<^sup>*"
      using assms rtrancl_mono [OF assms(2)] unfolding rmw_closed_def by (cases "(n, t) \<in> E") blast+
  qed
qed

lemma log_insert_changes:
  assumes "m \<notin> set (cn_edges (cg_heap g n))" "n < cg_next g" "m < cg_next g"
  shows "mo_change\<^sup>*\<^sup>* g (log_insert n m g)"
proof -
  let ?g = "g\<lparr>cg_heap := snd (CycleNode_addEdge (cg_heap g) n m),
             cg_rollbackvector := cg_rollbackvector g @ [n]\<rparr>"
  have "mo_change g ?g" by (rule mo_change.edge [OF assms])
  moreover have "mo_change ?g (log_insert n m g)"
    unfolding log_insert_def Let_def by (rule mo_change.flag)
  ultimately show ?thesis by (meson r_into_rtranclp rtranclp_trans)
qed

lemma log_insert_rels:
  assumes "m \<notin> set (cn_edges (cg_heap g n))"
  shows "cg_rel (log_insert n m g) = insert (n, m) (cg_rel g)"
    and "rmw_rel (cg_heap (log_insert n m g)) = rmw_rel (cg_heap g)"
  using addEdge_rels [of m "cg_heap g" n, OF assms] by simp_all

text \<open>What a client sees of an insertion: the new state, its edges, the flag.\<close>

definition inserted :: "CycleGraph \<Rightarrow> cnode \<Rightarrow> cnode \<Rightarrow> CycleGraph \<Rightarrow> bool" where
  "inserted g f t g' \<longleftrightarrow>
     mo_change\<^sup>*\<^sup>* g g' \<and> cg_next g' = cg_next g \<and> getNode_noCreate g' = getNode_noCreate g \<and>
     insert (f, t) (cg_rel g) \<subseteq> cg_rel g' \<and> cg_rel g' \<subseteq> cg_rel g \<union> UNIV \<times> {t} \<and>
     rmw_rel (cg_heap g') = rmw_rel (cg_heap g) \<and>
     flag_sound g' \<and> (cg_hasCycles g' \<longleftrightarrow> cg_hasCycles g \<or> \<not> acyclic (cg_rel g')) \<and>
     (rmw_rel (cg_heap g) \<subseteq> cg_rel g' \<longrightarrow>
        (\<forall>n r. (n, t) \<in> cg_rel g' - cg_rel g \<longrightarrow> (n, r) \<in> rmw_rel (cg_heap g) \<longrightarrow>
               (r, t) \<in> (cg_rel g')\<^sup>*))"

lemma inserted_closed:
  assumes "inserted g f t g'" and "rmw_closed (cg_rel g) (rmw_rel (cg_heap g))"
  shows "rmw_closed (cg_rel g') (rmw_rel (cg_heap g'))"
proof -
  have rels: "cg_rel g \<subseteq> cg_rel g'" "cg_rel g' \<subseteq> cg_rel g \<union> UNIV \<times> {t}"
    "rmw_rel (cg_heap g') = rmw_rel (cg_heap g)"
    using assms(1) by (auto simp: inserted_def)
  moreover have "rmw_rel (cg_heap g) \<subseteq> cg_rel g'"
    using assms(2) rels(1) by (auto simp: rmw_closed_def)
  ultimately show ?thesis
    using assms(1) unfolding rels(3)
    by (intro rmw_closed_extend [OF assms(2) rels(1)]) (auto simp: inserted_def simp del: edge_rel_iff rmw_rel_iff)
qed

lemma getNode_noCreate_eq:
  "cg_actionToNode g = cg_actionToNode g' \<Longrightarrow> cg_promiseToNode g = cg_promiseToNode g' \<Longrightarrow>
     getNode_noCreate g = getNode_noCreate g'"
proof
  fix x
  assume "cg_actionToNode g = cg_actionToNode g'" "cg_promiseToNode g = cg_promiseToNode g'"
  then show "getNode_noCreate g x = getNode_noCreate g' x" by (cases x) simp_all
qed

lemma addNodeEdge_spec:
  assumes wf: "cg_wf g" and f: "f < cg_next g" and t: "t < cg_next g" and sound: "flag_sound g"
  shows "\<exists>g'. addNodeEdge g f t = Some ((f, t) \<notin> cg_rel g, g') \<and> inserted g f t g'"
  using wf f t sound
proof (cases rule: addNodeEdge_cases)
  case old
  then show ?thesis using sound by (auto simp: inserted_def flag_sound_def)
next
  case plain
  note rels = log_insert_rels [OF plain(1)]
  have "inserted g f t (log_insert f t g)"
    unfolding inserted_def rels log_insert_simps(8)
    using log_insert_changes [OF plain(1) f t] getNode_noCreate_eq [of "log_insert f t g" g] plain(2)
    by (auto simp del: log_insert_simps(8))
  with plain show ?thesis by simp
next
  case (chained r e)
  let ?g = "log_insert f t g"
  note rels = log_insert_rels [OF chained(1)]
  have reach: "(r', t) \<in> (cg_rel ?g)\<^sup>*"
    if sub: "rmw_rel (cg_heap g) \<subseteq> cg_rel ?g" and "(n, t) \<in> cg_rel ?g - cg_rel g"
      and "(n, r') \<in> rmw_rel (cg_heap g)" for n r'
  proof -
    have "r' = r" using that(2,3) chained(2) unfolding rels by auto
    moreover have "(r, e) \<in> (cg_rel ?g)\<^sup>*" using chained(3) rtrancl_mono [OF sub] by blast
    ultimately show ?thesis using chained(4) by (auto intro: rtrancl_into_rtrancl)
  qed
  have "inserted g f t ?g"
    unfolding inserted_def log_insert_simps(8)
    using log_insert_changes [OF chained(1) f t] getNode_noCreate_eq [of ?g g] reach
    by (auto simp: rels simp del: log_insert_simps(7,8) edge_rel_iff rmw_rel_iff)
  with chained show ?thesis by simp
next
  case (extended r e)
  let ?g = "log_insert f t g" and ?g' = "log_insert e t (log_insert f t g)"
  note rels = log_insert_rels [OF extended(7)] log_insert_rels [OF extended(1)]
  have reach: "(r', t) \<in> (cg_rel ?g')\<^sup>*"
    if sub: "rmw_rel (cg_heap g) \<subseteq> cg_rel ?g'" and "(n, t) \<in> cg_rel ?g' - cg_rel g"
      and "(n, r') \<in> rmw_rel (cg_heap g)" for n r'
  proof -
    have "r' = r" using that(2,3) extended(2,5) unfolding rels by auto
    moreover have "(r, e) \<in> (cg_rel ?g')\<^sup>*" using extended(3) rtrancl_mono [OF sub] by blast
    ultimately show ?thesis unfolding rels by (auto intro: rtrancl_into_rtrancl)
  qed
  have "mo_change\<^sup>*\<^sup>* g ?g'"
    using log_insert_changes [OF extended(1) f t] log_insert_changes [OF extended(7)] extended(6) t
    by (simp del: log_insert_simps(7,8))
  moreover have "cg_hasCycles ?g' \<longleftrightarrow> cg_hasCycles g \<or> \<not> acyclic (cg_rel ?g')"
    unfolding log_insert_simps(8) rels by (auto intro: acyclic_subset)
  ultimately have "inserted g f t ?g'"
    unfolding inserted_def using getNode_noCreate_eq [of ?g' g] reach
    by (auto simp: rels simp del: log_insert_simps(7,8) edge_rel_iff rmw_rel_iff)
  with extended show ?thesis by (simp del: log_insert_simps)
qed

section \<open>Read-modify-writes\<close>

lemma transfer_edge_spec:
  assumes "cg_wf g" "r < cg_next g" "t < cg_next g"
  shows "mo_change\<^sup>*\<^sup>* g (transfer_edge r t g)"
    and "cg_rel (transfer_edge r t g) = cg_rel g \<union> (if t = r then {} else {(r, t)})"
    and "rmw_rel (cg_heap (transfer_edge r t g)) = rmw_rel (cg_heap g)"
    and "cg_next (transfer_edge r t g) = cg_next g"
    and "cg_hasCycles (transfer_edge r t g) = cg_hasCycles g"
    and "getNode_noCreate (transfer_edge r t g) = getNode_noCreate g"
proof -
  let ?h = "snd (CycleNode_addEdge (cg_heap g) r t)"
  let ?g = "g\<lparr>cg_heap := ?h, cg_rollbackvector := cg_rollbackvector g @ [r]\<rparr>"
  consider (skip) "t = r \<or> t \<in> set (cn_edges (cg_heap g r))" "transfer_edge r t g = g"
    | (add) "t \<noteq> r" "t \<notin> set (cn_edges (cg_heap g r))" "transfer_edge r t g = ?g"
    by (cases "t = r \<or> t \<in> set (cn_edges (cg_heap g r))")
      (auto simp: transfer_edge_def CycleNode_addEdge_def Let_def)
  then have "mo_change\<^sup>*\<^sup>* g (transfer_edge r t g) \<and>
      cg_rel (transfer_edge r t g) = cg_rel g \<union> (if t = r then {} else {(r, t)}) \<and>
      rmw_rel (cg_heap (transfer_edge r t g)) = rmw_rel (cg_heap g) \<and>
      cg_next (transfer_edge r t g) = cg_next g \<and>
      cg_hasCycles (transfer_edge r t g) = cg_hasCycles g \<and>
      getNode_noCreate (transfer_edge r t g) = getNode_noCreate g"
  proof cases
    case skip
    then show ?thesis by auto
  next
    case add
    from mo_change.edge [OF add(2) assms(2,3)] have "mo_change\<^sup>*\<^sup>* g ?g" by blast
    with add addEdge_rels [of t "cg_heap g" r, OF add(2)] getNode_noCreate_eq [of ?g g]
    show ?thesis by simp
  qed
  then show "mo_change\<^sup>*\<^sup>* g (transfer_edge r t g)"
    "cg_rel (transfer_edge r t g) = cg_rel g \<union> (if t = r then {} else {(r, t)})"
    "rmw_rel (cg_heap (transfer_edge r t g)) = rmw_rel (cg_heap g)"
    "cg_next (transfer_edge r t g) = cg_next g"
    "cg_hasCycles (transfer_edge r t g) = cg_hasCycles g"
    "getNode_noCreate (transfer_edge r t g) = getNode_noCreate g" by simp_all
qed

lemma transfer_edges_spec:
  assumes "cg_wf g" "r < cg_next g" "set ts \<subseteq> {..<cg_next g}"
  shows "mo_change\<^sup>*\<^sup>* g (fold (transfer_edge r) ts g) \<and>
         cg_rel (fold (transfer_edge r) ts g) = cg_rel g \<union> {r} \<times> (set ts - {r}) \<and>
         rmw_rel (cg_heap (fold (transfer_edge r) ts g)) = rmw_rel (cg_heap g) \<and>
         cg_next (fold (transfer_edge r) ts g) = cg_next g \<and>
         cg_hasCycles (fold (transfer_edge r) ts g) = cg_hasCycles g \<and>
         getNode_noCreate (fold (transfer_edge r) ts g) = getNode_noCreate g"
  using assms
proof (induction ts arbitrary: g)
  case (Cons t ts)
  let ?g = "transfer_edge r t g"
  from Cons.prems have t: "t < cg_next g" by simp
  note step = transfer_edge_spec [OF Cons.prems(1,2) t]
  have "cg_wf ?g" using step(1) Cons.prems(1) by (rule mo_changes_wf)
  moreover have "{r} \<times> (set (t # ts) - {r}) = (if t = r then {} else {(r, t)}) \<union> {r} \<times> (set ts - {r})"
    by auto
  ultimately show ?case
    using Cons.IH [of ?g] Cons.prems step(1) step(2-6)
    by (auto simp: Un_assoc simp del: insert_Diff1 Diff_insert0 intro: rtranclp_trans)
qed simp

text \<open>Edges out of a node without incoming ones make no cycle.\<close>

lemma reach_source: "(t, r) \<in> E\<^sup>* \<Longrightarrow> r \<notin> Range E \<Longrightarrow> t = r"
  by (erule rtranclE) auto

lemma acyclic_source:
  assumes "finite T" "acyclic E" "r \<notin> Range E" "r \<notin> T"
  shows "acyclic (E \<union> {r} \<times> T) \<and> r \<notin> Range (E \<union> {r} \<times> T)"
  using assms
proof (induction T)
  case (insert t T)
  let ?E = "E \<union> {r} \<times> T"
  have IH: "acyclic ?E" "r \<notin> Range ?E"
    using insert.IH [OF insert.prems(1,2)] insert.prems(3) by simp_all
  have "t \<noteq> r" using insert.prems by blast
  then have "(t, r) \<notin> ?E\<^sup>*"
    using reach_source [OF _ IH(2), of t] by metis
  with IH(1) have "acyclic (insert (r, t) ?E)" by simp
  moreover have "insert (r, t) ?E = E \<union> {r} \<times> insert t T" by blast
  ultimately have "acyclic (E \<union> {r} \<times> insert t T)" by metis
  moreover have "r \<notin> Range (E \<union> {r} \<times> insert t T)" using insert.prems by blast
  ultimately show ?case by blast
qed simp

lemma no_back_edges:
  assumes "heap_wf h k" "cn_back_edges (h r) = []"
  shows "r \<notin> Range (edge_rel h)"
  using heap_wf_mirror [OF assms(1), of r] assms(2) by auto

text \<open>The state after the first part of \<open>addRMWEdge\<close>: the pointer to the reader is set.\<close>

definition record_rmw :: "CycleGraph \<Rightarrow> cnode \<Rightarrow> cnode \<Rightarrow> CycleGraph" where
  "record_rmw g f r =
     (case CycleNode_setRMW (cg_heap g) f r of
        (True, _) \<Rightarrow> g\<lparr>cg_hasCycles := True\<rparr>
      | (False, h) \<Rightarrow> g\<lparr>cg_heap := h, cg_rmwrollbackvector := cg_rmwrollbackvector g @ [f]\<rparr>)"

lemma record_rmw_spec:
  assumes "cg_wf g" "f < cg_next g" "r < cg_next g" "f \<noteq> r" "cn_hasRMW (cg_heap g r) = None"
  shows "mo_change\<^sup>*\<^sup>* g (record_rmw g f r)"
    and "cg_rel (record_rmw g f r) = cg_rel g"
    and "rmw_rel (cg_heap (record_rmw g f r)) =
           (if cn_hasRMW (cg_heap g f) = None then insert (f, r) (rmw_rel (cg_heap g)) else rmw_rel (cg_heap g))"
    and "cg_next (record_rmw g f r) = cg_next g"
    and "cg_hasCycles (record_rmw g f r) \<longleftrightarrow> cg_hasCycles g \<or> cn_hasRMW (cg_heap g f) \<noteq> None"
    and "getNode_noCreate (record_rmw g f r) = getNode_noCreate g"
proof -
  show "mo_change\<^sup>*\<^sup>* g (record_rmw g f r)"
  proof (cases "cn_hasRMW (cg_heap g f)")
    case None
    with mo_change.rmw [OF None assms(5,4,2,3)] show ?thesis
      by (auto simp: record_rmw_def CycleNode_setRMW_def)
  next
    case (Some r')
    with mo_change.flag [of g True] show ?thesis
      by (auto simp: record_rmw_def CycleNode_setRMW_def)
  qed
  show "cg_rel (record_rmw g f r) = cg_rel g"
    "rmw_rel (cg_heap (record_rmw g f r)) =
       (if cn_hasRMW (cg_heap g f) = None then insert (f, r) (rmw_rel (cg_heap g)) else rmw_rel (cg_heap g))"
    using setRMW_rels [of "cg_heap g" f r]
    by (cases "cn_hasRMW (cg_heap g f)"; simp add: record_rmw_def CycleNode_setRMW_def)+
  show "cg_next (record_rmw g f r) = cg_next g"
    "cg_hasCycles (record_rmw g f r) \<longleftrightarrow> cg_hasCycles g \<or> cn_hasRMW (cg_heap g f) \<noteq> None"
    "getNode_noCreate (record_rmw g f r) = getNode_noCreate g"
    using getNode_noCreate_eq [of "record_rmw g f r" g]
    by (auto simp: record_rmw_def CycleNode_setRMW_def)
qed

text \<open>
  \<open>addRMWEdge\<close> returns and its flag is exact where the read-modify-write has no incoming edges
  yet or the store has no outgoing ones, the two cases the comment in the code names.
\<close>

definition rmw_inserted :: "CycleGraph \<Rightarrow> cnode \<Rightarrow> cnode \<Rightarrow> CycleGraph \<Rightarrow> bool" where
  "rmw_inserted g f r g' \<longleftrightarrow>
     mo_change\<^sup>*\<^sup>* g g' \<and> cg_next g' = cg_next g \<and> getNode_noCreate g' = getNode_noCreate g \<and>
     cg_rel g \<union> {(f, r)} \<union> {r} \<times> ({t. (f, t) \<in> cg_rel g} - {r}) \<subseteq> cg_rel g' \<and>
     rmw_rel (cg_heap g') =
       (if cn_hasRMW (cg_heap g f) = None then insert (f, r) (rmw_rel (cg_heap g)) else rmw_rel (cg_heap g)) \<and>
     flag_sound g' \<and>
     (cg_hasCycles g' \<longleftrightarrow>
        cg_hasCycles g \<or> cn_hasRMW (cg_heap g f) \<noteq> None \<or> \<not> acyclic (cg_rel g')) \<and>
     (rmw_closed (cg_rel g) (rmw_rel (cg_heap g)) \<longrightarrow> rmw_closed (cg_rel g') (rmw_rel (cg_heap g')))"

text \<open>
  Between the recording and the insertion of the edge from the store to its reader the graph
  is closed for all stores but that one; with the edge it is closed.
\<close>

lemma rmw_closed_record:
  assumes closed: "rmw_closed E R" and R': "R' = R \<or> R' = insert (f, r) R"
    and r: "r \<notin> Domain R"
    and E': "E \<union> {(f, r)} \<union> {r} \<times> ({t. (f, t) \<in> E} - {r}) \<subseteq> E'"
    and new: "\<And>n t. (n, t) \<in> E' \<Longrightarrow> (n, t) \<notin> E \<Longrightarrow> n = r \<or> t = r \<and> (\<forall>s. (n, s) \<in> R' \<longrightarrow> (s, r) \<in> E'\<^sup>*)"
    and f: "f \<noteq> r"
  shows "rmw_closed E' R'"
  unfolding rmw_closed_def
proof
  show "R' \<subseteq> E'" using closed R' E' by (auto simp: rmw_closed_def)
  show "R'\<inverse> O E' \<subseteq> E'\<^sup>*"
  proof (clarify)
    fix s n t assume R: "(n, s) \<in> R'" and E: "(n, t) \<in> E'"
    have mono: "E\<^sup>* \<subseteq> E'\<^sup>*" using E' by (intro rtrancl_mono) blast
    have nr: "n \<noteq> r" using R R' r f by auto
    show "(s, t) \<in> E'\<^sup>*"
    proof (cases "(n, t) \<in> E")
      case True
      show ?thesis
      proof (cases "(n, s) \<in> R")
        case True
        with \<open>(n, t) \<in> E\<close> closed mono show ?thesis by (auto simp: rmw_closed_def)
      next
        case False
        with R R' have "n = f" "s = r" by auto
        with \<open>(n, t) \<in> E\<close> E' show ?thesis by (cases "t = r") auto
      qed
    next
      case False
      with new [OF E] nr R show ?thesis by blast
    qed
  qed
qed

lemma addRMWEdge_node_spec:
  assumes wf: "cg_wf g" and f: "f < cg_next g" and r: "r < cg_next g" and "f \<noteq> r"
    and none: "cn_hasRMW (cg_heap g r) = None" and sound: "flag_sound g"
    and fresh: "cn_back_edges (cg_heap g r) = [] \<or> cn_edges (cg_heap g f) = []"
  shows "\<exists>g'. addRMWEdge_node g f r = Some g' \<and> rmw_inserted g f r g'"
proof -
  let ?g1 = "record_rmw g f r"
  let ?g2 = "fold (transfer_edge r) (cn_edges (cg_heap ?g1 f)) ?g1"
  let ?T = "{t. (f, t) \<in> cg_rel g} - {r}"
  note rec = record_rmw_spec [OF wf f r \<open>f \<noteq> r\<close> none]
  have wf1: "cg_wf ?g1" using rec(1) wf by (rule mo_changes_wf)
  have T: "set (cn_edges (cg_heap ?g1 f)) - {r} = ?T" using rec(2) by (auto simp: edge_rel_def)
  have "set (cn_edges (cg_heap ?g1 f)) \<subseteq> {..<cg_next ?g1}"
    using wf1 heap_wf_edge_bound(1) by (auto simp: cg_wf_def)
  from transfer_edges_spec [OF wf1 _ this, of r] r rec(4)
  have tr: "mo_change\<^sup>*\<^sup>* ?g1 ?g2" "cg_rel ?g2 = cg_rel g \<union> {r} \<times> ?T"
    "rmw_rel (cg_heap ?g2) = rmw_rel (cg_heap ?g1)" "cg_next ?g2 = cg_next g"
    "cg_hasCycles ?g2 = cg_hasCycles ?g1" "getNode_noCreate ?g2 = getNode_noCreate g"
    by (simp_all add: T rec)
  have chg: "mo_change\<^sup>*\<^sup>* g ?g2" using rec(1) tr(1) by (rule rtranclp_trans)
  have wf2: "cg_wf ?g2" using chg wf by (rule mo_changes_wf)
  have "acyclic (cg_rel ?g2)" if acy: "acyclic (cg_rel g)"
  proof (cases "cn_back_edges (cg_heap g r) = []")
    case True
    have "heap_wf (cg_heap g) (cg_next g)" using wf by (simp add: cg_wf_def)
    then have "r \<notin> Range (cg_rel g)" "finite ?T"
      using no_back_edges True by (auto simp: edge_rel_def)
    with acyclic_source [of ?T "cg_rel g" r] acy show ?thesis unfolding tr(2) by blast
  next
    case False
    with fresh have "?T = {}" by simp
    then show ?thesis using acy unfolding tr(2) by (simp only: Sigma_empty2 Un_empty_right)
  qed
  then have sound2: "flag_sound ?g2"
    using sound unfolding flag_sound_def tr(5) rec(5) by blast
  from addNodeEdge_spec [OF wf2 _ _ sound2, of f r] f r tr(4) obtain b g3
    where g3: "addNodeEdge ?g2 f r = Some (b, g3)" "inserted ?g2 f r g3" by auto
  have "addRMWEdge_node g f r = Some g3"
    using g3(1) none by (simp add: addRMWEdge_node_def record_rmw_def [symmetric])
  moreover have "rmw_inserted g f r g3"
  proof -
    note ins = g3(2) [unfolded inserted_def tr(3,4,6) rec(3)]
    let ?R = "if cn_hasRMW (cg_heap g f) = None then insert (f, r) (rmw_rel (cg_heap g)) else rmw_rel (cg_heap g)"
    have sub: "cg_rel g \<union> {(f, r)} \<union> {r} \<times> ?T \<subseteq> cg_rel g3" using ins unfolding tr(2) by blast
    have "rmw_closed (cg_rel g3) ?R" if closed: "rmw_closed (cg_rel g) (rmw_rel (cg_heap g))"
    proof (rule rmw_closed_record [OF closed _ _ sub _ \<open>f \<noteq> r\<close>])
      show "r \<notin> Domain (rmw_rel (cg_heap g))" using none by auto
      have "?R \<subseteq> cg_rel g3" using closed sub by (auto simp: rmw_closed_def)
      then have reach: "(s, r) \<in> (cg_rel g3)\<^sup>*"
        if "(n, r) \<in> cg_rel g3 - cg_rel ?g2" "(n, s) \<in> ?R" for n s
        using ins that by blast
      fix n t assume new: "(n, t) \<in> cg_rel g3" "(n, t) \<notin> cg_rel g"
      show "n = r \<or> t = r \<and> (\<forall>s. (n, s) \<in> ?R \<longrightarrow> (s, r) \<in> (cg_rel g3)\<^sup>*)"
      proof (cases "(n, t) \<in> cg_rel ?g2")
        case True
        with new(2) show ?thesis unfolding tr(2) by blast
      next
        case False
        with new(1) ins have "t = r" by blast
        with False new(1) reach show ?thesis by blast
      qed
    qed simp
    moreover have "mo_change\<^sup>*\<^sup>* g g3" using chg ins by (blast intro: rtranclp_trans)
    ultimately show ?thesis
      unfolding rmw_inserted_def using sub ins tr(5) rec(5) by simp
  qed
  ultimately show ?thesis by blast
qed

end
