(* ===== verification/CycleRollback.thy ===== *)
theory CycleRollback
  imports CycleChange
begin

text \<open>
  \<open>rollbackChanges\<close> undoes what was logged since the last commit. It pops the logged nodes in
  the order of their insertion, not in reverse; removals commute, so the edges, the back edges and
  the read-modify-writes are those of the commit again.
\<close>

section \<open>Removal\<close>

lemma vector_remove_node_remove1 [simp]: "snd (vector_remove_node xs n) = remove1 n xs"
  by (induction xs) (auto split: prod.splits)

abbreviation pop_edge :: "cnode \<Rightarrow> cheap \<Rightarrow> cheap" where
  "pop_edge n h \<equiv> snd (CycleNode_removeEdge h n)"

lemma pop_edge_fields:
  "cn_edges (pop_edge n h x) = (if x = n then butlast (cn_edges (h n)) else cn_edges (h x))"
  "cn_back_edges (pop_edge n h x) =
     (if cn_edges (h n) \<noteq> [] \<and> x = last (cn_edges (h n)) then remove1 n (cn_back_edges (h x))
      else cn_back_edges (h x))"
  "cn_hasRMW (pop_edge n h x) = cn_hasRMW (h x)"
  "cn_action (pop_edge n h x) = cn_action (h x)"
  "cn_promise (pop_edge n h x) = cn_promise (h x)"
  by (simp_all add: CycleNode_removeEdge_def Let_def)

lemma clearRMW_fields:
  "cn_edges (CycleNode_clearRMW h n x) = cn_edges (h x)"
  "cn_back_edges (CycleNode_clearRMW h n x) = cn_back_edges (h x)"
  "cn_hasRMW (CycleNode_clearRMW h n x) = (if x = n then None else cn_hasRMW (h x))"
  "cn_action (CycleNode_clearRMW h n x) = cn_action (h x)"
  "cn_promise (CycleNode_clearRMW h n x) = cn_promise (h x)"
  by (simp_all add: CycleNode_clearRMW_def)

lemmas undo_fields = pop_edge_fields clearRMW_fields

lemma heap_eqI:
  fixes h h' :: cheap
  assumes "\<And>x. cn_edges (h x) = cn_edges (h' x)" "\<And>x. cn_back_edges (h x) = cn_back_edges (h' x)"
    "\<And>x. cn_hasRMW (h x) = cn_hasRMW (h' x)" "\<And>x. cn_action (h x) = cn_action (h' x)"
    "\<And>x. cn_promise (h x) = cn_promise (h' x)"
  shows "h = h'"
  by (rule ext, rule CycleNode.equality) (simp_all add: assms)

lemma pop_edge_commute: "pop_edge a (pop_edge b h) = pop_edge b (pop_edge a h)"
  by (cases "a = b") (auto intro!: heap_eqI simp: pop_edge_fields remove1_commute)

lemma clearRMW_commute:
  "CycleNode_clearRMW (CycleNode_clearRMW h a) b = CycleNode_clearRMW (CycleNode_clearRMW h b) a"
  by (auto intro!: heap_eqI simp: clearRMW_fields)

lemma clearRMW_pop_edge: "CycleNode_clearRMW (pop_edge n h) a = pop_edge n (CycleNode_clearRMW h a)"
  by (auto intro!: heap_eqI simp: undo_fields)

lemma pop_edge_inverse:
  assumes "heap_wf h k" and new: "m \<notin> set (cn_edges (h n))"
  shows "pop_edge n (snd (CycleNode_addEdge h n m)) = h"
proof -
  have "n \<notin> set (cn_back_edges (h m))" using heap_wf_mirror [OF assms(1), of m n] new by simp
  then show ?thesis
    by (intro heap_eqI) (simp_all add: pop_edge_fields addEdge_heap [of m h n, OF new] remove1_append)
qed

lemma clearRMW_inverse:
  "cn_hasRMW (h n) = None \<Longrightarrow> CycleNode_clearRMW (snd (CycleNode_setRMW h n r)) n = h"
  by (intro heap_eqI) (simp_all add: clearRMW_fields setRMW_heap [of h n])

section \<open>Undoing a log\<close>

definition undo :: "cnode list \<Rightarrow> cnode list \<Rightarrow> cheap \<Rightarrow> cheap" where
  "undo es rs h = fold (\<lambda>n h. CycleNode_clearRMW h n) rs (fold pop_edge es h)"

lemma rollbackChanges_undo:
  "rollbackChanges g =
     g\<lparr>cg_heap := undo (cg_rollbackvector g) (cg_rmwrollbackvector g) (cg_heap g),
       cg_hasCycles := cg_oldCycles g, cg_rollbackvector := [], cg_rmwrollbackvector := []\<rparr>"
  by (simp add: rollbackChanges_def undo_def Let_def)

lemma pop_edges_push: "fold pop_edge (es @ [n]) h = fold pop_edge es (pop_edge n h)"
  by (induction es arbitrary: h) (auto simp: pop_edge_commute)

lemma clearRMW_pop_edges:
  "CycleNode_clearRMW (fold pop_edge es h) n = fold pop_edge es (CycleNode_clearRMW h n)"
  by (induction es arbitrary: h) (auto simp: clearRMW_pop_edge)

lemma clearRMWs_push:
  "fold (\<lambda>n h. CycleNode_clearRMW h n) (rs @ [n]) h =
   fold (\<lambda>n h. CycleNode_clearRMW h n) rs (CycleNode_clearRMW h n)"
  by (induction rs arbitrary: h) (auto simp: clearRMW_commute)

lemma undo_push_edge: "undo (es @ [n]) rs h = undo es rs (pop_edge n h)"
  by (simp only: undo_def pop_edges_push)

lemma undo_push_rmw: "undo es (rs @ [n]) h = undo es rs (CycleNode_clearRMW h n)"
  by (simp only: undo_def clearRMWs_push clearRMW_pop_edges)

lemma pop_edge_shape: "same_shape h h' \<Longrightarrow> same_shape (pop_edge n h) (pop_edge n h')"
  by (simp add: same_shape_def pop_edge_fields)

lemma clearRMW_shape: "same_shape h h' \<Longrightarrow> same_shape (CycleNode_clearRMW h n) (CycleNode_clearRMW h' n)"
  by (simp add: same_shape_def clearRMW_fields)

lemma undo_shape:
  assumes "same_shape h h'"
  shows "same_shape (undo es rs h) (undo es rs h')"
proof -
  have "same_shape (fold pop_edge es h) (fold pop_edge es h')"
    using assms by (induction es arbitrary: h h') (auto intro: pop_edge_shape)
  then show ?thesis
    unfolding undo_def
    by (induction rs arbitrary: rule: rev_induct) (auto intro: clearRMW_shape)
qed

lemma undo_names:
  "cn_action (undo es rs h x) = cn_action (h x)" "cn_promise (undo es rs h x) = cn_promise (h x)"
proof -
  have "cn_action (fold pop_edge es h x) = cn_action (h x) \<and> cn_promise (fold pop_edge es h x) = cn_promise (h x)"
    by (induction es rule: rev_induct) (simp_all add: pop_edge_fields)
  then have "cn_action (undo es rs h x) = cn_action (h x) \<and> cn_promise (undo es rs h x) = cn_promise (h x)"
    unfolding undo_def by (induction rs rule: rev_induct) (simp_all add: clearRMW_fields)
  then show "cn_action (undo es rs h x) = cn_action (h x)" "cn_promise (undo es rs h x) = cn_promise (h x)"
    by simp_all
qed

text \<open>Every step keeps what a rollback leads to.\<close>

lemma mo_change_rollback:
  assumes "mo_change g g'" and "cg_wf g"
  shows "same_shape (cg_heap (rollbackChanges g)) (cg_heap (rollbackChanges g'))"
    and "cg_oldCycles g' = cg_oldCycles g"
proof -
  have "same_shape (cg_heap (rollbackChanges g)) (cg_heap (rollbackChanges g')) \<and>
        cg_oldCycles g' = cg_oldCycles g"
    using assms
  proof cases
    case (alloc x)
    then show ?thesis using undo_shape getNode_wf(2) [OF assms(2)] by (simp add: rollbackChanges_undo)
  next
    case (edge m n)
    have "heap_wf (cg_heap g) (cg_next g)" using assms(2) by (simp add: cg_wf_def)
    with edge show ?thesis by (simp add: rollbackChanges_undo undo_push_edge pop_edge_inverse)
  next
    case (rmw n r)
    then show ?thesis by (simp add: rollbackChanges_undo undo_push_rmw clearRMW_inverse)
  qed (simp add: rollbackChanges_undo)
  then show "same_shape (cg_heap (rollbackChanges g)) (cg_heap (rollbackChanges g'))"
    "cg_oldCycles g' = cg_oldCycles g" by simp_all
qed

lemma mo_changes_rollback:
  assumes "mo_change\<^sup>*\<^sup>* g g'" and "cg_wf g"
  shows "same_shape (cg_heap (rollbackChanges g)) (cg_heap (rollbackChanges g')) \<and>
         cg_oldCycles g' = cg_oldCycles g"
  using assms
proof (induction rule: rtranclp_induct)
  case (step g1 g2)
  have "cg_wf g1" using step.hyps(1) assms(2) by (rule mo_changes_wf)
  from mo_change_rollback [OF step.hyps(2) this] step.IH [OF assms(2)] show ?case
    by (auto intro: same_shape_trans)
qed simp

lemma heap_wf_shape:
  assumes wf: "heap_wf h k" and shape: "same_shape h h'" and "k \<le> k'"
    and blank: "\<And>x. k' \<le> x \<Longrightarrow> cn_action (h' x) = None \<and> cn_promise (h' x) = None"
  shows "heap_wf h' k'"
proof -
  have rels: "edge_rel h' = edge_rel h" "rmw_rel h' = rmw_rel h"
    using same_shape_rels [OF shape] by blast+
  have eq: "cn_edges (h' x) = cn_edges (h x)" "cn_back_edges (h' x) = cn_back_edges (h x)"
    "cn_hasRMW (h' x) = cn_hasRMW (h x)" for x
    using shape by (simp_all add: same_shape_def)
  show ?thesis
    unfolding heap_wf_def eq(1,2) rels
  proof (intro conjI allI impI)
    show "h' x = blank_CycleNode" if "k' \<le> x" for x
      using that heap_wf_blank [OF wf, of x] \<open>k \<le> k'\<close> blank [OF that]
      by (intro CycleNode.equality) (simp_all add: eq)
    show "set (cn_edges (h x)) \<subseteq> {..<k'}" for x
      using heap_wf_edge_bound(1) [OF wf, of _ x] \<open>k \<le> k'\<close> by fastforce
    show "rmw_rel h \<subseteq> {..<k'} \<times> {..<k'}"
      using heap_wf_rmw(1) [OF wf] \<open>k \<le> k'\<close> by fastforce
  qed (rule heap_wf_mirror [OF wf] heap_wf_distinct [OF wf] heap_wf_rmw(2) [OF wf])+
qed

lemma mo_changes_rollback_wf:
  assumes chg: "mo_change\<^sup>*\<^sup>* g g'" and wf: "cg_wf g" and undone: "cg_wf (rollbackChanges g)"
  shows "cg_wf (rollbackChanges g')"
proof -
  have wf': "cg_wf g'" using chg wf by (rule mo_changes_wf)
  have next_le: "cg_next g \<le> cg_next g'"
    using chg
  proof (induction rule: rtranclp_induct)
    case (step g1 g2)
    then show ?case using mo_change_next [of g1 g2] mo_changes_wf [OF step.hyps(1) wf] by simp
  qed simp
  have names: "cn_action (cg_heap (rollbackChanges g') x) = cn_action (cg_heap g' x)"
    "cn_promise (cg_heap (rollbackChanges g') x) = cn_promise (cg_heap g' x)" for x
    by (simp_all add: rollbackChanges_undo undo_names)
  have "heap_wf (cg_heap g') (cg_next g')" using wf' by (simp add: cg_wf_def)
  from heap_wf_blank [OF this]
  have blank: "cn_action (cg_heap (rollbackChanges g') x) = None \<and> cn_promise (cg_heap (rollbackChanges g') x) = None"
    if "cg_next g' \<le> x" for x
    using that by (simp add: names)
  have fields: "cg_next (rollbackChanges g') = cg_next g'" "cg_next (rollbackChanges g) = cg_next g"
    "cg_actionToNode (rollbackChanges g') = cg_actionToNode g'"
    "cg_promiseToNode (rollbackChanges g') = cg_promiseToNode g'"
    by (simp_all add: rollbackChanges_undo)
  have "heap_wf (cg_heap (rollbackChanges g)) (cg_next g)"
    using undone fields(2) by (simp add: cg_wf_def)
  then have "heap_wf (cg_heap (rollbackChanges g')) (cg_next g')"
    using heap_wf_shape mo_changes_rollback [OF chg wf] next_le blank by blast
  with wf' show ?thesis unfolding cg_wf_def fields names by blast
qed

section \<open>The client's view: additions, commits and rollbacks\<close>

text \<open>
  What holds of the graph between the operations, and after a rollback: the graph is well-formed,
  an unset flag means no cycle, read-modify-writes are atomic and read from one store each.
\<close>

definition mo_ok :: "CycleGraph \<Rightarrow> bool" where
  "mo_ok g \<longleftrightarrow> cg_wf g \<and> flag_sound g \<and> rmw_closed (cg_rel g) (rmw_rel (cg_heap g)) \<and>
     single_valued ((rmw_rel (cg_heap g))\<inverse>)"

definition mo_inv :: "CycleGraph \<Rightarrow> bool" where
  "mo_inv g \<longleftrightarrow> mo_ok g \<and> mo_ok (rollbackChanges g)"

text \<open>
  The condition under which the execution records a read-modify-write \<open>a\<close> that reads from
  \<open>x\<close>: it has not been recorded yet, nothing reads from it atomically yet, and one of the
  two is new in the graph.
\<close>

definition rmw_ready :: "CycleGraph \<Rightarrow> mo_obj \<Rightarrow> act_ref \<Rightarrow> bool" where
  "rmw_ready g x a \<longleftrightarrow> x \<noteq> MoAction a \<and>
     (case cg_actionToNode g a of None \<Rightarrow> True
      | Some r \<Rightarrow> cn_hasRMW (cg_heap g r) = None \<and> r \<notin> Range (rmw_rel (cg_heap g)) \<and>
          (cn_back_edges (cg_heap g r) = [] \<or>
           (case getNode_noCreate g x of None \<Rightarrow> True | Some f \<Rightarrow> cn_edges (cg_heap g f) = [])))"

inductive mo_step :: "CycleGraph \<Rightarrow> CycleGraph \<Rightarrow> bool" where
  add: "CycleGraph_addEdge g x y = Some (b, g') \<Longrightarrow> mo_step g g'"
| addRMW: "rmw_ready g x a \<Longrightarrow> addRMWEdge g x a = Some g' \<Longrightarrow> mo_step g g'"
| commit: "mo_step g (commitChanges g)"
| rollback: "mo_step g (rollbackChanges g)"

lemma mo_ok_shape:
  assumes "same_shape (cg_heap g) (cg_heap g')" "cg_hasCycles g' = cg_hasCycles g" "cg_wf g'" "mo_ok g"
  shows "mo_ok g'"
  using assms same_shape_rels [OF assms(1)] by (simp add: mo_ok_def flag_sound_def)

lemma mo_ok_getNode: "mo_ok g \<Longrightarrow> mo_ok (snd (getNode g x))"
  by (rule mo_ok_shape) (simp_all add: getNode_wf mo_ok_def)

text \<open>Steps do not disturb what a rollback restores.\<close>

lemma mo_inv_changes:
  assumes chg: "mo_change\<^sup>*\<^sup>* g g'" and inv: "mo_inv g" and ok: "mo_ok g'"
  shows "mo_inv g'"
proof -
  have wf: "cg_wf g" "cg_wf (rollbackChanges g)" using inv by (simp_all add: mo_inv_def mo_ok_def)
  have "mo_ok (rollbackChanges g')"
  proof (rule mo_ok_shape)
    show "same_shape (cg_heap (rollbackChanges g)) (cg_heap (rollbackChanges g'))"
      using mo_changes_rollback [OF chg wf(1)] by blast
    show "cg_hasCycles (rollbackChanges g') = cg_hasCycles (rollbackChanges g)"
      using mo_changes_rollback [OF chg wf(1)] by (simp add: rollbackChanges_undo)
    show "cg_wf (rollbackChanges g')" using chg wf by (rule mo_changes_rollback_wf)
    show "mo_ok (rollbackChanges g)" using inv by (simp add: mo_inv_def)
  qed
  with ok show ?thesis by (simp add: mo_inv_def)
qed

lemma getNode_two:
  assumes "mo_ok g" and get: "getNode g x = (f, g1)" "getNode g1 y = (t, g2)"
  shows "mo_ok g2" and "mo_change\<^sup>*\<^sup>* g g2" and "f < cg_next g2" and "t < cg_next g2"
    and "getNode_noCreate g2 x = Some f" and "getNode_noCreate g2 y = Some t"
    and "same_shape (cg_heap g) (cg_heap g2)" and "cg_hasCycles g2 = cg_hasCycles g"
proof -
  have eq: "g1 = snd (getNode g x)" "f = fst (getNode g x)"
    "g2 = snd (getNode g1 y)" "t = fst (getNode g1 y)" using get by simp_all
  have ok1: "mo_ok g1" unfolding eq(1) using assms(1) by (rule mo_ok_getNode)
  then show ok: "mo_ok g2" unfolding eq(3) by (rule mo_ok_getNode)
  have "mo_change g g1" "mo_change g1 g2" unfolding eq(1,3) by (rule mo_change.alloc)+
  then show "mo_change\<^sup>*\<^sup>* g g2" by simp
  have wf: "cg_wf g" "cg_wf g1" using assms(1) ok1 by (simp_all add: mo_ok_def)
  show "f < cg_next g2" "t < cg_next g2"
    using getNode_bounds [OF wf(1), of x] getNode_bounds [OF wf(2), of y] eq by simp_all
  show "getNode_noCreate g2 y = Some t" unfolding eq(3,4) by (rule getNode_lookup_same)
  show "getNode_noCreate g2 x = Some f"
    unfolding eq(3) by (rule getNode_lookup_other) (simp only: eq(1,2) getNode_lookup_same)
  show "same_shape (cg_heap g) (cg_heap g2)"
    using getNode_wf(2) [OF wf(1), of x] getNode_wf(2) [OF wf(2), of y] eq
    by (auto intro: same_shape_trans)
  show "cg_hasCycles g2 = cg_hasCycles g" using eq by simp
qed

lemma addEdge_spec:
  assumes ok: "mo_ok g"
  shows "\<exists>g' f t. CycleGraph_addEdge g x y = Some ((f, t) \<notin> cg_rel g, g') \<and> mo_ok g' \<and> mo_change\<^sup>*\<^sup>* g g' \<and>
           getNode_noCreate g' x = Some f \<and> getNode_noCreate g' y = Some t \<and>
           insert (f, t) (cg_rel g) \<subseteq> cg_rel g' \<and> rmw_rel (cg_heap g') = rmw_rel (cg_heap g) \<and>
           (cg_hasCycles g' \<longleftrightarrow> cg_hasCycles g \<or> \<not> acyclic (cg_rel g'))"
proof -
  obtain f g1 t g2 where get: "getNode g x = (f, g1)" "getNode g1 y = (t, g2)"
    by (meson surj_pair)
  note two = getNode_two [OF ok get]
  note rels = same_shape_rels [OF two(7)]
  from addNodeEdge_spec [of g2 f t] two(1,3,4) obtain g'
    where g': "addNodeEdge g2 f t = Some ((f, t) \<notin> cg_rel g2, g')" and ins: "inserted g2 f t g'"
    by (auto simp: mo_ok_def)
  have "CycleGraph_addEdge g x y = Some ((f, t) \<notin> cg_rel g, g')"
    using g' rels by (simp add: CycleGraph_addEdge_def get)
  moreover have "mo_change\<^sup>*\<^sup>* g2 g'" using ins by (simp add: inserted_def)
  moreover from this two(2) have "mo_change\<^sup>*\<^sup>* g g'" by simp
  moreover have "mo_ok g'"
    using inserted_closed [OF ins] ins two(1) mo_changes_wf [of g2 g']
    by (simp add: mo_ok_def inserted_def)
  ultimately show ?thesis
    using ins two(5,6,8) rels unfolding inserted_def by (intro exI [of _ g'] exI [of _ f] exI [of _ t]) simp
qed

lemma rmw_ready_nodes:
  assumes ready: "rmw_ready g x a" and ok: "mo_ok g"
    and get: "getNode g x = (f, g1)" "getNode g1 (MoAction a) = (r, g2)"
  shows "f \<noteq> r" and "cn_hasRMW (cg_heap g2 r) = None" and "r \<notin> Range (rmw_rel (cg_heap g2))"
    and "cn_back_edges (cg_heap g2 r) = [] \<or> cn_edges (cg_heap g2 f) = []"
proof -
  note two = getNode_two [OF ok get]
  have eq: "cn_edges (cg_heap g2 n) = cn_edges (cg_heap g n)"
    "cn_back_edges (cg_heap g2 n) = cn_back_edges (cg_heap g n)"
    "cn_hasRMW (cg_heap g2 n) = cn_hasRMW (cg_heap g n)" for n
    using two(7) by (simp_all add: same_shape_def)
  have rmw: "rmw_rel (cg_heap g2) = rmw_rel (cg_heap g)" using same_shape_rels [OF two(7)] by simp
  have wf: "cg_wf g2" "cg_wf g" using two(1) ok by (simp_all add: mo_ok_def)
  have hwf: "heap_wf (cg_heap g) (cg_next g)" using wf(2) by (simp add: cg_wf_def)
  have "node_names (cg_heap g2 f) x" "node_names (cg_heap g2 r) (MoAction a)"
    using two(5,6) wf(1) unfolding cg_wf_iff by blast+
  moreover have "x \<noteq> MoAction a" using ready by (simp add: rmw_ready_def)
  ultimately show "f \<noteq> r" by (cases x) auto
  have blank: "cg_heap g n = blank_CycleNode" "n \<notin> Range (rmw_rel (cg_heap g))" if "cg_next g \<le> n" for n
    using heap_wf_blank [OF hwf that] heap_wf_rmw(1) [OF hwf] that by (auto simp del: rmw_rel_iff)
  have g1: "g1 = snd (getNode g x)" and r: "r = fst (getNode g1 (MoAction a))" using get by simp_all
  have f: "f = cg_next g" if "getNode_noCreate g x = None" using getNode_new(1) [OF that] get by simp
  have "cn_hasRMW (cg_heap g r) = None \<and> r \<notin> Range (rmw_rel (cg_heap g)) \<and>
        (cn_back_edges (cg_heap g r) = [] \<or> cn_edges (cg_heap g f) = [])"
  proof (cases "getNode_noCreate g (MoAction a)")
    case None
    then have "getNode_noCreate g1 (MoAction a) = None"
      using \<open>x \<noteq> MoAction a\<close> getNode_new(4) [of g x "MoAction a"] getNode_found [of g x]
      unfolding g1 by (cases "getNode_noCreate g x") auto
    then have "r = cg_next g1" unfolding r by (rule getNode_new(1))
    then have "cg_next g \<le> r" using getNode_bounds(2) [OF wf(2), of x] g1 by simp
    with blank show ?thesis by simp
  next
    case (Some r0)
    have "r = r0" using getNode_lookup_other [OF Some, of x] getNode_found [of g1 "MoAction a"] g1 r by simp
    with ready Some f blank(1) [of f] getNode_found [of g x] get(1) show ?thesis
      by (auto simp: rmw_ready_def split: option.splits)
  qed
  then show "cn_hasRMW (cg_heap g2 r) = None" "r \<notin> Range (rmw_rel (cg_heap g2))"
    "cn_back_edges (cg_heap g2 r) = [] \<or> cn_edges (cg_heap g2 f) = []"
    unfolding eq rmw by blast+
qed

lemma addRMWEdge_spec:
  assumes ok: "mo_ok g" and ready: "rmw_ready g x a"
  shows "\<exists>g' f r. addRMWEdge g x a = Some g' \<and> mo_ok g' \<and> mo_change\<^sup>*\<^sup>* g g' \<and>
           getNode_noCreate g' x = Some f \<and> cg_actionToNode g' a = Some r \<and>
           insert (f, r) (cg_rel g) \<subseteq> cg_rel g' \<and>
           cn_hasRMW (cg_heap g' f) = (case cn_hasRMW (cg_heap g f) of None \<Rightarrow> Some r | Some r' \<Rightarrow> Some r') \<and>
           (cg_hasCycles g' \<longleftrightarrow>
              cg_hasCycles g \<or> cn_hasRMW (cg_heap g f) \<noteq> None \<or> \<not> acyclic (cg_rel g'))"
proof -
  obtain f g1 r g2 where get: "getNode g x = (f, g1)" "getNode g1 (MoAction a) = (r, g2)"
    by (meson surj_pair)
  note two = getNode_two [OF ok get] and nodes = rmw_ready_nodes [OF ready ok get]
  note rels = same_shape_rels [OF two(7)]
  have rmw: "cn_hasRMW (cg_heap g2 f) = cn_hasRMW (cg_heap g f)"
    using two(7) by (simp add: same_shape_def)
  have ok2: "cg_wf g2" "flag_sound g2" "rmw_closed (cg_rel g2) (rmw_rel (cg_heap g2))"
    "single_valued ((rmw_rel (cg_heap g2))\<inverse>)" using two(1) by (simp_all add: mo_ok_def)
  from addRMWEdge_node_spec [OF ok2(1) two(3,4) nodes(1,2) ok2(2) nodes(4)] obtain g'
    where g': "addRMWEdge_node g2 f r = Some g'" and ins: "rmw_inserted g2 f r g'" by blast
  have chg: "mo_change\<^sup>*\<^sup>* g2 g'" using ins by (simp add: rmw_inserted_def)
  have rel': "rmw_rel (cg_heap g') =
      (if cn_hasRMW (cg_heap g2 f) = None then insert (f, r) (rmw_rel (cg_heap g2)) else rmw_rel (cg_heap g2))"
    using ins by (simp add: rmw_inserted_def)
  have look: "getNode_noCreate g' z = getNode_noCreate g2 z" for z
    using ins by (simp add: rmw_inserted_def)
  show ?thesis
  proof (intro exI conjI)
    show "addRMWEdge g x a = Some g'" using g' get by (simp add: addRMWEdge_def)
    show "mo_change\<^sup>*\<^sup>* g g'" using two(2) chg by simp
    have "single_valued ((rmw_rel (cg_heap g'))\<inverse>)"
      using ok2(4) nodes(3) unfolding rel' by (auto simp: single_valued_def)
    then show "mo_ok g'"
      using ins ok2(3) mo_changes_wf [OF chg ok2(1)] unfolding mo_ok_def rmw_inserted_def by blast
    show "getNode_noCreate g' x = Some f" using two(5) look [of x] by simp
    show "cg_actionToNode g' a = Some r" using two(6) look [of "MoAction a"] by simp
    show "insert (f, r) (cg_rel g) \<subseteq> cg_rel g'"
      using ins rels unfolding rmw_inserted_def by blast
    show "cg_hasCycles g' \<longleftrightarrow>
        cg_hasCycles g \<or> cn_hasRMW (cg_heap g f) \<noteq> None \<or> \<not> acyclic (cg_rel g')"
      using ins two(8) rmw unfolding rmw_inserted_def by metis
    show "cn_hasRMW (cg_heap g' f) =
        (case cn_hasRMW (cg_heap g f) of None \<Rightarrow> Some r | Some r' \<Rightarrow> Some r')"
    proof (cases "cn_hasRMW (cg_heap g f)")
      case None
      have "(f, r) \<in> rmw_rel (cg_heap g')" unfolding rel' by (simp add: rmw None)
      with None show ?thesis by simp
    next
      case (Some r')
      have "(f, r') \<in> rmw_rel (cg_heap g')" unfolding rel' by (simp add: rmw Some)
      with Some show ?thesis by simp
    qed
  qed
qed

end
