(* ===== verification/CycleOrder.thy ===== *)
theory CycleOrder
  imports CycleRollback
begin

text \<open>
  What the modification-order graph is for: as long as \<open>hasCycles\<close> is not set, the recorded
  constraints can be met by a total order of the stores in which every read-modify-write directly
  follows the store it reads from. The invariant \<open>mo_inv\<close> holds in every state a client can
  reach by adding edges, committing and rolling back, without resolving a promise; the last section
  shows what a failed \<open>resolvePromise\<close> may leave behind.
\<close>


section \<open>Linear extensions\<close>

lemma topological_numbering:
  assumes "finite V" and "acyclic P" and "finite P"
  shows "\<exists>f :: 'a \<Rightarrow> nat. inj_on f V \<and> (\<forall>x\<in>V. \<forall>y\<in>V. (x, y) \<in> P \<longrightarrow> f x < f y)"
  using assms(1)
proof (induction V rule: finite_psubset_induct)
  case (psubset V)
  show ?case
  proof (cases "V = {}")
    case False
    have "wf (P\<inverse>)" using assms(2,3) by (rule finite_acyclic_wf_converse [rotated])
    with False obtain m where m: "m \<in> V" "\<And>y. (m, y) \<in> P \<Longrightarrow> y \<notin> V"
      using wfE_min [of "P\<inverse>" _ V] by (metis converse_iff equals0I)
    from psubset.IH [of "V - {m}"] m(1) obtain f :: "'a \<Rightarrow> nat"
      where f: "inj_on f (V - {m})" "\<And>x y. x \<in> V - {m} \<Longrightarrow> y \<in> V - {m} \<Longrightarrow> (x, y) \<in> P \<Longrightarrow> f x < f y"
      by blast
    let ?f = "f(m := Suc (\<Sum>x \<in> V - {m}. f x))"
    have less: "?f x < ?f m" if "x \<in> V - {m}" for x
      using that psubset.hyps member_le_sum [of x "V - {m}" f] by (simp add: less_Suc_eq_le)
    have "inj_on ?f V"
    proof (rule inj_onI)
      fix x y assume "x \<in> V" "y \<in> V" "?f x = ?f y"
      with less [of x] less [of y] f(1) show "x = y"
        by (cases "x = m"; cases "y = m") (auto dest: inj_onD)
    qed
    moreover have "?f x < ?f y" if "x \<in> V" "y \<in> V" "(x, y) \<in> P" for x y
    proof (cases "y = m")
      case True
      have "x \<noteq> m" using that m(2) by blast
      with True less that show ?thesis by blast
    next
      case False
      have "x \<noteq> m" using that m(2) by blast
      with False f(2) that show ?thesis by simp
    qed
    ultimately show ?thesis by blast
  qed simp
qed

section \<open>Chains of read-modify-writes\<close>

text \<open>Two nodes are linked when one is on the chain of read-modify-writes of the other.\<close>

definition linked :: "('a \<times> 'a) set \<Rightarrow> 'a \<Rightarrow> 'a \<Rightarrow> bool" where
  "linked R x y \<longleftrightarrow> (x, y) \<in> R\<^sup>* \<or> (y, x) \<in> R\<^sup>*"

lemma linked_refl [simp]: "linked R x x"
  by (simp add: linked_def)

lemma linked_sym: "linked R x y \<longleftrightarrow> linked R y x"
  by (auto simp: linked_def)

lemma linked_trans:
  assumes "single_valued R" "single_valued (R\<inverse>)" "linked R x y" "linked R y z"
  shows "linked R x z"
  using assms single_valued_confluent [OF assms(1), of y x z]
    single_valued_confluent [OF assms(2), of y x z]
  unfolding linked_def rtrancl_converse converse_iff by (meson rtrancl_trans)

lemma closed_chain_reach:
  assumes closed: "rmw_closed E R" and "(x, y) \<in> E\<^sup>+" and "\<not> linked R x y" and "(x, x') \<in> R\<^sup>*"
  shows "(x', y) \<in> E\<^sup>+"
  using assms(4)
proof (induction rule: rtrancl_induct)
  case base
  then show ?case by (rule assms(2))
next
  case (step x' r)
  from step.IH obtain z where z: "(x', z) \<in> E" "(z, y) \<in> E\<^sup>*" by (meson tranclD)
  with step.hyps(2) closed have "(r, z) \<in> E\<^sup>*" by (auto simp: rmw_closed_def)
  with z(2) have "(r, y) \<in> E\<^sup>*" by (rule rtrancl_trans [rotated])
  moreover have "r \<noteq> y" using assms(3) step.hyps by (auto simp: linked_def intro: rtrancl_into_rtrancl)
  ultimately show ?case by (meson rtranclD)
qed

lemma closed_linked_reach:
  assumes closed: "rmw_closed E R" and "(x, y) \<in> E\<^sup>+" and "\<not> linked R x y" and "linked R x x'"
  shows "(x', y) \<in> E\<^sup>+"
proof (cases "(x, x') \<in> R\<^sup>*")
  case True
  with closed_chain_reach assms show ?thesis by metis
next
  case False
  with assms(4) have "(x', x) \<in> R\<^sup>*" by (simp add: linked_def)
  moreover have "R\<^sup>* \<subseteq> E\<^sup>*" using closed by (intro rtrancl_mono) (simp add: rmw_closed_def)
  ultimately show ?thesis using assms(2) by (blast intro: rtrancl_trancl_trancl)
qed

text \<open>The order between chains.\<close>

definition chain_less :: "(cnode \<times> cnode) set \<Rightarrow> (cnode \<times> cnode) set \<Rightarrow> nat \<Rightarrow> nat \<Rightarrow> bool" where
  "chain_less E R x y \<longleftrightarrow> \<not> linked R x y \<and> (\<exists>y'. linked R y y' \<and> (x, y') \<in> E\<^sup>+)"

lemma chain_less_linked:
  assumes closed: "rmw_closed E R" and sv: "single_valued R" "single_valued (R\<inverse>)"
    and "chain_less E R x y" "linked R x x'" "linked R y y'"
  shows "chain_less E R x' y'"
proof -
  note tr = linked_trans [OF sv]
  from assms(4) obtain z where z: "\<not> linked R x y" "linked R y z" "(x, z) \<in> E\<^sup>+"
    by (auto simp: chain_less_def)
  have "\<not> linked R x z" using z tr linked_sym by metis
  with closed_linked_reach [OF closed z(3)] assms(5) have "(x', z) \<in> E\<^sup>+" by blast
  moreover have "linked R y' z" "\<not> linked R x' y'" using z assms(5,6) tr linked_sym by metis+
  ultimately show ?thesis by (auto simp: chain_less_def)
qed

lemma chain_less_trans:
  assumes closed: "rmw_closed E R" and sv: "single_valued R" "single_valued (R\<inverse>)"
    and acy: "acyclic E" and "chain_less E R x y" "chain_less E R y z"
  shows "chain_less E R x z"
proof -
  note tr = linked_trans [OF sv]
  from assms(5,6) obtain y' z' where 1: "\<not> linked R x y" "linked R y y'" "(x, y') \<in> E\<^sup>+"
    and 2: "\<not> linked R y z" "linked R z z'" "(y, z') \<in> E\<^sup>+"
    by (auto simp: chain_less_def)
  have "\<not> linked R y z'" using 2 tr linked_sym by metis
  with closed_linked_reach [OF closed 2(3)] 1(2) have yz: "(y', z') \<in> E\<^sup>+" by blast
  have "\<not> linked R x z"
  proof
    assume "linked R x z"
    then have "linked R x z'" using 2(2) tr by blast
    moreover have "\<not> linked R x y'" using 1 tr linked_sym by metis
    ultimately have "(z', y') \<in> E\<^sup>+" using closed_linked_reach [OF closed 1(3)] by blast
    then have "(z', z') \<in> E\<^sup>+" using yz by (rule trancl_trans)
    with acy show False by (simp add: acyclic_def)
  qed
  with 1(3) yz 2(2) show ?thesis by (auto simp: chain_less_def)
qed

text \<open>A chain is named by its least node.\<close>

definition chain_rep :: "(cnode \<times> cnode) set \<Rightarrow> nat \<Rightarrow> nat" where
  "chain_rep R x = (LEAST y. linked R x y)"

lemma chain_rep_linked: "linked R x (chain_rep R x)"
  unfolding chain_rep_def by (rule LeastI [of _ x]) simp

lemma chain_rep_eq:
  assumes sv: "single_valued R" "single_valued (R\<inverse>)"
  shows "chain_rep R x = chain_rep R y \<longleftrightarrow> linked R x y"
proof
  note tr = linked_trans [OF sv]
  show "linked R x y" if "chain_rep R x = chain_rep R y"
    using chain_rep_linked [of R x] chain_rep_linked [of R y] that tr linked_sym by metis
  show "chain_rep R x = chain_rep R y" if "linked R x y"
  proof -
    have "linked R x z \<longleftrightarrow> linked R y z" for z using that tr linked_sym by metis
    then show ?thesis by (simp add: chain_rep_def)
  qed
qed

text \<open>
  A graph whose flag is clear has a total order of its nodes that respects all edges and in which
  every read-modify-write directly follows the store it reads from.
\<close>

definition modification_order :: "nat set \<Rightarrow> (cnode \<times> cnode) set \<Rightarrow> (cnode \<times> cnode) set \<Rightarrow> (cnode \<times> cnode) set \<Rightarrow> bool" where
  "modification_order V E R L \<longleftrightarrow>
     trans L \<and> irrefl L \<and> total_on V L \<and> E \<subseteq> L \<and>
     (\<forall>n r. (n, r) \<in> R \<longrightarrow> \<not> (\<exists>z. (n, z) \<in> L \<and> (z, r) \<in> L))"

lemma modification_order_exists:
  assumes closed: "rmw_closed E R" and sv: "single_valued R" "single_valued (R\<inverse>)"
    and acy: "acyclic E" and V: "finite V" "E \<subseteq> V \<times> V"
  shows "\<exists>L. modification_order V E R L"
proof -
  let ?rep = "chain_rep R"
  note rep = chain_rep_linked [of R] and rep_eq = chain_rep_eq [OF sv]
  let ?V = "?rep ` V"
  define P where "P = {(x, y). x \<in> ?V \<and> y \<in> ?V \<and> chain_less E R x y}"
  have "finite P" using V(1) by (auto simp: P_def intro: finite_subset [of _ "?V \<times> ?V"])
  moreover have "trans P" unfolding P_def by (auto intro!: transI intro: chain_less_trans [OF closed sv acy])
  then have "acyclic P" by (auto simp: acyclic_def P_def chain_less_def)
  ultimately obtain f :: "nat \<Rightarrow> nat" where f: "inj_on f ?V"
      "\<And>x y. x \<in> ?V \<Longrightarrow> y \<in> ?V \<Longrightarrow> (x, y) \<in> P \<Longrightarrow> f x < f y"
    using topological_numbering [of ?V P] V(1) by blast
  define L where "L = {(x, y). x \<in> V \<and> y \<in> V \<and> (f (?rep x) < f (?rep y) \<or> ?rep x = ?rep y \<and> (x, y) \<in> R\<^sup>+)}"
  have RE: "R\<^sup>+ \<subseteq> E\<^sup>+" using closed by (intro trancl_mono_subset) (simp add: rmw_closed_def)
  then have acyR: "(x, x) \<notin> R\<^sup>+" for x using acy by (auto simp: acyclic_def)
  have "trans L" unfolding L_def by (auto intro!: transI intro: trancl_trans)
  moreover have "irrefl L" using acyR by (auto simp: L_def irrefl_def)
  moreover have "total_on V L"
  proof (rule total_onI)
    fix x y assume xy: "x \<in> V" "y \<in> V" "x \<noteq> y"
    show "(x, y) \<in> L \<or> (y, x) \<in> L"
    proof (cases "?rep x = ?rep y")
      case True
      then have "(x, y) \<in> R\<^sup>* \<or> (y, x) \<in> R\<^sup>*" using rep_eq by (simp add: linked_def)
      with xy True show ?thesis by (auto simp: L_def dest: rtranclD)
    next
      case False
      with f(1) xy have "f (?rep x) \<noteq> f (?rep y)" by (auto dest: inj_onD)
      with xy show ?thesis by (auto simp: L_def)
    qed
  qed
  moreover have "(x, y) \<in> L" if E: "(x, y) \<in> E" for x y
  proof (cases "linked R x y")
    case True
    have "x \<noteq> y" "(y, x) \<notin> R\<^sup>+" using E RE acy by (auto simp: acyclic_def intro: trancl_into_trancl2)
    with True have "(x, y) \<in> R\<^sup>+" by (auto simp: linked_def dest: rtranclD)
    with True V(2) E rep_eq show ?thesis by (auto simp: L_def)
  next
    case False
    with E have "chain_less E R x y" by (auto simp: chain_less_def intro: exI [of _ y])
    then have "chain_less E R (?rep x) (?rep y)" using chain_less_linked [OF closed sv] rep by blast
    with f(2) V(2) E show ?thesis by (auto simp: L_def P_def)
  qed
  moreover have "\<not> (\<exists>z. (n, z) \<in> L \<and> (z, r) \<in> L)" if R: "(n, r) \<in> R" for n r
  proof (rule notI, elim exE conjE)
    fix z assume "(n, z) \<in> L" "(z, r) \<in> L"
    moreover have "?rep n = ?rep r" using R rep_eq by (auto simp: linked_def)
    ultimately have z: "(n, z) \<in> R\<^sup>+" "(z, r) \<in> R\<^sup>+" by (auto simp: L_def)
    from z(1) R sv(1) have "(r, z) \<in> R\<^sup>*" by (metis single_valuedD tranclD)
    with z(2) acyR show False by (meson rtrancl_trancl_trancl)
  qed
  ultimately show ?thesis by (auto simp: modification_order_def)
qed

section \<open>States of the client\<close>

lemma mo_inv_new: "mo_inv new_CycleGraph"
proof -
  have "rmw_rel (cg_heap new_CycleGraph) = {}" "rollbackChanges new_CycleGraph = new_CycleGraph"
    by (auto simp: new_CycleGraph_def rmw_rel_def rollbackChanges_def)
  then show ?thesis by (simp add: mo_inv_def mo_ok_def rmw_closed_def single_valued_def)
qed

lemma mo_ok_heap: "mo_ok (g\<lparr>cg_rollbackvector := a, cg_rmwrollbackvector := b, cg_oldCycles := c\<rparr>) \<longleftrightarrow> mo_ok g"
  by (simp add: mo_ok_def cg_wf_def flag_sound_def)

lemma mo_step_inv: "mo_step g g' \<Longrightarrow> mo_inv g \<Longrightarrow> mo_inv g'"
proof (induction rule: mo_step.induct)
  case (add g x y b g')
  from addEdge_spec [of g x y] add obtain g1 where "CycleGraph_addEdge g x y = Some (b, g1)" "mo_ok g1"
    "mo_change\<^sup>*\<^sup>* g g1" by (auto simp: mo_inv_def)
  with add mo_inv_changes show ?case by auto
next
  case (addRMW g x a g')
  from addRMWEdge_spec [of g x a] addRMW obtain g1 where "addRMWEdge g x a = Some g1" "mo_ok g1"
    "mo_change\<^sup>*\<^sup>* g g1" by (auto simp: mo_inv_def)
  with addRMW mo_inv_changes show ?case by auto
next
  case (commit g)
  have eq: "rollbackChanges (commitChanges g) = commitChanges g"
    by (simp add: rollbackChanges_undo undo_def commitChanges_def)
  from commit have "mo_ok (commitChanges g)" by (simp add: mo_inv_def commitChanges_def mo_ok_heap)
  then show ?case by (simp add: mo_inv_def eq)
next
  case (rollback g)
  have eq: "rollbackChanges (rollbackChanges g) = rollbackChanges g"
    by (simp add: rollbackChanges_undo undo_def)
  from rollback show ?case by (simp add: mo_inv_def eq)
qed

lemma mo_steps_inv: "mo_step\<^sup>*\<^sup>* new_CycleGraph g \<Longrightarrow> mo_inv g"
  by (induction rule: rtranclp_induct) (auto intro: mo_inv_new mo_step_inv)

lemma mo_inv_order:
  assumes "mo_inv g" and "\<not> checkForCycles g"
  shows "\<exists>L. modification_order {..<cg_next g} (cg_rel g) (rmw_rel (cg_heap g)) L"
proof (rule modification_order_exists)
  have ok: "mo_ok g" using assms(1) by (simp add: mo_inv_def)
  then show "rmw_closed (cg_rel g) (rmw_rel (cg_heap g))" "single_valued ((rmw_rel (cg_heap g))\<inverse>)"
    "acyclic (cg_rel g)"
    using assms(2) by (simp_all add: mo_ok_def flag_sound_def checkForCycles_def)
  show "single_valued (rmw_rel (cg_heap g))" by (auto simp: single_valued_def)
  have "heap_wf (cg_heap g) (cg_next g)" using ok by (simp add: mo_ok_def cg_wf_def)
  from heap_wf_edge_bound [OF this] show "cg_rel g \<subseteq> {..<cg_next g} \<times> {..<cg_next g}"
    by (auto simp: edge_rel_def)
qed simp

text \<open>The additions between a commit and a rollback.\<close>

inductive mo_addition :: "CycleGraph \<Rightarrow> CycleGraph \<Rightarrow> bool" where
  add: "CycleGraph_addEdge g x y = Some (b, g') \<Longrightarrow> mo_addition g g'"
| addRMW: "rmw_ready g x a \<Longrightarrow> addRMWEdge g x a = Some g' \<Longrightarrow> mo_addition g g'"

lemma mo_addition_changes:
  assumes "mo_addition g g'" and "mo_inv g"
  shows "mo_change\<^sup>*\<^sup>* g g'" and "mo_inv g'"
proof -
  have ok: "mo_ok g" using assms(2) by (simp add: mo_inv_def)
  show "mo_change\<^sup>*\<^sup>* g g'"
    using assms(1)
  proof cases
    case (add x y b)
    with addEdge_spec [OF ok, of x y] show ?thesis by auto
  next
    case (addRMW x a)
    with addRMWEdge_spec [OF ok, of x a] show ?thesis by auto
  qed
  show "mo_inv g'"
    using assms(1)
  proof cases
    case (add x y b)
    then show ?thesis using mo_step_inv [OF mo_step.add] assms(2) by blast
  next
    case (addRMW x a)
    then show ?thesis using mo_step_inv [OF mo_step.addRMW] assms(2) by blast
  qed
qed

lemma mo_additions_changes:
  assumes "mo_addition\<^sup>*\<^sup>* g g'" and "mo_inv g"
  shows "mo_change\<^sup>*\<^sup>* g g'"
proof -
  have "mo_change\<^sup>*\<^sup>* g g' \<and> mo_inv g'"
    using assms(1)
  proof (induction rule: rtranclp_induct)
    case (step g1 g2)
    then show ?case using mo_addition_changes [of g1 g2] by auto
  qed (simp add: assms(2))
  then show ?thesis by blast
qed

section \<open>An example state\<close>

text \<open>Two stores, one ordered before the other, and a read-modify-write that reads from the first.\<close>

definition example_addEdge :: "(bool \<times> CycleGraph) option" where
  "example_addEdge = CycleGraph_addEdge new_CycleGraph (MoAction 0) (MoAction 1)"

definition example_addRMWEdge :: "CycleGraph option" where
  "example_addRMWEdge = Option.bind example_addEdge (\<lambda>(b, g). addRMWEdge g (MoAction 0) 2)"

lemma example_facts:
  "map_option (\<lambda>(b, g). (b, cg_hasCycles g, cg_actionToNode g 2)) example_addEdge = Some (True, False, None)"
  "map_option (\<lambda>g. (cg_hasCycles g, cg_next g, map (\<lambda>n. cn_edges (cg_heap g n)) [0, 1, 2], cn_hasRMW (cg_heap g 0),
        cg_actionToNode g 9, cg_actionToNode g 0)) example_addRMWEdge =
     Some (False, 3, [[1, 2], [], [1]], Some 2, None, Some 0)"
  by code_simp+

lemma example_graph:
  obtains g where "mo_step\<^sup>*\<^sup>* new_CycleGraph g" and "\<not> checkForCycles g" and "cg_next g = 3"
    and "cn_edges (cg_heap g 0) = [1, 2]" and "cn_edges (cg_heap g 2) = [1]" and "cn_hasRMW (cg_heap g 0) = Some 2"
    and "cg_actionToNode g 9 = None" and "cg_actionToNode g 0 = Some 0"
proof -
  obtain b g1 where g1: "example_addEdge = Some (b, g1)" "cg_actionToNode g1 2 = None"
    using example_facts(1) by (auto simp: map_option_case split: option.splits)
  obtain g where g: "example_addRMWEdge = Some g" "\<not> cg_hasCycles g" "cg_next g = 3"
      "cn_edges (cg_heap g 0) = [1, 2]" "cn_edges (cg_heap g 2) = [1]" "cn_hasRMW (cg_heap g 0) = Some 2" "cg_actionToNode g 9 = None"
      "cg_actionToNode g 0 = Some 0"
    using example_facts(2) by (auto simp: map_option_case split: option.splits)
  have "mo_step new_CycleGraph g1" using g1(1) by (auto simp: example_addEdge_def intro: mo_step.add)
  moreover have "mo_step g1 g"
  proof (rule mo_step.addRMW)
    show "rmw_ready g1 (MoAction 0) 2" using g1(2) by (simp add: rmw_ready_def)
    show "addRMWEdge g1 (MoAction 0) 2 = Some g" using g(1) unfolding example_addRMWEdge_def g1(1) by simp
  qed
  ultimately have "mo_step\<^sup>*\<^sup>* new_CycleGraph g" by simp
  with g show ?thesis by (intro that) (simp_all add: checkForCycles_def)
qed

section \<open>Properties\<close>

text \<open>
  (C1) As long as \<open>checkForCycles\<close> answers no, in every state a client can reach from the empty
  graph by adding edges, adding read-modify-writes that are \<open>rmw_ready\<close>, committing and rolling back,
  without resolving a promise, there is a modification order: a total order of all nodes that
  respects every edge of the graph and in which nothing stands between a store and the
  read-modify-write that reads from it.
\<close>

theorem acyclic_graph_has_modification_order:
  assumes "mo_step\<^sup>*\<^sup>* new_CycleGraph g" and "\<not> checkForCycles g"
  shows "\<exists>L. modification_order {..<cg_next g} (cg_rel g) (rmw_rel (cg_heap g)) L"
  using mo_inv_order [OF mo_steps_inv [OF assms(1)] assms(2)] .

theorem acyclic_graph_has_modification_order_witness:
  "\<exists>g L. (0, 2) \<in> rmw_rel (cg_heap g) \<and> (0, 1) \<in> cg_rel g \<and>
     modification_order {..<3} (cg_rel g) (rmw_rel (cg_heap g)) L"
proof -
  obtain g where g: "mo_step\<^sup>*\<^sup>* new_CycleGraph g" "\<not> checkForCycles g" "cg_next g = 3"
    "cn_edges (cg_heap g 0) = [1, 2]" "cn_hasRMW (cg_heap g 0) = Some 2"
    by (rule example_graph)
  from acyclic_graph_has_modification_order [OF g(1,2)] g(3-5) show ?thesis
    by (intro exI [of _ g]) simp
qed

text \<open>
  (C2) In every state a client can reach as in the steps above (adding edges, adding
  read-modify-writes that are \<open>rmw_ready\<close>, committing and rolling back, without having resolved a
  promise), \<open>addEdge\<close> returns. Afterwards both objects have nodes, the edge between them is in the
  graph with all the earlier ones, the result says whether it is new, and \<open>hasCycles\<close> is set exactly
  when it was set before or the graph now has a cycle.
\<close>

theorem addEdge_exact:
  assumes "mo_step\<^sup>*\<^sup>* new_CycleGraph g"
  shows "\<exists>g' f t. CycleGraph_addEdge g x y = Some ((f, t) \<notin> cg_rel g, g') \<and>
           getNode_noCreate g' x = Some f \<and> getNode_noCreate g' y = Some t \<and>
           insert (f, t) (cg_rel g) \<subseteq> cg_rel g' \<and>
           (checkForCycles g' \<longleftrightarrow> checkForCycles g \<or> \<not> acyclic (cg_rel g'))"
  using addEdge_spec [of g x y] mo_steps_inv [OF assms] by (auto simp: mo_inv_def checkForCycles_def)

theorem addEdge_exact_witness:
  "\<exists>g' f t. CycleGraph_addEdge new_CycleGraph (MoPromise 7) (MoAction 3) = Some (True, g') \<and>
     getNode_noCreate g' (MoPromise 7) = Some f \<and> cg_actionToNode g' 3 = Some t \<and> (f, t) \<in> cg_rel g'"
proof -
  have "cg_rel new_CycleGraph = {}" by (simp add: new_CycleGraph_def edge_rel_def)
  with addEdge_exact [OF rtranclp.rtrancl_refl, of "MoPromise 7" "MoAction 3"] show ?thesis by auto
qed

text \<open>
  (C3) In the same states, reached without having resolved a promise, \<open>addRMWEdge\<close> returns when the
  read-modify-write is not yet recorded as a reader, has no reader of its own, and it or the object
  it reads from is new in the graph (the two cases its comment names). Afterwards the edge is in the graph, the object's reader is the first
  read-modify-write recorded for it, and \<open>hasCycles\<close> is set exactly when it was set before, the
  object already had a reader, or the graph has a cycle.
\<close>

theorem addRMWEdge_exact:
  assumes "mo_step\<^sup>*\<^sup>* new_CycleGraph g" and "rmw_ready g x a"
  shows "\<exists>g' f r. addRMWEdge g x a = Some g' \<and>
           getNode_noCreate g' x = Some f \<and> cg_actionToNode g' a = Some r \<and>
           insert (f, r) (cg_rel g) \<subseteq> cg_rel g' \<and>
           cn_hasRMW (cg_heap g' f) = (case cn_hasRMW (cg_heap g f) of None \<Rightarrow> Some r | Some r' \<Rightarrow> Some r') \<and>
           (checkForCycles g' \<longleftrightarrow>
              checkForCycles g \<or> cn_hasRMW (cg_heap g f) \<noteq> None \<or> \<not> acyclic (cg_rel g'))"
  using addRMWEdge_spec [of g x a] mo_steps_inv [OF assms(1)] assms(2)
  unfolding mo_inv_def checkForCycles_def by blast

theorem addRMWEdge_exact_witness:
  "\<exists>g g' f r. cg_rel g \<noteq> {} \<and> addRMWEdge g (MoPromise 4) 9 = Some g' \<and>
     cg_promiseToNode g' 4 = Some f \<and> cg_actionToNode g' 9 = Some r \<and> (f, r) \<in> cg_rel g'"
proof -
  obtain g where g: "mo_step\<^sup>*\<^sup>* new_CycleGraph g" "cn_edges (cg_heap g 0) = [1, 2]"
    "cg_actionToNode g 9 = None" by (rule example_graph)
  have "rmw_ready g (MoPromise 4) 9" using g(3) by (simp add: rmw_ready_def)
  from addRMWEdge_exact [OF g(1) this] obtain g' f r where
    "addRMWEdge g (MoPromise 4) 9 = Some g'" "cg_promiseToNode g' 4 = Some f"
    "cg_actionToNode g' 9 = Some r" "(f, r) \<in> cg_rel g'" by auto
  moreover have "(0, 1) \<in> cg_rel g" using g(2) by simp
  ultimately show ?thesis by blast
qed

text \<open>
  (C4) Rolling back restores the last commit: when a state reached by additions, commits and
  rollbacks, without resolving a promise, is committed and any sequence of successful \<open>addEdge\<close> and \<open>addRMWEdge\<close>
  calls follows, \<open>rollbackChanges\<close> gives every node the edges, back edges and read-modify-write it
  had then, in the same order, and \<open>hasCycles\<close> its old value.
\<close>

theorem rollback_restores:
  assumes "mo_step\<^sup>*\<^sup>* new_CycleGraph g" and "mo_addition\<^sup>*\<^sup>* (commitChanges g) g'"
  shows "cn_edges (cg_heap (rollbackChanges g') n) = cn_edges (cg_heap g n) \<and>
         cn_back_edges (cg_heap (rollbackChanges g') n) = cn_back_edges (cg_heap g n) \<and>
         cn_hasRMW (cg_heap (rollbackChanges g') n) = cn_hasRMW (cg_heap g n) \<and>
         cg_hasCycles (rollbackChanges g') = cg_hasCycles g"
proof -
  have inv: "mo_inv (commitChanges g)"
    using mo_steps_inv [OF assms(1)] mo_step_inv [OF mo_step.commit] by blast
  note chg = mo_additions_changes [OF assms(2) inv]
  have "cg_wf (commitChanges g)" using inv by (simp add: mo_inv_def mo_ok_def)
  from mo_changes_rollback [OF chg this] show ?thesis
    by (simp add: same_shape_def rollbackChanges_undo undo_def commitChanges_def)
qed

theorem rollback_restores_witness:
  "\<exists>g. example_addRMWEdge = Some g \<and> cn_edges (cg_heap g 0) = [1, 2] \<and>
     cn_edges (cg_heap (rollbackChanges g) 0) = []"
proof -
  obtain b g1 where g1: "example_addEdge = Some (b, g1)" "cg_actionToNode g1 2 = None"
    using example_facts(1) by (auto simp: map_option_case split: option.splits)
  obtain g where g: "example_addRMWEdge = Some g" "cn_edges (cg_heap g 0) = [1, 2]"
    using example_facts(2) by (auto simp: map_option_case split: option.splits)
  have new: "commitChanges new_CycleGraph = new_CycleGraph"
    by (simp add: commitChanges_def new_CycleGraph_def)
  have "mo_addition new_CycleGraph g1"
    using g1(1) by (auto simp: example_addEdge_def intro: mo_addition.add)
  moreover have "mo_addition g1 g"
  proof (rule mo_addition.addRMW)
    show "rmw_ready g1 (MoAction 0) 2" using g1(2) by (simp add: rmw_ready_def)
    show "addRMWEdge g1 (MoAction 0) 2 = Some g" using g(1) unfolding example_addRMWEdge_def g1(1) by simp
  qed
  ultimately have "mo_addition\<^sup>*\<^sup>* (commitChanges new_CycleGraph) g" unfolding new by simp
  from rollback_restores [OF rtranclp.rtrancl_refl this, of 0] g show ?thesis
    by (intro exI [of _ g]) (simp add: new_CycleGraph_def)
qed

text \<open>
  (C5) In the same states \<open>checkReachable\<close> returns, and says whether both objects have nodes and the second
  node can be reached from the first along the edges.
\<close>

theorem checkReachable_decides:
  assumes "mo_step\<^sup>*\<^sup>* new_CycleGraph g"
  shows "checkReachable g x y =
    Some (\<exists>f t. getNode_noCreate g x = Some f \<and> getNode_noCreate g y = Some t \<and> (f, t) \<in> (cg_rel g)\<^sup>*)"
proof -
  have wf: "cg_wf g" using mo_steps_inv [OF assms] by (simp add: mo_inv_def mo_ok_def)
  then have hwf: "heap_wf (cg_heap g) (cg_next g)" by (simp add: cg_wf_def)
  have "checkReachable_node g f t = Some ((f, t) \<in> (cg_rel g)\<^sup>*)" if "getNode_noCreate g x = Some f" for f t
    using checkReachable_node_correct [OF hwf] that wf unfolding cg_wf_iff by blast
  then show ?thesis by (auto simp: checkReachable_def split: option.splits)
qed

theorem checkReachable_decides_witness:
  "\<exists>g. cg_rel g \<noteq> {} \<and> checkReachable g (MoAction 9) (MoAction 9) = Some False"
proof -
  obtain g where g: "mo_step\<^sup>*\<^sup>* new_CycleGraph g" "cn_edges (cg_heap g 0) = [1, 2]"
    "cg_actionToNode g 9 = None" by (rule example_graph)
  from g(2) have "(0, 1) \<in> cg_rel g" by simp
  then have "cg_rel g \<noteq> {}" by blast
  with checkReachable_decides [OF g(1), of "MoAction 9" "MoAction 9"] g(3) show ?thesis
    by (intro exI [of _ g]) auto
qed

text \<open>
  (C6) In the same states \<open>checkPromise\<close> returns for a store that has a node and a well-formed
  promise. It answers yes exactly when the node of the promise can be reached from the store. When it answers no, the threads it has eliminated from
  the promise are exactly those of the stores that can be reached; the promise stays well-formed.
\<close>

theorem checkPromise_decides:
  assumes "mo_step\<^sup>*\<^sup>* new_CycleGraph g" and "cg_actionToNode g a = Some f" and "Promise_wf pr"
  shows "\<exists>b pr'. checkPromise acts g a p pr = Some (b, pr') \<and> Promise_wf pr' \<and>
           (b \<longleftrightarrow> (\<exists>n. (f, n) \<in> (cg_rel g)\<^sup>* \<and> cn_promise (cg_heap g n) = Some p)) \<and>
           (\<forall>t. thread_is_available pr' t \<longrightarrow> thread_is_available pr t) \<and>
           (\<not> b \<longrightarrow> (\<forall>t. thread_is_available pr' t \<longleftrightarrow>
              thread_is_available pr t \<and> t \<notin> node_tids acts (cg_heap g) ((cg_rel g)\<^sup>* `` {f})))"
proof -
  have wf: "cg_wf g" using mo_steps_inv [OF assms(1)] by (simp add: mo_inv_def mo_ok_def)
  then have "heap_wf (cg_heap g) (cg_next g)" "f < cg_next g" using assms(2) by (auto simp: cg_wf_def)
  from search_inv_start [OF this]
  have inv: "search_inv (cg_heap g) {..<cg_next g} f (\<lambda>n. cn_promise (cg_heap g n) = Some p) [f] {f}" .
  have none: "node_tids acts (cg_heap g) ({f} - set [f]) = {}" by (simp add: node_tids_def)
  from promise_loop_correct [OF inv assms(3), of pr acts] show ?thesis
    using assms(2) unfolding none checkPromise_def by simp
qed

theorem checkPromise_decides_witness:
  "\<exists>g b pr'. cg_rel g \<noteq> {} \<and>
     checkPromise (\<lambda>_. example_action ATOMIC_WRITE memory_order_relaxed) g 0 3
       (new_Promise 5 (example_action ATOMIC_READ memory_order_relaxed)
          \<lparr>fv_value = 5, fv_expiration = 9, fv_tid = 2\<rparr>) = Some (b, pr') \<and> Promise_wf pr'"
proof -
  obtain g where g: "mo_step\<^sup>*\<^sup>* new_CycleGraph g" "cn_edges (cg_heap g 0) = [1, 2]"
    "cg_actionToNode g 0 = Some 0" by (rule example_graph)
  from g(2) have "(0, 1) \<in> cg_rel g" by simp
  then have "cg_rel g \<noteq> {}" by blast
  with checkPromise_decides [OF g(1,3) new_Promise_wf] show ?thesis by blast
qed

text \<open>
  (C7) Resolving a promise with a store that has no node in the graph never returns: the promise
  pointer of the node is cleared before it is used as the key to erase, and a null key fails the
  assertion of the hash table.
\<close>

theorem resolvePromise_new_store_aborts:
  assumes "cg_actionToNode g writer = None"
  shows "CycleGraph_resolvePromise acts proms g promise writer = None"
proof -
  have "cn_promise (h n) = None" if "CycleNode_resolvePromise acts proms h' n writer = Some h" for h h' n
    using that by (auto simp: CycleNode_resolvePromise_def Let_def split: if_splits Option.bind_splits)
  then show ?thesis
    using assms
    by (auto simp: CycleGraph_resolvePromise_def split: option.splits Option.bind_splits)
qed

theorem resolvePromise_new_store_aborts_witness:
  "CycleGraph_resolvePromise (\<lambda>_. example_action ATOMIC_WRITE memory_order_relaxed)
     (\<lambda>_. new_Promise 5 ((example_action ATOMIC_READ memory_order_relaxed)\<lparr>ma_tid := 2\<rparr>)
            \<lparr>fv_value = 5, fv_expiration = 9, fv_tid = 1\<rparr>)
     (snd (getNode_promise new_CycleGraph 3)) 3 8 = None"
proof -
  have "cg_actionToNode (snd (getNode_promise new_CycleGraph 3)) 8 = None" by code_simp
  then show ?thesis by (rule resolvePromise_new_store_aborts)
qed

section \<open>Promises resolved with their own readers\<close>

text \<open>
  The steps above leave \<open>resolvePromise\<close> out, and with it the guarantee that additions return is lost.
  Resolving a promise with a read-modify-write that itself follows a reader of the promise gives this
  one the promise's reader as its own: the read-modify-writes form a cycle. The resolution fails with
  \<open>hasCycles\<close> set, but an edge added later from a node of the cycle follows the chain for ever.
\<close>

lemma rmw_cycle_diverges:
  assumes closed: "\<forall>n \<in> S. n \<noteq> tonode \<and> (\<exists>r \<in> S. cn_hasRMW (h n) = Some r)" and "n \<in> S"
  shows "rmw_chain_end h tonode n = None"
proof -
  have "n \<in> S \<longrightarrow> False" if "rmw_chain_end h tonode n = Some e" for e n
  proof (rule rmw_chain_end.raw_induct [where P = "\<lambda>h' t n e. h' = h \<and> t = tonode \<longrightarrow> n \<in> S \<longrightarrow> False", rotated, OF that, THEN mp])
    fix f h' t m y
    assume IH: "\<And>h' t m y. f h' t m = Some y \<Longrightarrow> h' = h \<and> t = tonode \<longrightarrow> m \<in> S \<longrightarrow> False"
      and run: "(if m = t then Some m else case cn_hasRMW (h' m) of None \<Rightarrow> Some m | Some r \<Rightarrow> f h' t r) = Some y"
    show "h' = h \<and> t = tonode \<longrightarrow> m \<in> S \<longrightarrow> False"
      using run IH closed by (fastforce split: if_splits option.splits)
  qed simp
  with assms(2) show ?thesis by (cases "rmw_chain_end h tonode n") auto
qed

definition example_resolved :: "(bool \<times> CycleGraph) option" where
  "example_resolved =
     Option.bind (addRMWEdge new_CycleGraph (MoPromise 3) 1) (\<lambda>g.
     Option.bind (addRMWEdge g (MoAction 1) 2) (\<lambda>g.
       CycleGraph_resolvePromise (\<lambda>_. (example_action ATOMIC_RMW memory_order_relaxed)\<lparr>ma_value := 5\<rparr>)
         (\<lambda>_. new_Promise 0 ((example_action ATOMIC_READ memory_order_relaxed)\<lparr>ma_tid := 2\<rparr>)
                \<lparr>fv_value = 5, fv_expiration = 9, fv_tid = 1\<rparr>) g 3 2))"

lemma example_resolved_facts:
  "map_option (\<lambda>(ok, g). (ok, cg_hasCycles g, cg_actionToNode g 1, cg_actionToNode g 7, cg_next g, cn_edges (cg_heap g 1),
      map (\<lambda>n. cn_hasRMW (cg_heap g n)) [1, 2])) example_resolved =
     Some (False, True, Some 1, None, 3, [2], [Some 2, Some 1])"
  by code_simp

lemma addNodeEdge_rmw_cycle:
  assumes "tonode \<notin> set (cn_edges (cg_heap g fromnode))" and "fromnode \<in> S"
    and "\<forall>n \<in> S. n \<noteq> tonode \<and> (\<exists>r \<in> S. cn_hasRMW (cg_heap g n) = Some r)"
  shows "addNodeEdge g fromnode tonode = None"
proof -
  obtain h where h: "CycleNode_addEdge (cg_heap g) fromnode tonode = (True, h)"
    and rmw: "\<And>n. cn_hasRMW (h n) = cn_hasRMW (cg_heap g n)"
    using assms(1) by (auto simp: CycleNode_addEdge_def Let_def)
  obtain r where r: "cn_hasRMW (h fromnode) = Some r" "r \<in> S" using assms(2,3) rmw by metis
  have "rmw_chain_end h tonode r = None" using rmw_cycle_diverges [of S tonode h r] assms(3) rmw r(2) by simp
  then show ?thesis
    using h r(1) by (auto simp: addNodeEdge_def update_hasCycles_def split: Option.bind_splits)
qed

lemma resolved_addEdge_diverges:
  "\<exists>g. example_resolved = Some (False, g) \<and> CycleGraph_addEdge g (MoAction 1) (MoAction 7) = None"
proof -
  obtain g where g: "example_resolved = Some (False, g)" "cg_actionToNode g 1 = Some 1" "cg_actionToNode g 7 = None"
    "cg_next g = 3" "cn_edges (cg_heap g 1) = [2]" "cn_hasRMW (cg_heap g 1) = Some 2" "cn_hasRMW (cg_heap g 2) = Some 1"
    using example_resolved_facts by (auto simp: map_option_case split: option.splits)
  obtain h g2 where new: "getNode g (MoAction 7) = (3, g2)" "cg_heap g2 = h" "h 1 = cg_heap g 1" "h 2 = cg_heap g 2"
    using g(3,4) by (auto simp: alloc_CycleNode_def putNode_action_def Let_def getNode_action_def)
  have "addNodeEdge g2 1 3 = None"
    by (rule addNodeEdge_rmw_cycle [where S = "{1, 2}"]) (simp_all add: new g(5-7) del: One_nat_def)
  then show ?thesis using g(1,2) new(1) by (auto simp: CycleGraph_addEdge_def getNode_action_def)
qed

end
