(* ===== verification/HashTable.thy ===== *)
theory HashTable
  imports Complex_Main Prelude
begin

unbundle bit_operations_syntax

text \<open>
  \<open>hashtable.h\<close>: the hash table behind every map from pointers in the checker. Keys are nonzero
  words, the table has linear probing, an empty slot has key 0. Indices, the mask, the size and the
  threshold are \<open>unsigned int\<close>, so 32-bit words. The search loops may in principle run for ever
  (on a full table), so they are partial functions; on a well-formed table they return.
\<close>

section \<open>The table\<close>

record 'v hashlistnode =
  hn_key :: uint64
  hn_val :: 'v

record 'v HashTable =
  ht_table :: "'v hashlistnode list"
  ht_capacity :: "32 word"
  ht_size :: "32 word"
  ht_capacitymask :: "32 word"
  ht_threshold :: "32 word"
  ht_loadfactor :: rat

definition empty_slot :: "'v::zero hashlistnode" where
  "empty_slot = \<lparr>hn_key = 0, hn_val = 0\<rparr>"

text \<open>\<open>(unsigned int)(capacity * loadfactor)\<close>\<close>

definition load_threshold :: "32 word \<Rightarrow> rat \<Rightarrow> 32 word" where
  "load_threshold capacity factor = word_of_int \<lfloor>rat_of_nat (unat capacity) * factor\<rfloor>"

definition new_HashTable :: "32 word \<Rightarrow> rat \<Rightarrow> 'v::zero HashTable" where
  "new_HashTable initialcapacity factor =
     \<lparr>ht_table = replicate (unat initialcapacity) empty_slot,
      ht_capacity = initialcapacity, ht_size = 0, ht_capacitymask = initialcapacity - 1,
      ht_threshold = load_threshold initialcapacity factor, ht_loadfactor = factor\<rparr>"

definition HashTable_reset :: "'v::zero HashTable \<Rightarrow> 'v HashTable" where
  "HashTable_reset t =
     t\<lparr>ht_table := replicate (unat (ht_capacity t)) empty_slot, ht_size := 0\<rparr>"

section \<open>Searching\<close>

text \<open>\<open>((_KeyInt)key) >> _Shift\<close>, cut to \<open>unsigned int\<close>.\<close>

definition hash_index :: "nat \<Rightarrow> uint64 \<Rightarrow> 32 word" where
  "hash_index shift key = ucast (drop_bit shift key)"

text \<open>
  The loop of \<open>put\<close>, \<open>get\<close> and \<open>contains\<close>: the slot of the key, or the empty slot the
  probing ends at.
\<close>

partial_function (option) find_slot ::
    "'v hashlistnode list \<Rightarrow> 32 word \<Rightarrow> uint64 \<Rightarrow> 32 word \<Rightarrow> (bool \<times> nat) option" where
  "find_slot table msk key index =
     (let i = index AND msk
      in if unat i \<ge> length table then None
         else if hn_key (table ! unat i) = key then Some (True, unat i)
         else if hn_key (table ! unat i) = 0 then Some (False, unat i)
         else find_slot table msk key (i + 1))"

declare find_slot.simps [code]

text \<open>The loop of \<open>resize\<close>: the first empty slot.\<close>

partial_function (option) find_empty ::
    "'v hashlistnode list \<Rightarrow> 32 word \<Rightarrow> 32 word \<Rightarrow> nat option" where
  "find_empty table msk index =
     (let i = index AND msk
      in if unat i \<ge> length table then None
         else if hn_key (table ! unat i) = 0 then Some (unat i)
         else find_empty table msk (i + 1))"

declare find_empty.simps [code]

definition rehash_bin ::
    "nat \<Rightarrow> 32 word \<Rightarrow> 'v hashlistnode \<Rightarrow> 'v hashlistnode list \<Rightarrow> 'v hashlistnode list option" where
  "rehash_bin shift msk bin table = do {
     i \<leftarrow> find_empty table msk (hash_index shift (hn_key bin));
     Some (table[i := bin])
   }"

fun rehash ::
    "nat \<Rightarrow> 32 word \<Rightarrow> 'v hashlistnode list \<Rightarrow> 'v hashlistnode list \<Rightarrow> 'v hashlistnode list option" where
  "rehash shift msk [] table = Some table"
| "rehash shift msk (bin # bins) table =
     do { table' \<leftarrow> rehash_bin shift msk bin table; rehash shift msk bins table' }"

definition HashTable_resize :: "nat \<Rightarrow> 'v::zero HashTable \<Rightarrow> 32 word \<Rightarrow> 'v HashTable option" where
  "HashTable_resize shift t newsize = do {
     let newtable = replicate (unat newsize) empty_slot;
     let msk = newsize - 1;
     table \<leftarrow> rehash shift msk (ht_table t) newtable;
     Some (t\<lparr>ht_table := table, ht_capacity := newsize, ht_capacitymask := msk,
             ht_threshold := load_threshold newsize (ht_loadfactor t)\<rparr>)
   }"

definition HashTable_put :: "nat \<Rightarrow> 'v::zero HashTable \<Rightarrow> uint64 \<Rightarrow> 'v \<Rightarrow> 'v HashTable option" where
  "HashTable_put shift t0 key val = do {
     ASSERT (key \<noteq> 0);
     t \<leftarrow> (if ht_size t0 > ht_threshold t0
           then HashTable_resize shift t0 (push_bit 1 (ht_capacity t0)) else Some t0);
     (found, i) \<leftarrow> find_slot (ht_table t) (ht_capacitymask t) key (hash_index shift key);
     if found then Some (t\<lparr>ht_table := (ht_table t)[i := (ht_table t ! i)\<lparr>hn_val := val\<rparr>]\<rparr>)
     else Some (t\<lparr>ht_table := (ht_table t)[i := \<lparr>hn_key = key, hn_val = val\<rparr>],
                  ht_size := ht_size t + 1\<rparr>)
   }"

definition HashTable_get :: "nat \<Rightarrow> 'v::zero HashTable \<Rightarrow> uint64 \<Rightarrow> 'v option" where
  "HashTable_get shift t key = do {
     ASSERT (key \<noteq> 0);
     (found, i) \<leftarrow> find_slot (ht_table t) (ht_capacitymask t) key (hash_index shift key);
     Some (if found then hn_val (ht_table t ! i) else 0)
   }"

definition HashTable_contains :: "nat \<Rightarrow> 'v::zero HashTable \<Rightarrow> uint64 \<Rightarrow> bool option" where
  "HashTable_contains shift t key = do {
     ASSERT (key \<noteq> 0);
     (found, i) \<leftarrow> find_slot (ht_table t) (ht_capacitymask t) key (hash_index shift key);
     Some found
   }"

section \<open>Probing\<close>

text \<open>
  With a capacity of \<open>2 ^ k\<close> the mask takes an index modulo the capacity. \<open>slot_at\<close> is the
  slot probed after \<open>j\<close> steps.
\<close>

definition home :: "nat \<Rightarrow> nat \<Rightarrow> uint64 \<Rightarrow> nat" where
  "home shift k key = unat (hash_index shift key) mod 2 ^ k"

definition slot_at :: "nat \<Rightarrow> nat \<Rightarrow> nat \<Rightarrow> nat" where
  "slot_at k b j = (b + j) mod 2 ^ k"

lemma slot_at_less [simp]: "slot_at k b j < 2 ^ k"
  by (simp add: slot_at_def)

lemma slot_at_not_ge [simp]: "\<not> 2 ^ k \<le> slot_at k b j"
  by (simp add: not_le)

lemma slot_at_inj:
  assumes "i < 2 ^ k" "j < 2 ^ k" "slot_at k b i = slot_at k b j"
  shows "i = j"
proof -
  obtain q1 q2 where "b + i + 2 ^ k * q1 = b + j + 2 ^ k * q2"
    using assms(3) unfolding slot_at_def by (auto simp: nat_mod_eq_iff)
  then have "i mod 2 ^ k = j mod 2 ^ k" by (auto simp: nat_mod_eq_iff intro: exI [of _ q1] exI [of _ q2])
  with assms show ?thesis by simp
qed

lemma slot_at_onto:
  assumes "s < 2 ^ k" "b < 2 ^ k"
  obtains j where "j < 2 ^ k" "slot_at k b j = s"
proof (cases "b \<le> s")
  case True
  then have "s - b < 2 ^ k" "slot_at k b (s - b) = s" using assms by (auto simp: slot_at_def)
  then show ?thesis by (rule that)
next
  case False
  then have "2 ^ k + s - b < 2 ^ k" "slot_at k b (2 ^ k + s - b) = s"
    using assms by (auto simp: slot_at_def)
  then show ?thesis by (rule that)
qed

lemma and_mask: "k < 32 \<Longrightarrow> unat (x AND (2 ^ k - 1) :: 32 word) = unat x mod 2 ^ k"
  by (simp add: mask_eq_exp_minus_1 [symmetric] take_bit_eq_mask [symmetric] unsigned_take_bit_eq take_bit_nat_def)

text \<open>The index after the mask and the next one.\<close>

lemma next_index:
  assumes "k < 32" "unat i = slot_at k b j"
  shows "unat ((i + 1) AND (2 ^ k - 1) :: 32 word) = slot_at k b (Suc j)"
proof -
  have "unat i < 2 ^ k" using assms(2) by simp
  moreover have "(2 ^ k :: nat) \<le> 2 ^ 31" using assms(1) by (intro power_increasing) auto
  ultimately have "unat (i + 1) = Suc (unat i)" by (simp add: unat_word_ariths)
  then show ?thesis
    unfolding and_mask [OF assms(1)] by (simp add: assms(2) slot_at_def mod_Suc_eq)
qed

text \<open>Where the probing for a key stops: a slot with the key or an empty one.\<close>

definition stops :: "'v hashlistnode list \<Rightarrow> uint64 \<Rightarrow> nat \<Rightarrow> bool" where
  "stops table key s \<longleftrightarrow> hn_key (table ! s) = key \<or> hn_key (table ! s) = 0"

lemma find_slot_from:
  assumes k: "k < 32" "length table = 2 ^ k" and "j \<le> d" and "unat (index AND (2 ^ k - 1)) = slot_at k b j"
    and stop: "stops table key (slot_at k b d)" and go: "\<And>i. i < d \<Longrightarrow> \<not> stops table key (slot_at k b i)"
  shows "find_slot table (2 ^ k - 1) key index =
           Some (hn_key (table ! slot_at k b d) = key, slot_at k b d)"
  using assms(3,4)
proof (induction "d - j" arbitrary: j index)
  case 0
  then have "unat (index AND (2 ^ k - 1)) = slot_at k b d" by simp
  with stop k show ?case by (auto simp: find_slot.simps [of table _ key index] Let_def stops_def)
next
  case (Suc n)
  let ?i = "index AND (2 ^ k - 1)"
  have "\<not> stops table key (slot_at k b j)" using go Suc.hyps(2) by simp
  then have "find_slot table (2 ^ k - 1) key index = find_slot table (2 ^ k - 1) key (?i + 1)"
    using Suc.prems(2) k by (simp add: find_slot.simps [of table _ key index] Let_def stops_def)
  also have "\<dots> = Some (hn_key (table ! slot_at k b d) = key, slot_at k b d)"
    using Suc.hyps(2) next_index [OF k(1) Suc.prems(2)] by (intro Suc.hyps(1) [of "Suc j"]) auto
  finally show ?case .
qed

lemma find_empty_from:
  assumes k: "k < 32" "length table = 2 ^ k" and "j \<le> d" and "unat (index AND (2 ^ k - 1)) = slot_at k b j"
    and stop: "stops table 0 (slot_at k b d)" and go: "\<And>i. i < d \<Longrightarrow> \<not> stops table 0 (slot_at k b i)"
  shows "find_empty table (2 ^ k - 1) index = Some (slot_at k b d)"
  using assms(3,4)
proof (induction "d - j" arbitrary: j index)
  case 0
  then have "unat (index AND (2 ^ k - 1)) = slot_at k b d" by simp
  with stop k show ?case by (auto simp: find_empty.simps [of table _ index] Let_def stops_def)
next
  case (Suc n)
  let ?i = "index AND (2 ^ k - 1)"
  have "\<not> stops table 0 (slot_at k b j)" using go Suc.hyps(2) by simp
  then have "find_empty table (2 ^ k - 1) index = find_empty table (2 ^ k - 1) (?i + 1)"
    using Suc.prems(2) k by (simp add: find_empty.simps [of table _ index] Let_def stops_def)
  also have "\<dots> = Some (slot_at k b d)"
    using Suc.hyps(2) next_index [OF k(1) Suc.prems(2)] by (intro Suc.hyps(1) [of "Suc j"]) auto
  finally show ?case .
qed

section \<open>Well-formed tables as maps\<close>

definition used :: "'v hashlistnode list \<Rightarrow> nat set" where
  "used table = {s. s < length table \<and> hn_key (table ! s) \<noteq> 0}"

text \<open>
  A key occurs once, and there is no empty slot between the home of a key and the slot it is in.
\<close>

definition table_wf :: "nat \<Rightarrow> nat \<Rightarrow> 'v hashlistnode list \<Rightarrow> bool" where
  "table_wf shift k table \<longleftrightarrow>
     length table = 2 ^ k \<and> inj_on (\<lambda>s. hn_key (table ! s)) (used table) \<and>
     (\<forall>d<2 ^ k. \<forall>s\<in>used table. slot_at k (home shift k (hn_key (table ! s))) d = s \<longrightarrow>
        (\<forall>j<d. slot_at k (home shift k (hn_key (table ! s))) j \<in> used table))"

definition table_map :: "'v hashlistnode list \<Rightarrow> uint64 \<rightharpoonup> 'v" where
  "table_map table key =
     (if key = 0 then None else map_option hn_val (find (\<lambda>n. hn_key n = key) table))"

lemma home_less [simp]: "home shift k key < 2 ^ k"
  by (simp add: home_def)

lemma table_wf_inj:
  "table_wf shift k table \<Longrightarrow> s \<in> used table \<Longrightarrow> s' \<in> used table \<Longrightarrow>
     hn_key (table ! s) = hn_key (table ! s') \<Longrightarrow> s = s'"
  by (auto simp: table_wf_def dest: inj_onD)

lemma table_map_None: "key \<noteq> 0 \<Longrightarrow> table_map table key = None \<longleftrightarrow> (\<forall>s<length table. hn_key (table ! s) \<noteq> key)"
  by (auto simp: table_map_def find_None_iff in_set_conv_nth)

lemma table_map_at:
  assumes "table_wf shift k table" "s \<in> used table"
  shows "table_map table (hn_key (table ! s)) = Some (hn_val (table ! s))"
proof -
  have "s < length table" "hn_key (table ! s) \<noteq> 0" using assms(2) by (auto simp: used_def)
  then have "find (\<lambda>n. hn_key n = hn_key (table ! s)) table \<noteq> None"
    unfolding find_None_iff using nth_mem by blast
  then obtain n where n: "find (\<lambda>n. hn_key n = hn_key (table ! s)) table = Some n" by blast
  then obtain s' where s': "s' < length table" "n = table ! s'" "hn_key n = hn_key (table ! s)"
    by (auto simp: find_Some_iff)
  with \<open>hn_key (table ! s) \<noteq> 0\<close> have "s' \<in> used table" by (simp add: used_def)
  with table_wf_inj [OF assms(1), of s' s] assms(2) s' have "n = table ! s" by auto
  with n \<open>hn_key (table ! s) \<noteq> 0\<close> show ?thesis by (simp add: table_map_def)
qed

lemma table_map_Some:
  assumes "table_wf shift k table" "table_map table key = Some v"
  obtains s where "s \<in> used table" "hn_key (table ! s) = key" "hn_val (table ! s) = v"
proof -
  from assms(2) have "key \<noteq> 0" by (auto simp: table_map_def split: if_splits)
  with assms(2) table_map_None [of key table] obtain s where s: "s < length table" "hn_key (table ! s) = key"
    by auto
  with \<open>key \<noteq> 0\<close> have "s \<in> used table" by (simp add: used_def)
  with s table_map_at [OF assms(1) this] assms(2) show ?thesis by (intro that [of s]) auto
qed

text \<open>The search finds the slot of a stored key, or the empty slot where it belongs.\<close>

lemma probe_ends:
  assumes "length table = 2 ^ k" "e < 2 ^ k" "hn_key (table ! e) = 0"
  obtains d where "d < 2 ^ k" "stops table key (slot_at k (home shift k q) d)"
    "\<And>i. i < d \<Longrightarrow> \<not> stops table key (slot_at k (home shift k q) i)"
proof -
  let ?P = "\<lambda>d. stops table key (slot_at k (home shift k q) d)"
  obtain j where j: "j < 2 ^ k" "slot_at k (home shift k q) j = e"
    using slot_at_onto [OF assms(2) home_less] by blast
  with assms(3) have "?P j" by (simp add: stops_def)
  then have "?P (LEAST d. ?P d)" "(LEAST d. ?P d) \<le> j" by (rule LeastI, rule Least_le)
  with j show ?thesis by (intro that [of "LEAST d. ?P d"]) (auto dest: not_less_Least)
qed

lemma not_stops_used:
  "length table = 2 ^ k \<Longrightarrow> \<not> stops table key (slot_at k b i) \<Longrightarrow> slot_at k b i \<in> used table"
  by (simp add: stops_def used_def)

lemma start_index:
  "k < 32 \<Longrightarrow> unat (hash_index shift key AND (2 ^ k - 1)) = slot_at k (home shift k key) 0"
  by (simp add: and_mask slot_at_def home_def)

lemma find_slot_spec:
  assumes wf: "table_wf shift k table" and k: "k < 32"
    and e: "e < 2 ^ k" "hn_key (table ! e) = 0" and key: "key \<noteq> 0"
  obtains (found) s where "find_slot table (2 ^ k - 1) key (hash_index shift key) = Some (True, s)"
      "s \<in> used table" "hn_key (table ! s) = key"
  | (free) d where "d < 2 ^ k"
      "find_slot table (2 ^ k - 1) key (hash_index shift key) = Some (False, slot_at k (home shift k key) d)"
      "hn_key (table ! slot_at k (home shift k key) d) = 0" "table_map table key = None"
      "\<And>i. i < d \<Longrightarrow> slot_at k (home shift k key) i \<in> used table"
proof -
  let ?at = "slot_at k (home shift k key)"
  have len: "length table = 2 ^ k" using wf by (simp add: table_wf_def)
  obtain d where d: "d < 2 ^ k" "stops table key (?at d)" "\<And>i. i < d \<Longrightarrow> \<not> stops table key (?at i)"
    using probe_ends [OF len e] by blast
  have res: "find_slot table (2 ^ k - 1) key (hash_index shift key) = Some (hn_key (table ! ?at d) = key, ?at d)"
    by (rule find_slot_from [OF k len _ start_index [OF k] d(2,3)]) simp
  show ?thesis
  proof (cases "hn_key (table ! ?at d) = key")
    case True
    with key len have "?at d \<in> used table" by (simp add: used_def)
    with res True show ?thesis by (intro found) auto
  next
    case False
    with d(2) have empty: "hn_key (table ! ?at d) = 0" by (simp add: stops_def)
    have "table_map table key = None"
    proof (rule ccontr)
      assume "table_map table key \<noteq> None"
      then obtain v where "table_map table key = Some v" by blast
      with wf obtain s where s: "s \<in> used table" "hn_key (table ! s) = key" by (rule table_map_Some)
      then have "s < 2 ^ k" using len by (simp add: used_def)
      then obtain d' where d': "d' < 2 ^ k" "?at d' = s" using slot_at_onto home_less by metis
      with wf s have gap: "\<forall>j<d'. ?at j \<in> used table" by (auto simp: table_wf_def)
      have "stops table key (?at d')" using d'(2) s(2) by (simp add: stops_def)
      with d(3) have "d \<le> d'" by (meson not_le)
      moreover have "d \<noteq> d'" using d'(2) s False by auto
      ultimately have "?at d \<in> used table" using gap by simp
      with empty show False by (simp add: used_def)
    qed
    with d res False empty len show ?thesis by (intro free [of d]) (auto intro: not_stops_used)
  qed
qed

section \<open>Changes\<close>

lemma used_update:
  assumes "i < length table"
  shows "used (table[i := n]) = (if hn_key n = 0 then used table - {i} else insert i (used table))"
  using assms by (auto simp: used_def nth_list_update)

lemma table_map_write:
  assumes wf: "table_wf shift k table" and i: "i < length table"
    and wf': "table_wf shift k (table[i := n])"
    and key: "hn_key n \<noteq> 0" and same: "hn_key (table ! i) = 0 \<or> hn_key (table ! i) = hn_key n"
  shows "table_map (table[i := n]) = (table_map table)(hn_key n \<mapsto> hn_val n)"
proof
  fix q
  let ?t = "table[i := n]"
  have iu: "i \<in> used ?t" using i key by (simp add: used_update)
  show "table_map ?t q = ((table_map table)(hn_key n \<mapsto> hn_val n)) q"
  proof (cases "q = hn_key n")
    case True
    with table_map_at [OF wf' iu] i show ?thesis by simp
  next
    case False
    show ?thesis
    proof (cases "table_map table q")
      case None
      with False i have "table_map ?t q = None"
        by (cases "q = 0") (auto simp: table_map_None nth_list_update table_map_def [of _ 0])
      with None False show ?thesis by simp
    next
      case (Some v)
      with wf obtain s where s: "s \<in> used table" "hn_key (table ! s) = q" "hn_val (table ! s) = v"
        by (rule table_map_Some)
      have "s \<noteq> i" using s same False by (auto simp: used_def)
      with s i key have "s \<in> used ?t" "?t ! s = table ! s" by (auto simp: used_update)
      with table_map_at [OF wf', of s] s Some False show ?thesis by simp
    qed
  qed
qed

lemma overwrite_value:
  assumes wf: "table_wf shift k table" and i: "i \<in> used table" and key: "hn_key n = hn_key (table ! i)"
  shows "table_wf shift k (table[i := n])" and "used (table[i := n]) = used table"
proof -
  have len: "i < length table" "hn_key (table ! i) \<noteq> 0" using i by (auto simp: used_def)
  then show u: "used (table[i := n]) = used table" using key i by (auto simp: used_update)
  have same: "hn_key (table[i := n] ! s) = hn_key (table ! s)" for s
    using key by (cases "s = i") (auto simp: nth_list_update len)
  show "table_wf shift k (table[i := n])"
    using wf unfolding table_wf_def u same by simp
qed

text \<open>Writing a new key into the empty slot its probing ends at.\<close>

lemma insert_new:
  assumes wf: "table_wf shift k table" and d: "d < 2 ^ k"
    and empty: "hn_key (table ! slot_at k (home shift k key) d) = 0"
    and gap: "\<And>i. i < d \<Longrightarrow> slot_at k (home shift k key) i \<in> used table"
    and key: "key \<noteq> 0" "table_map table key = None" and n: "hn_key n = key"
  shows "table_wf shift k (table[slot_at k (home shift k key) d := n])"
    and "used (table[slot_at k (home shift k key) d := n]) = insert (slot_at k (home shift k key) d) (used table)"
proof -
  let ?at = "slot_at k (home shift k key)" and ?t = "table[slot_at k (home shift k key) d := n]"
  have len: "length table = 2 ^ k" using wf by (simp add: table_wf_def)
  show u: "used ?t = insert (?at d) (used table)" using n key(1) len by (simp add: used_update)
  have fresh: "hn_key (table ! s) \<noteq> key" if "s \<in> used table" for s
    using that key by (auto simp: table_map_None used_def)
  have notin: "?at d \<notin> used table" using empty by (simp add: used_def)
  have nth: "?t ! s = (if s = ?at d then n else table ! s)" if "s \<in> used ?t" for s
    using len by (auto simp: nth_list_update)
  show "table_wf shift k ?t"
    unfolding table_wf_def
  proof (intro conjI ballI allI impI)
    show "length ?t = 2 ^ k" using len by simp
    show "inj_on (\<lambda>s. hn_key (?t ! s)) (used ?t)"
    proof (rule inj_onI)
      fix s s' assume "s \<in> used ?t" "s' \<in> used ?t" "hn_key (?t ! s) = hn_key (?t ! s')"
      with fresh [of s] fresh [of s'] table_wf_inj [OF wf, of s s'] n show "s = s'"
        by (auto simp: nth u split: if_splits)
    qed
    fix d' s j
    assume d': "d' < 2 ^ k" "s \<in> used ?t" "slot_at k (home shift k (hn_key (?t ! s))) d' = s" "j < d'"
    show "slot_at k (home shift k (hn_key (?t ! s))) j \<in> used ?t"
    proof (cases "s = ?at d")
      case True
      with nth [OF d'(2)] n have home: "hn_key (?t ! s) = key" by simp
      with d' True d have "d' = d" using slot_at_inj by metis
      with gap d'(4) home u show ?thesis by simp
    next
      case False
      with d'(2) u nth have "s \<in> used table" "?t ! s = table ! s" by auto
      with wf d' u show ?thesis by (auto simp: table_wf_def)
    qed
  qed
qed

section \<open>Growing\<close>

lemma used_finite [simp]: "finite (used table)"
  by (simp add: used_def)

lemma used_bound: "used table \<subseteq> {..<length table}"
  by (auto simp: used_def)

lemma room_empty_slot:
  assumes "length table = 2 ^ k" "card (used table) < 2 ^ k"
  obtains e where "e < 2 ^ k" "hn_key (table ! e) = 0"
proof -
  have "used table \<noteq> {..<length table}"
  proof
    assume "used table = {..<length table}"
    then have "card (used table) = 2 ^ k" using assms(1) by simp
    with assms(2) show False by simp
  qed
  with used_bound [of table] obtain e where "e < length table" "e \<notin> used table" by blast
  with assms(1) show ?thesis by (intro that [of e]) (simp_all add: used_def)
qed

lemma table_map_eqI:
  assumes wf: "table_wf shift k t" "table_wf shift k t'" and u: "used t' = used t"
    and eq: "\<And>s. s \<in> used t \<Longrightarrow> t' ! s = t ! s"
  shows "table_map t' = table_map t"
proof
  fix q
  show "table_map t' q = table_map t q"
  proof (cases "table_map t q")
    case (Some v)
    from table_map_Some [OF wf(1) Some] obtain s where
      "s \<in> used t" "hn_key (t ! s) = q" "hn_val (t ! s) = v" .
    with table_map_at [OF wf(2), of s] u eq [of s] Some show ?thesis by simp
  next
    case None
    show ?thesis
    proof (cases "table_map t' q")
      case (Some v)
      from table_map_Some [OF wf(2) Some] obtain s where
        "s \<in> used t'" "hn_key (t' ! s) = q" "hn_val (t' ! s) = v" .
      with table_map_at [OF wf(1), of s] u eq [of s] None show ?thesis by simp
    qed (simp add: None)
  qed
qed

lemma overwrite_empty:
  assumes wf: "table_wf shift k table" and i: "i < 2 ^ k" "hn_key (table ! i) = 0" and n: "hn_key n = 0"
  shows "table_wf shift k (table[i := n])" and "used (table[i := n]) = used table"
    and "table_map (table[i := n]) = table_map table"
proof -
  have len: "length table = 2 ^ k" using wf by (simp add: table_wf_def)
  have "i \<notin> used table" using i(2) by (simp add: used_def)
  then show u: "used (table[i := n]) = used table" using used_update [of i table n] i(1) n len by simp
  have same: "hn_key (table[i := n] ! s) = hn_key (table ! s)" for s
    using i n len by (cases "s = i") auto
  show wf': "table_wf shift k (table[i := n])"
    using wf unfolding table_wf_def u same by simp
  show "table_map (table[i := n]) = table_map table"
  proof (rule table_map_eqI [OF wf wf' u])
    fix s assume "s \<in> used table"
    with i(2) have "s \<noteq> i" by (auto simp: used_def)
    then show "table[i := n] ! s = table ! s" by simp
  qed
qed

text \<open>The keys of the bins that are not empty.\<close>

definition bin_keys :: "'v hashlistnode list \<Rightarrow> uint64 list" where
  "bin_keys bins = filter (\<lambda>q. q \<noteq> 0) (map hn_key bins)"

lemma bin_keys_simps [simp]:
  "bin_keys [] = []"
  "bin_keys (b # bs) = (if hn_key b = 0 then bin_keys bs else hn_key b # bin_keys bs)"
  by (simp_all add: bin_keys_def)

lemma bin_keys_table_map: "key \<noteq> 0 \<Longrightarrow> key \<in> set (bin_keys bins) \<longleftrightarrow> table_map bins key \<noteq> None"
  by (induction bins) (auto simp: table_map_def)

lemma table_map_Cons:
  "table_map (b # bs) = (if hn_key b = 0 then table_map bs else (table_map bs)(hn_key b \<mapsto> hn_val b))"
  by (auto simp: table_map_def fun_eq_iff)

lemma rehash_bin_spec:
  assumes wf: "table_wf shift k table" and k: "k < 32" and room: "card (used table) < 2 ^ k"
    and new: "hn_key bin \<noteq> 0 \<longrightarrow> table_map table (hn_key bin) = None"
  shows "\<exists>t. rehash_bin shift (2 ^ k - 1) bin table = Some t \<and> table_wf shift k t \<and>
           table_map t = (if hn_key bin = 0 then table_map table else (table_map table)(hn_key bin \<mapsto> hn_val bin)) \<and>
           card (used t) = card (used table) + (if hn_key bin = 0 then 0 else 1)"
proof -
  let ?at = "slot_at k (home shift k (hn_key bin))"
  have len: "length table = 2 ^ k" using wf by (simp add: table_wf_def)
  obtain e where "e < 2 ^ k" "hn_key (table ! e) = 0" using room_empty_slot [OF len room] .
  from probe_ends [OF len this] obtain d
    where d: "d < 2 ^ k" "stops table 0 (?at d)" "\<And>i. i < d \<Longrightarrow> \<not> stops table 0 (?at i)" by blast
  have "find_empty table (2 ^ k - 1) (hash_index shift (hn_key bin)) = Some (?at d)"
    by (rule find_empty_from [OF k len _ start_index [OF k] d(2,3)]) simp
  then have res: "rehash_bin shift (2 ^ k - 1) bin table = Some (table[?at d := bin])"
    by (simp add: rehash_bin_def)
  have empty: "hn_key (table ! ?at d) = 0" using d(2) by (simp add: stops_def)
  show ?thesis
  proof (cases "hn_key bin = 0")
    case True
    from overwrite_empty [OF wf slot_at_less empty True] res True show ?thesis by simp
  next
    case False
    have gap: "\<And>i. i < d \<Longrightarrow> ?at i \<in> used table" using d(3) len by (auto intro: not_stops_used)
    note ins = insert_new [OF wf d(1) empty gap False _ refl]
    have none: "table_map table (hn_key bin) = None" using new False by simp
    have "?at d \<notin> used table" using empty by (simp add: used_def)
    then have "card (used (table[?at d := bin])) = card (used table) + 1" using ins(2) [OF _ none] by simp
    moreover have "table_map (table[?at d := bin]) = (table_map table)(hn_key bin \<mapsto> hn_val bin)"
      using table_map_write [OF wf _ ins(1) [OF _ none] False] empty len by simp
    ultimately show ?thesis using res ins(1) [OF _ none] False by simp
  qed
qed

lemma rehash_spec:
  assumes "table_wf shift k table" and "k < 32" and "distinct (bin_keys bins)"
    and "\<And>key. key \<in> set (bin_keys bins) \<Longrightarrow> table_map table key = None"
    and "card (used table) + length (bin_keys bins) < 2 ^ k"
  shows "\<exists>t. rehash shift (2 ^ k - 1) bins table = Some t \<and> table_wf shift k t \<and>
           table_map t = table_map table ++ table_map bins \<and>
           card (used t) = card (used table) + length (bin_keys bins)"
  using assms
proof (induction bins arbitrary: table)
  case Nil
  have "table_map [] = (Map.empty :: uint64 \<rightharpoonup> 'a)" by (auto simp: table_map_def fun_eq_iff)
  with Nil show ?case by simp
next
  case (Cons bin bins)
  have "hn_key bin \<noteq> 0 \<longrightarrow> table_map table (hn_key bin) = None" using Cons.prems(4) by simp
  moreover have "card (used table) < 2 ^ k" using Cons.prems(5) by (simp split: if_splits)
  ultimately obtain t1 where t1: "rehash_bin shift (2 ^ k - 1) bin table = Some t1" "table_wf shift k t1"
      "table_map t1 = (if hn_key bin = 0 then table_map table else (table_map table)(hn_key bin \<mapsto> hn_val bin))"
      "card (used t1) = card (used table) + (if hn_key bin = 0 then 0 else 1)"
    using rehash_bin_spec [OF Cons.prems(1,2)] by blast
  have "distinct (bin_keys bins)" using Cons.prems(3) by (simp split: if_splits)
  moreover have "\<And>key. key \<in> set (bin_keys bins) \<Longrightarrow> table_map t1 key = None"
    using Cons.prems(3,4) t1(3) by (auto split: if_splits)
  moreover have "card (used t1) + length (bin_keys bins) < 2 ^ k"
    using Cons.prems(5) t1(4) by (simp split: if_splits)
  ultimately obtain t where t: "rehash shift (2 ^ k - 1) bins t1 = Some t" "table_wf shift k t"
      "table_map t = table_map t1 ++ table_map bins"
      "card (used t) = card (used t1) + length (bin_keys bins)"
    using Cons.IH [OF t1(2) Cons.prems(2)] by blast
  have "table_map bins (hn_key bin) = None" if "hn_key bin \<noteq> 0"
    using Cons.prems(3) that bin_keys_table_map [of "hn_key bin" bins] by (auto split: if_splits)
  then have "table_map t = table_map table ++ table_map (bin # bins)"
    using t(3) t1(3) by (auto simp: table_map_Cons map_add_def fun_eq_iff split: option.splits)
  with t t1 show ?case by simp
qed

lemma bin_keys_count: "length (bin_keys table) = card (used table)"
proof -
  have "length (bin_keys table) = length (filter (\<lambda>n. hn_key n \<noteq> 0) table)"
    by (induction table) auto
  then show ?thesis by (simp add: used_def length_filter_conv_card)
qed

lemma bin_keys_distinct:
  assumes "\<And>i j. i < length bins \<Longrightarrow> j < length bins \<Longrightarrow> hn_key (bins ! i) = hn_key (bins ! j) \<Longrightarrow>
             hn_key (bins ! i) \<noteq> 0 \<Longrightarrow> i = j"
  shows "distinct (bin_keys bins)"
  using assms
proof (induction bins)
  case (Cons b bs)
  have "distinct (bin_keys bs)"
  proof (rule Cons.IH)
    fix i j assume "i < length bs" "j < length bs" "hn_key (bs ! i) = hn_key (bs ! j)" "hn_key (bs ! i) \<noteq> 0"
    with Cons.prems [of "Suc i" "Suc j"] show "i = j" by simp
  qed
  moreover have "hn_key b \<notin> set (bin_keys bs)" if "hn_key b \<noteq> 0"
  proof
    assume "hn_key b \<in> set (bin_keys bs)"
    then obtain j where "j < length bs" "hn_key (bs ! j) = hn_key b"
      by (auto simp: bin_keys_def in_set_conv_nth)
    with Cons.prems [of 0 "Suc j"] that show False by simp
  qed
  ultimately show ?case by simp
qed simp

lemma table_wf_bin_keys: "table_wf shift k table \<Longrightarrow> distinct (bin_keys table)"
  by (rule bin_keys_distinct) (auto simp: used_def intro: table_wf_inj)

lemma empty_table:
  "table_wf shift k (replicate (2 ^ k) empty_slot)" "used (replicate m empty_slot) = {}"
  "table_map (replicate m empty_slot) = Map.empty"
proof -
  show u: "used (replicate m empty_slot) = {}" for m by (auto simp: used_def empty_slot_def)
  show "table_wf shift k (replicate (2 ^ k) empty_slot)" by (simp add: table_wf_def u)
  show "table_map (replicate m empty_slot) = Map.empty"
    by (auto simp: table_map_def empty_slot_def fun_eq_iff find_None_iff)
qed

section \<open>The invariant\<close>

text \<open>
  The tables of the checker: the default load factor 1/2 and a capacity that is a power of two, at
  least 4. The table is never full, so every search ends.
\<close>

definition HashTable_wf :: "nat \<Rightarrow> 'v HashTable \<Rightarrow> bool" where
  "HashTable_wf shift t \<longleftrightarrow>
     (\<exists>k. 2 \<le> k \<and> k < 32 \<and> ht_capacity t = 2 ^ k \<and> ht_capacitymask t = 2 ^ k - 1 \<and>
          ht_loadfactor t = 1 / 2 \<and> unat (ht_threshold t) = 2 ^ (k - 1) \<and>
          table_wf shift k (ht_table t) \<and> unat (ht_size t) = card (used (ht_table t)) \<and>
          card (used (ht_table t)) \<le> 2 ^ (k - 1) + 1)"

definition HashTable_map :: "'v HashTable \<Rightarrow> uint64 \<rightharpoonup> 'v" where
  "HashTable_map t = table_map (ht_table t)"

lemma unat_pow:
  assumes "k < 32"
  shows "unat (2 ^ k :: 32 word) = 2 ^ k"
proof -
  have "(2 ^ k :: nat) < 2 ^ 32" using assms by (intro power_strict_increasing) auto
  then have "unat (word_of_nat (2 ^ k) :: 32 word) = 2 ^ k"
    by (simp add: unat_of_nat del: of_nat_power of_nat_numeral)
  then show ?thesis by simp
qed

lemma half_full:
  assumes "2 \<le> k"
  shows "2 ^ (k - 1) + 1 < (2 ^ k :: nat)"
proof -
  obtain m where k: "k = m + 2" using assms by (metis add.commute le_Suc_ex)
  have "(2 :: nat) ^ (k - 1) = 2 * 2 ^ m" "(2 :: nat) ^ k = 4 * 2 ^ m" "0 < (2 :: nat) ^ m"
    by (simp_all add: k)
  then show ?thesis by linarith
qed

lemma load_threshold_half:
  assumes "2 \<le> k" "k < 32"
  shows "unat (load_threshold (2 ^ k) (1 / 2)) = 2 ^ (k - 1)"
proof -
  have "rat_of_nat (2 ^ k) * (1 / 2) = of_int (2 ^ (k - 1))"
    using assms(1) by (cases k) auto
  then have "load_threshold (2 ^ k) (1 / 2) = word_of_int (2 ^ (k - 1))"
    using unat_pow [OF assms(2)] by (simp only: load_threshold_def floor_of_int)
  then have "load_threshold (2 ^ k) (1 / 2) = 2 ^ (k - 1)" by simp
  with assms show ?thesis using unat_pow [of "k - 1"] by simp
qed

lemma new_HashTable_wf:
  assumes "2 \<le> k" "k < 32"
  shows "HashTable_wf shift (new_HashTable (2 ^ k) (1 / 2))"
    and "HashTable_map (new_HashTable (2 ^ k) (1 / 2)) = Map.empty"
  using assms empty_table(1) [of shift k] load_threshold_half
  by (auto simp: HashTable_wf_def new_HashTable_def HashTable_map_def unat_pow empty_table intro!: exI [of _ k])

lemma HashTable_reset_wf:
  assumes "HashTable_wf shift t"
  shows "HashTable_wf shift (HashTable_reset t)" and "HashTable_map (HashTable_reset t) = Map.empty"
  using assms empty_table(1)
  by (auto simp: HashTable_wf_def HashTable_reset_def HashTable_map_def unat_pow empty_table)

lemma HashTable_resize_spec:
  assumes "HashTable_wf shift t" and grow: "ht_size t > ht_threshold t" and room: "unat (ht_size t) \<le> 2 ^ 30"
  shows "\<exists>t'. HashTable_resize shift t (push_bit 1 (ht_capacity t)) = Some t' \<and> HashTable_wf shift t' \<and>
           HashTable_map t' = HashTable_map t \<and> ht_size t' = ht_size t \<and> ht_size t' \<le> ht_threshold t'"
proof -
  obtain k where k: "2 \<le> k" "k < 32" "ht_capacity t = 2 ^ k" "ht_loadfactor t = 1 / 2"
      "unat (ht_threshold t) = 2 ^ (k - 1)" "table_wf shift k (ht_table t)"
      "unat (ht_size t) = card (used (ht_table t))" "card (used (ht_table t)) \<le> 2 ^ (k - 1) + 1"
    using assms(1) by (auto simp: HashTable_wf_def)
  have "2 ^ (k - 1) < (2 ^ 30 :: nat)" using grow room k(5) by (simp add: word_less_nat_alt)
  then have "k - 1 < 30" by (simp only: power_strict_increasing_iff one_less_numeral_iff semiring_norm)
  then have k': "Suc k < 32" by simp
  let ?cap = "2 ^ Suc k :: 32 word"
  have cap: "push_bit 1 (ht_capacity t) = ?cap" by (simp add: k(3) push_bit_eq_mult)
  have half: "2 ^ (k - 1) + 1 < (2 ^ k :: nat)" using k(1) by (rule half_full)
  have "length (bin_keys (ht_table t)) < 2 ^ Suc k"
    using k(8) half by (simp add: bin_keys_count)
  then obtain table where tb: "rehash shift (?cap - 1) (ht_table t) (replicate (2 ^ Suc k) empty_slot) = Some table"
      "table_wf shift (Suc k) table" "table_map table = table_map (ht_table t)"
      "card (used table) = card (used (ht_table t))"
    using rehash_spec [OF empty_table(1) k' table_wf_bin_keys [OF k(6)]]
    by (auto simp: empty_table bin_keys_count)
  let ?t = "t\<lparr>ht_table := table, ht_capacity := ?cap, ht_capacitymask := ?cap - 1,
             ht_threshold := load_threshold ?cap (ht_loadfactor t)\<rparr>"
  have thr: "unat (load_threshold ?cap (ht_loadfactor t)) = 2 ^ k"
    unfolding k(4) using load_threshold_half [of "Suc k"] k(1) k' by simp
  have "HashTable_resize shift t ?cap = Some ?t"
    using tb(1) unat_pow [OF k'] by (simp add: HashTable_resize_def Let_def)
  moreover have "HashTable_wf shift ?t"
    unfolding HashTable_wf_def using k tb k' thr half by (intro exI [of _ "Suc k"]) simp
  moreover have "ht_size ?t \<le> ht_threshold ?t" using k thr half by (simp add: word_le_nat_alt)
  ultimately show ?thesis using tb(3) cap by (simp add: HashTable_map_def)
qed

text \<open>
  On a well-formed table \<open>put\<close>, \<open>get\<close> and \<open>contains\<close> return and work on the map.
\<close>

lemma HashTable_slot:
  assumes "HashTable_wf shift t" and key: "key \<noteq> 0"
  obtains (found) s where
      "find_slot (ht_table t) (ht_capacitymask t) key (hash_index shift key) = Some (True, s)"
      "s \<in> used (ht_table t)" "hn_key (ht_table t ! s) = key" "HashTable_map t key = Some (hn_val (ht_table t ! s))"
  | (free) s where
      "find_slot (ht_table t) (ht_capacitymask t) key (hash_index shift key) = Some (False, s)"
      "HashTable_map t key = None"
proof -
  obtain k where k: "2 \<le> k" "k < 32" "ht_capacitymask t = 2 ^ k - 1" "table_wf shift k (ht_table t)"
      "card (used (ht_table t)) \<le> 2 ^ (k - 1) + 1"
    using assms(1) by (auto simp: HashTable_wf_def)
  have len: "length (ht_table t) = 2 ^ k" using k(4) by (simp add: table_wf_def)
  have "card (used (ht_table t)) < 2 ^ k" using k(5) half_full [OF k(1)] by simp
  then obtain e where e: "e < 2 ^ k" "hn_key (ht_table t ! e) = 0" using room_empty_slot [OF len] by blast
  show ?thesis
    using k(4,2) e key
  proof (cases rule: find_slot_spec)
    case (found s)
    with table_map_at [OF k(4) found(2)] that(1) [of s] k(3) show ?thesis by (simp add: HashTable_map_def)
  next
    case (free d)
    with that(2) k(3) show ?thesis by (simp add: HashTable_map_def)
  qed
qed

lemma HashTable_get_spec:
  "HashTable_wf shift t \<Longrightarrow> key \<noteq> 0 \<Longrightarrow>
     HashTable_get shift t key = Some (case HashTable_map t key of None \<Rightarrow> 0 | Some v \<Rightarrow> v)"
  by (erule (1) HashTable_slot) (simp_all add: HashTable_get_def)

lemma HashTable_contains_spec:
  "HashTable_wf shift t \<Longrightarrow> key \<noteq> 0 \<Longrightarrow>
     HashTable_contains shift t key = Some (HashTable_map t key \<noteq> None)"
  by (erule (1) HashTable_slot) (simp_all add: HashTable_contains_def)

text \<open>\<open>put\<close> once the table has room.\<close>

definition put_in_place :: "nat \<Rightarrow> 'v::zero HashTable \<Rightarrow> uint64 \<Rightarrow> 'v \<Rightarrow> 'v HashTable option" where
  "put_in_place shift t key val = do {
     (found, i) \<leftarrow> find_slot (ht_table t) (ht_capacitymask t) key (hash_index shift key);
     if found then Some (t\<lparr>ht_table := (ht_table t)[i := (ht_table t ! i)\<lparr>hn_val := val\<rparr>]\<rparr>)
     else Some (t\<lparr>ht_table := (ht_table t)[i := \<lparr>hn_key = key, hn_val = val\<rparr>],
                  ht_size := ht_size t + 1\<rparr>)
   }"

lemma put_in_place_spec:
  assumes wf: "HashTable_wf shift t" and key: "key \<noteq> 0" and room: "ht_size t \<le> ht_threshold t"
  shows "\<exists>t'. put_in_place shift t key val = Some t' \<and> HashTable_wf shift t' \<and>
           HashTable_map t' = (HashTable_map t)(key \<mapsto> val) \<and> unat (ht_size t') \<le> unat (ht_size t) + 1"
proof -
  obtain k where k: "2 \<le> k" "k < 32" "ht_capacity t = 2 ^ k" "ht_capacitymask t = 2 ^ k - 1"
      "ht_loadfactor t = 1 / 2" "unat (ht_threshold t) = 2 ^ (k - 1)" "table_wf shift k (ht_table t)"
      "unat (ht_size t) = card (used (ht_table t))" "card (used (ht_table t)) \<le> 2 ^ (k - 1) + 1"
    using wf by (auto simp: HashTable_wf_def)
  have len: "length (ht_table t) = 2 ^ k" using k(7) by (simp add: table_wf_def)
  have le: "card (used (ht_table t)) \<le> 2 ^ (k - 1)" using room k(6,8) by (simp add: word_le_nat_alt)
  have "card (used (ht_table t)) < 2 ^ k" using k(9) half_full [OF k(1)] by simp
  then obtain e where e: "e < 2 ^ k" "hn_key (ht_table t ! e) = 0" using room_empty_slot [OF len] by blast
  show ?thesis
    using k(7,2) e key
  proof (cases rule: find_slot_spec)
    case (found s)
    let ?n = "(ht_table t ! s)\<lparr>hn_val := val\<rparr>"
    let ?t = "t\<lparr>ht_table := (ht_table t)[s := ?n]\<rparr>"
    note ow = overwrite_value [OF k(7) found(2), of ?n]
    have "put_in_place shift t key val = Some ?t" using found(1) k(4) by (simp add: put_in_place_def)
    moreover have "HashTable_wf shift ?t" unfolding HashTable_wf_def using k ow by (intro exI [of _ k]) simp
    moreover have "HashTable_map ?t = (HashTable_map t)(key \<mapsto> val)"
      using table_map_write [OF k(7) _ ow(1)] found(2,3) key by (simp add: HashTable_map_def used_def)
    ultimately show ?thesis by simp
  next
    case (free d)
    let ?s = "slot_at k (home shift k key) d" and ?n = "\<lparr>hn_key = key, hn_val = val\<rparr>"
    let ?t = "t\<lparr>ht_table := (ht_table t)[?s := ?n], ht_size := ht_size t + 1\<rparr>"
    note ins = insert_new [OF k(7) free(1,3,5) key free(4), of ?n]
    have "?s \<notin> used (ht_table t)" using free(3) by (simp add: used_def)
    then have card: "card (used ((ht_table t)[?s := ?n])) = card (used (ht_table t)) + 1"
      using ins(2) by simp
    have "(2 ^ (k - 1) :: nat) \<le> 2 ^ 30" using k(2) by (intro power_increasing) auto
    then have size: "unat (ht_size t + 1) = unat (ht_size t) + 1"
      using le k(8) by (simp add: unat_word_ariths)
    have "put_in_place shift t key val = Some ?t" using free(2) k(4) by (simp add: put_in_place_def)
    moreover have "HashTable_wf shift ?t"
      unfolding HashTable_wf_def using k ins le card size by (intro exI [of _ k]) simp
    moreover have "HashTable_map ?t = (HashTable_map t)(key \<mapsto> val)"
      using table_map_write [OF k(7) _ ins(1)] free(3) key len by (simp add: HashTable_map_def)
    ultimately show ?thesis using size by simp
  qed
qed

lemma HashTable_put_spec:
  assumes wf: "HashTable_wf shift t" and key: "key \<noteq> 0" and room: "unat (ht_size t) \<le> 2 ^ 30"
  shows "\<exists>t'. HashTable_put shift t key val = Some t' \<and> HashTable_wf shift t' \<and>
           HashTable_map t' = (HashTable_map t)(key \<mapsto> val) \<and> unat (ht_size t') \<le> unat (ht_size t) + 1"
proof (cases "ht_size t > ht_threshold t")
  case True
  with HashTable_resize_spec [OF wf True room] obtain t1
    where t1: "HashTable_resize shift t (push_bit 1 (ht_capacity t)) = Some t1" "HashTable_wf shift t1"
      "HashTable_map t1 = HashTable_map t" "ht_size t1 = ht_size t" "ht_size t1 \<le> ht_threshold t1" by blast
  have "HashTable_put shift t key val = put_in_place shift t1 key val"
    using True t1(1) key by (simp add: HashTable_put_def put_in_place_def)
  with put_in_place_spec [OF t1(2) key t1(5), of val] t1(3,4) show ?thesis by simp
next
  case False
  then have "HashTable_put shift t key val = put_in_place shift t key val"
    using key by (simp add: HashTable_put_def put_in_place_def)
  with put_in_place_spec [OF wf key] False show ?thesis by simp
qed

section \<open>The interface\<close>

text \<open>
  What the clients of the table rely on: a map from nonzero keys that can be updated while it is
  not too full; a missing key reads as zero.
\<close>

fun put_all :: "('t \<Rightarrow> 'k \<Rightarrow> 'v \<Rightarrow> 't option) \<Rightarrow> 't \<Rightarrow> ('k \<times> 'v) list \<Rightarrow> 't option" where
  "put_all put t [] = Some t"
| "put_all put t ((k, v) # kvs) = Option.bind (put t k v) (\<lambda>t'. put_all put t' kvs)"

locale pointer_map =
  fixes put :: "'t \<Rightarrow> 'k::zero \<Rightarrow> 'v::zero \<Rightarrow> 't option"
    and get :: "'t \<Rightarrow> 'k \<Rightarrow> 'v option"
    and contains :: "'t \<Rightarrow> 'k \<Rightarrow> bool option"
    and lookup :: "'t \<Rightarrow> 'k \<rightharpoonup> 'v"
    and invar :: "'t \<Rightarrow> bool"
    and load :: "'t \<Rightarrow> nat"
    and limit :: nat
  assumes put_map: "invar t \<Longrightarrow> k \<noteq> 0 \<Longrightarrow> load t \<le> limit \<Longrightarrow>
        \<exists>t'. put t k v = Some t' \<and> invar t' \<and> lookup t' = (lookup t)(k \<mapsto> v) \<and> load t' \<le> load t + 1"
    and get_map: "invar t \<Longrightarrow> k \<noteq> 0 \<Longrightarrow> get t k = Some (case lookup t k of None \<Rightarrow> 0 | Some v \<Rightarrow> v)"
    and contains_map: "invar t \<Longrightarrow> k \<noteq> 0 \<Longrightarrow> contains t k = Some (lookup t k \<noteq> None)"
begin

lemma get_put:
  assumes "invar t" "k \<noteq> 0" "k' \<noteq> 0" "load t \<le> limit"
  shows "\<exists>t'. put t k v = Some t' \<and> get t' k' = (if k' = k then Some v else get t k') \<and>
              contains t' k' = (if k' = k then Some True else contains t k')"
  using put_map [OF assms(1,2,4), of v] get_map contains_map assms by auto

lemma put_all_map:
  assumes "invar t" "0 \<notin> fst ` set kvs" "load t + length kvs \<le> limit + 1"
  shows "\<exists>t'. put_all put t kvs = Some t' \<and> invar t' \<and> lookup t' = lookup t ++ map_of (rev kvs)"
  using assms
proof (induction kvs arbitrary: t)
  case (Cons kv kvs)
  obtain k v where kv: "kv = (k, v)" by fastforce
  with Cons.prems put_map [of t k v] obtain t1 where t1: "put t k v = Some t1" "invar t1"
      "lookup t1 = (lookup t)(k \<mapsto> v)" "load t1 \<le> load t + 1"
    by auto
  have "0 \<notin> fst ` set kvs" "load t1 + length kvs \<le> limit + 1" using Cons.prems(2,3) t1(4) by auto
  from Cons.IH [OF t1(2) this] obtain t' where "put_all put t1 kvs = Some t'" "invar t'"
      "lookup t' = lookup t1 ++ map_of (rev kvs)"
    by blast
  with t1 kv show ?case
    by (auto simp: map_add_def fun_eq_iff map_of_append split: option.splits)
qed simp

lemma put_all_get:
  assumes "invar t" "lookup t = Map.empty" "0 \<notin> fst ` set kvs" "load t + length kvs \<le> limit + 1" "k \<noteq> 0"
  shows "\<exists>t'. put_all put t kvs = Some t' \<and>
              get t' k = Some (case map_of (rev kvs) k of None \<Rightarrow> 0 | Some v \<Rightarrow> v) \<and>
              contains t' k = Some (k \<in> fst ` set kvs)"
proof -
  from put_all_map [OF assms(1,3,4)] assms(2) obtain t' where t': "put_all put t kvs = Some t'" "invar t'"
      "lookup t' = map_of (rev kvs)"
    by auto
  moreover have "map_of (rev kvs) k \<noteq> None \<longleftrightarrow> k \<in> fst ` set kvs"
    using map_of_eq_None_iff [of "rev kvs" k] by auto
  ultimately show ?thesis
    using get_map [OF t'(2) assms(5)] contains_map [OF t'(2) assms(5)] by simp
qed

end

interpretation ht: pointer_map "HashTable_put shift" "HashTable_get shift" "HashTable_contains shift"
    HashTable_map "HashTable_wf shift" "\<lambda>t. unat (ht_size t)" "2 ^ 30" for shift
  by unfold_locales (rule HashTable_put_spec HashTable_get_spec HashTable_contains_spec; assumption)+

section \<open>Properties\<close>

text \<open>
  (C8) The hash table is a map. From a fresh table, any sequence of at most \<open>2 ^ 30\<close> calls of
  \<open>put\<close> with nonzero keys returns, through all the growing of the table it causes; afterwards
  \<open>get\<close> returns, with the value put last for the key or zero, and \<open>contains\<close> says whether the
  key was put.
\<close>

theorem HashTable_is_map:
  assumes "2 \<le> k" "k < 32" "0 \<notin> fst ` set kvs" "length kvs \<le> 2 ^ 30" "key \<noteq> 0"
  shows "\<exists>t. put_all (HashTable_put shift) (new_HashTable (2 ^ k) (1 / 2)) kvs = Some t \<and>
           HashTable_get shift t key = Some (case map_of (rev kvs) key of None \<Rightarrow> 0 | Some v \<Rightarrow> v) \<and>
           HashTable_contains shift t key = Some (key \<in> fst ` set kvs)"
proof -
  have "unat (ht_size (new_HashTable (2 ^ k) (1 / 2) :: 'a HashTable)) = 0" by (simp add: new_HashTable_def)
  with ht.put_all_get [OF new_HashTable_wf [OF assms(1,2)] assms(3) _ assms(5)] assms(4)
  show ?thesis by simp
qed

theorem HashTable_is_map_witness:
  "\<exists>t. put_all (HashTable_put 4) (new_HashTable (2 ^ 4) (1 / 2)) [(0x100, 7), (0x200, 8), (0x100, 9)] = Some t \<and>
     HashTable_get 4 t 0x100 = Some (9 :: nat) \<and> HashTable_contains 4 t 0x200 = Some True"
proof -
  let ?kvs = "[(0x100, 7), (0x200, 8), (0x100, 9)] :: (uint64 \<times> nat) list"
  have "0 \<notin> fst ` set ?kvs" "length ?kvs \<le> 2 ^ 30" by simp_all
  from HashTable_is_map [OF _ _ this, of 4 "0x100" 4] HashTable_is_map [OF _ _ this, of 4 "0x200" 4]
  show ?thesis by auto
qed

end
