(* ===== verification/Threads.thy ===== *)
theory Threads
  imports Action
begin

text \<open>
  \<open>threads-model.h\<close> and \<open>threads.cc\<close>: the thread objects of the checked program. A
  \<open>Thread *\<close> is the id of the thread. Contexts and stacks (\<open>create_context\<close>, \<open>swap\<close>)
  are the business of the C library; of \<open>swap\<close> only the change of state remains.
\<close>

section \<open>Threads\<close>

datatype thread_state =
    THREAD_CREATED
  | THREAD_RUNNING
  | THREAD_READY
  | THREAD_BLOCKED
  | THREAD_COMPLETED

record Thread =
  th_parent :: "thread_id_t option"
  th_creation :: "act_ref option"
  th_pending :: "act_ref option"
  th_user_thread :: "addr option"
  th_id :: thread_id_t
  th_state :: thread_state
  th_last_action_val :: uint64
  th_model_thread :: bool

type_synonym thread_store = "thread_id_t \<Rightarrow> Thread"

definition new_model_Thread :: "thread_id_t \<Rightarrow> Thread" where
  "new_model_Thread tid =
     \<lparr>th_parent = None, th_creation = None, th_pending = None, th_user_thread = None,
      th_id = tid, th_state = THREAD_READY, th_last_action_val = 0, th_model_thread = True\<rparr>"

text \<open>A user thread; its constructor stores the object in the user's \<open>thrd_t\<close>.\<close>

definition new_Thread ::
    "(addr \<rightharpoonup> thread_id_t) \<Rightarrow> thread_id_t \<Rightarrow> addr \<Rightarrow> thread_id_t option \<Rightarrow> Thread \<times> (addr \<rightharpoonup> thread_id_t)" where
  "new_Thread thrd_priv tid t parent =
     (\<lparr>th_parent = parent, th_creation = None, th_pending = None, th_user_thread = Some t,
       th_id = tid, th_state = THREAD_CREATED, th_last_action_val = VALUE_NONE,
       th_model_thread = False\<rparr>,
      thrd_priv(t \<mapsto> tid))"

definition is_complete :: "Thread \<Rightarrow> bool" where
  "is_complete t \<longleftrightarrow> th_state t = THREAD_COMPLETED"

definition is_blocked :: "Thread \<Rightarrow> bool" where
  "is_blocked t \<longleftrightarrow> th_state t = THREAD_BLOCKED"

definition set_state :: "Thread \<Rightarrow> thread_state \<Rightarrow> Thread option" where
  "set_state t s = do {
     ASSERT (s = THREAD_COMPLETED \<or> th_state t \<noteq> THREAD_COMPLETED);
     Some (t\<lparr>th_state := s\<rparr>)
   }"

definition Thread_complete :: "Thread \<Rightarrow> Thread option" where
  "Thread_complete t = do { ASSERT (\<not> is_complete t); Some (t\<lparr>th_state := THREAD_COMPLETED\<rparr>) }"

definition swap_to_system :: "Thread \<Rightarrow> Thread option" where
  "swap_to_system t = set_state t THREAD_READY"

definition swap_to_thread :: "Thread \<Rightarrow> Thread option" where
  "swap_to_thread t = set_state t THREAD_RUNNING"

section \<open>Waiting\<close>

text \<open>
  What \<open>waiting_on\<close> reads outside the thread: the actions, the thread a \<open>thrd_t\<close> or a
  thread address stands for, and the thread that holds a mutex.
\<close>

record wait_env =
  we_acts :: act_store
  we_thrd_priv :: "addr \<Rightarrow> thread_id_t option"
  we_thread_at :: "addr \<Rightarrow> thread_id_t option"
  we_locked :: "addr \<Rightarrow> thread_id_t option"

definition waiting_on :: "wait_env \<Rightarrow> Thread \<Rightarrow> thread_id_t option" where
  "waiting_on env t =
     (case th_pending t of
        None \<Rightarrow> None
      | Some p \<Rightarrow>
          let pending = we_acts env p
          in if ma_type pending = THREAD_JOIN
             then get_thread_operand (we_thrd_priv env) (we_thread_at env) pending
             else if is_lock pending
             then Option.bind (get_mutex pending) (we_locked env)
             else None)"

text \<open>The loop of \<open>is_waiting_on\<close>, over the function that follows the chain by one step.\<close>

partial_function (option) wait_loop ::
    "(thread_id_t \<Rightarrow> thread_id_t option) \<Rightarrow> thread_id_t \<Rightarrow> thread_id_t option \<Rightarrow> bool option" where
  "wait_loop nxt t wait =
     (case wait of
        None \<Rightarrow> Some False
      | Some w \<Rightarrow> if w = t then Some True else wait_loop nxt t (nxt w))"

declare wait_loop.simps [code]

definition is_waiting_on :: "wait_env \<Rightarrow> thread_store \<Rightarrow> thread_id_t \<Rightarrow> thread_id_t \<Rightarrow> bool option" where
  "is_waiting_on env threads this t =
     wait_loop (\<lambda>w. waiting_on env (threads w)) t (waiting_on env (threads this))"

section \<open>The wait relation\<close>

definition wait_rel :: "(thread_id_t \<Rightarrow> thread_id_t option) \<Rightarrow> (thread_id_t \<times> thread_id_t) set" where
  "wait_rel nxt = {(a, b). nxt a = Some b}"

lemma wait_rel_iff [simp]: "(a, b) \<in> wait_rel nxt \<longleftrightarrow> nxt a = Some b"
  by (simp add: wait_rel_def)

lemma wait_rel_single_valued: "single_valued (wait_rel nxt)"
  by (auto simp: single_valued_def)

text \<open>The loop finds the thread if the chain meets it, however the chain goes on.\<close>

lemma wait_loop_found:
  assumes "(w, t) \<in> (wait_rel nxt)\<^sup>*"
  shows "wait_loop nxt t (Some w) = Some True"
  using assms
proof (induction rule: converse_rtrancl_induct)
  case base
  then show ?case by (simp add: wait_loop.simps [of nxt t "Some t"])
next
  case (step a b)
  then show ?case by (simp add: wait_loop.simps [of nxt t "Some a"])
qed

text \<open>It answers no if the chain ends without meeting the thread.\<close>

lemma wait_loop_ends:
  assumes "(w, e) \<in> (wait_rel nxt)\<^sup>*" and "nxt e = None" and "(w, t) \<notin> (wait_rel nxt)\<^sup>*"
  shows "wait_loop nxt t (Some w) = Some False"
  using assms(1,3)
proof (induction rule: converse_rtrancl_induct)
  case base
  then have "e \<noteq> t" by auto
  with assms(2) show ?case
    by (simp add: wait_loop.simps [of nxt t "Some e"] wait_loop.simps [of nxt t None])
next
  case (step a b)
  then have "a \<noteq> t" "(b, t) \<notin> (wait_rel nxt)\<^sup>*" by (auto intro: converse_rtrancl_into_rtrancl)
  with step show ?case by (simp add: wait_loop.simps [of nxt t "Some a"])
qed

text \<open>It runs for ever on a chain that neither ends nor meets the thread.\<close>

lemma wait_loop_result:
  assumes "wait_loop nxt t x = Some b"
  shows "x = None \<or> (\<exists>w e. x = Some w \<and> (w, e) \<in> (wait_rel nxt)\<^sup>* \<and> (e = t \<or> nxt e = None))"
  using assms
proof (rule wait_loop.raw_induct [where P = "\<lambda>nxt t x b. x = None \<or>
      (\<exists>w e. x = Some w \<and> (w, e) \<in> (wait_rel nxt)\<^sup>* \<and> (e = t \<or> nxt e = None))", rotated])
  fix loop :: "(thread_id_t \<Rightarrow> thread_id_t option) \<Rightarrow> thread_id_t \<Rightarrow> thread_id_t option \<Rightarrow> bool option"
    and nxt t x b
  assume IH: "\<And>nxt t x b. loop nxt t x = Some b \<Longrightarrow> x = None \<or>
      (\<exists>w e. x = Some w \<and> (w, e) \<in> (wait_rel nxt)\<^sup>* \<and> (e = t \<or> nxt e = None))"
    and res: "(case x of None \<Rightarrow> Some False | Some w \<Rightarrow> if w = t then Some True else loop nxt t (nxt w)) = Some b"
  show "x = None \<or> (\<exists>w e. x = Some w \<and> (w, e) \<in> (wait_rel nxt)\<^sup>* \<and> (e = t \<or> nxt e = None))"
  proof (cases x)
    case (Some w)
    show ?thesis
    proof (cases "w = t \<or> nxt w = None")
      case True
      with Some show ?thesis by blast
    next
      case False
      with res Some IH [of nxt t "nxt w" b] obtain v e
        where "nxt w = Some v" "(v, e) \<in> (wait_rel nxt)\<^sup>*" "e = t \<or> nxt e = None" by auto
      moreover from this have "(w, e) \<in> (wait_rel nxt)\<^sup>*"
        by (intro converse_rtrancl_into_rtrancl [of w v]) simp_all
      ultimately show ?thesis using Some by blast
    qed
  qed simp
qed

lemma wait_loop_diverges:
  assumes "\<And>e. (w, e) \<in> (wait_rel nxt)\<^sup>* \<Longrightarrow> nxt e \<noteq> None" and "(w, t) \<notin> (wait_rel nxt)\<^sup>*"
  shows "wait_loop nxt t (Some w) = None"
proof (cases "wait_loop nxt t (Some w)")
  case (Some b)
  from wait_loop_result [OF this] assms show ?thesis by blast
qed

lemma wait_loop_outcome:
  "wait_loop nxt t (nxt this) =
    (if (this, t) \<in> (wait_rel nxt)\<^sup>+ then Some True
     else if (\<exists>e. (this, e) \<in> (wait_rel nxt)\<^sup>* \<and> nxt e = None) then Some False
     else None)"
proof (cases "nxt this")
  case None
  then have "wait_loop nxt t (nxt this) = Some False"
    by (simp add: wait_loop.simps [of _ t None])
  moreover have "(this, t) \<notin> (wait_rel nxt)\<^sup>+" using None by (auto dest: tranclD)
  ultimately show ?thesis using None by auto
next
  case (Some w)
  have step: "(this, w) \<in> wait_rel nxt" using Some by simp
  have reach: "(this, e) \<in> (wait_rel nxt)\<^sup>* \<and> nxt e = None \<longleftrightarrow> (w, e) \<in> (wait_rel nxt)\<^sup>* \<and> nxt e = None" for e
    using Some step converse_rtrancl_into_rtrancl [OF step, of e]
    by (auto elim: converse_rtranclE)
  have hit: "(this, t) \<in> (wait_rel nxt)\<^sup>+ \<longleftrightarrow> (w, t) \<in> (wait_rel nxt)\<^sup>*"
    using Some step by (auto dest: tranclD intro: rtrancl_into_trancl2)
  consider "(w, t) \<in> (wait_rel nxt)\<^sup>*"
    | e where "(w, t) \<notin> (wait_rel nxt)\<^sup>*" "(w, e) \<in> (wait_rel nxt)\<^sup>*" "nxt e = None"
    | "(w, t) \<notin> (wait_rel nxt)\<^sup>*" "\<And>e. (w, e) \<in> (wait_rel nxt)\<^sup>* \<Longrightarrow> nxt e \<noteq> None"
    by blast
  then show ?thesis
  proof cases
    case 1
    then show ?thesis using wait_loop_found hit Some by simp
  next
    case (2 e)
    then show ?thesis using wait_loop_ends [OF 2(2,3,1)] reach hit Some by auto
  next
    case 3
    then show ?thesis using wait_loop_diverges [OF 3(2,1)] reach hit Some by auto
  qed
qed

text \<open>The wait relation of the threads of an execution.\<close>

definition waits :: "wait_env \<Rightarrow> thread_store \<Rightarrow> (thread_id_t \<times> thread_id_t) set" where
  "waits env threads = wait_rel (\<lambda>w. waiting_on env (threads w))"

section \<open>Properties\<close>

text \<open>
  (C9) \<open>is_waiting_on\<close> follows the chain of waiting threads. It answers yes exactly when the
  chain meets the given thread, and no when the chain ends before; it does not return when the chain
  runs into a cycle that does not contain the given thread, as a third thread does that waits for
  one of two deadlocked threads.
\<close>

theorem is_waiting_on_outcome:
  "is_waiting_on env threads this t =
    (if (this, t) \<in> (waits env threads)\<^sup>+ then Some True
     else if (\<exists>e. (this, e) \<in> (waits env threads)\<^sup>* \<and> waiting_on env (threads e) = None) then Some False
     else None)"
  unfolding is_waiting_on_def waits_def
  by (rule wait_loop_outcome [where nxt = "\<lambda>w. waiting_on env (threads w)"])

end
