(* ===== verification/Schedule.thy ===== *)
theory Schedule
  imports Threads
begin

text \<open>
  \<open>schedule.h\<close> and \<open>schedule.cc\<close>: the scheduler's record of which threads may run. The array
  \<open>enabled\<close> has \<open>enabled_len\<close> entries, the length of the list here. Disabling a thread calls
  \<open>ModelExecution::check_promises_thread_disabled\<close>; the operations that can do so say with a
  flag whether they call it. The selection of the next thread needs the nodes and has a theory of
  its own.
\<close>

section \<open>State\<close>

datatype enabled_type = THREAD_DISABLED | THREAD_ENABLED | THREAD_SLEEP_SET

record Scheduler =
  sc_enabled :: "enabled_type list"
  sc_curr_thread_index :: nat
  sc_current :: "thread_id_t option"

definition new_Scheduler :: Scheduler where
  "new_Scheduler = \<lparr>sc_enabled = [], sc_curr_thread_index = 0, sc_current = None\<rparr>"

fun enabled_type_to_string :: "enabled_type \<Rightarrow> string" where
  "enabled_type_to_string THREAD_DISABLED = ''disabled''"
| "enabled_type_to_string THREAD_ENABLED = ''enabled''"
| "enabled_type_to_string THREAD_SLEEP_SET = ''sleep''"

section \<open>Operations\<close>

definition set_enabled :: "Scheduler \<Rightarrow> thread_id_t \<Rightarrow> enabled_type \<Rightarrow> bool \<times> Scheduler" where
  "set_enabled s t status =
     (let threadid = id_to_int t;
          len = length (sc_enabled s);
          en = (if threadid \<ge> len
                then sc_enabled s @ replicate (threadid + 1 - len) THREAD_DISABLED
                else sc_enabled s)
      in (status = THREAD_DISABLED, s\<lparr>sc_enabled := en[threadid := status]\<rparr>))"

definition Scheduler_is_enabled :: "Scheduler \<Rightarrow> thread_id_t \<Rightarrow> bool" where
  "Scheduler_is_enabled s tid =
     (let i = id_to_int tid
      in if i \<ge> length (sc_enabled s) then False else sc_enabled s ! i \<noteq> THREAD_DISABLED)"

definition get_enabled :: "Scheduler \<Rightarrow> thread_id_t \<Rightarrow> enabled_type option" where
  "get_enabled s t =
     (let i = id_to_int t
      in do { ASSERT (i < length (sc_enabled s)); Some (sc_enabled s ! i) })"

definition is_sleep_set :: "Scheduler \<Rightarrow> thread_id_t \<Rightarrow> bool option" where
  "is_sleep_set s t = do { e \<leftarrow> get_enabled s t; Some (e = THREAD_SLEEP_SET) }"

text \<open>The loop of \<open>all_threads_sleeping\<close>, with its flag as an accumulator.\<close>

fun sleeping_loop :: "enabled_type list \<Rightarrow> bool \<Rightarrow> bool" where
  "sleeping_loop [] sleeping = sleeping"
| "sleeping_loop (e # es) sleeping =
     (if e = THREAD_ENABLED then False
      else if e = THREAD_SLEEP_SET then sleeping_loop es True
      else sleeping_loop es sleeping)"

definition all_threads_sleeping :: "Scheduler \<Rightarrow> bool" where
  "all_threads_sleeping s = sleeping_loop (sc_enabled s) False"

definition add_sleep :: "Scheduler \<Rightarrow> thread_id_t \<Rightarrow> bool \<times> Scheduler" where
  "add_sleep s t = set_enabled s t THREAD_SLEEP_SET"

definition remove_sleep :: "Scheduler \<Rightarrow> thread_id_t \<Rightarrow> bool \<times> Scheduler" where
  "remove_sleep s t = set_enabled s t THREAD_ENABLED"

text \<open>The operations below also look at or change the thread object.\<close>

definition Scheduler_add_thread :: "thread_store \<Rightarrow> Scheduler \<Rightarrow> thread_id_t \<Rightarrow> (bool \<times> Scheduler) option" where
  "Scheduler_add_thread threads s t = do {
     ASSERT (\<not> th_model_thread (threads t));
     Some (set_enabled s t THREAD_ENABLED)
   }"

definition remove_thread :: "Scheduler \<Rightarrow> thread_id_t \<Rightarrow> bool \<times> Scheduler" where
  "remove_thread s t =
     set_enabled (if sc_current s = Some t then s\<lparr>sc_current := None\<rparr> else s) t THREAD_DISABLED"

definition Scheduler_sleep ::
    "thread_store \<Rightarrow> Scheduler \<Rightarrow> thread_id_t \<Rightarrow> (bool \<times> Scheduler \<times> thread_store) option" where
  "Scheduler_sleep threads s t = do {
     let (check, s') = set_enabled s t THREAD_DISABLED;
     th \<leftarrow> set_state (threads t) THREAD_BLOCKED;
     Some (check, s', threads(t := th))
   }"

definition wake ::
    "thread_store \<Rightarrow> Scheduler \<Rightarrow> thread_id_t \<Rightarrow> (bool \<times> Scheduler \<times> thread_store) option" where
  "wake threads s t = do {
     ASSERT (\<not> th_model_thread (threads t));
     let (check, s') = set_enabled s t THREAD_ENABLED;
     th \<leftarrow> set_state (threads t) THREAD_READY;
     Some (check, s', threads(t := th))
   }"

definition set_scheduler_thread :: "Scheduler \<Rightarrow> thread_id_t \<Rightarrow> Scheduler" where
  "set_scheduler_thread s tid = s\<lparr>sc_curr_thread_index := id_to_int tid\<rparr>"

definition set_current_thread :: "thread_store \<Rightarrow> Scheduler \<Rightarrow> thread_id_t option \<Rightarrow> Scheduler option" where
  "set_current_thread threads s t = do {
     ASSERT (case t of None \<Rightarrow> True | Some i \<Rightarrow> \<not> th_model_thread (threads i));
     Some (s\<lparr>sc_current := t\<rparr>)
   }"

definition get_current_thread :: "thread_store \<Rightarrow> Scheduler \<Rightarrow> thread_id_t option option" where
  "get_current_thread threads s = do {
     ASSERT (case sc_current s of None \<Rightarrow> True | Some i \<Rightarrow> \<not> th_model_thread (threads i));
     Some (sc_current s)
   }"

section \<open>Status of a thread\<close>

text \<open>A thread beyond the end of the array is disabled.\<close>

definition status :: "Scheduler \<Rightarrow> thread_id_t \<Rightarrow> enabled_type" where
  "status s t = (if t < length (sc_enabled s) then sc_enabled s ! t else THREAD_DISABLED)"

lemma status_set_enabled: "status (snd (set_enabled s t e)) t' = (if t' = t then e else status s t')"
  by (auto simp: status_def set_enabled_def Let_def id_to_int_def nth_append nth_list_update)

lemma set_enabled_frame [simp]:
  "sc_current (snd (set_enabled s t e)) = sc_current s"
  "sc_curr_thread_index (snd (set_enabled s t e)) = sc_curr_thread_index s"
  "length (sc_enabled (snd (set_enabled s t e))) = max (length (sc_enabled s)) (Suc t)"
  by (auto simp: set_enabled_def Let_def id_to_int_def)

lemma Scheduler_is_enabled_status: "Scheduler_is_enabled s t \<longleftrightarrow> status s t \<noteq> THREAD_DISABLED"
  by (simp add: Scheduler_is_enabled_def status_def id_to_int_def)

lemma sleeping_loop_iff:
  "sleeping_loop es b \<longleftrightarrow> THREAD_ENABLED \<notin> set es \<and> (b \<or> THREAD_SLEEP_SET \<in> set es)"
  by (induction es arbitrary: b) auto

lemma all_threads_sleeping_iff:
  "all_threads_sleeping s \<longleftrightarrow> (\<forall>t. status s t \<noteq> THREAD_ENABLED) \<and> (\<exists>t. status s t = THREAD_SLEEP_SET)"
  by (auto simp: all_threads_sleeping_def sleeping_loop_iff status_def in_set_conv_nth)

end
