(* ===== verification/NodeStack.thy ===== *)
theory NodeStack
  imports Schedule Promise
begin

unbundle bit_operations_syntax

text \<open>
  \<open>nodestack.h\<close> and \<open>nodestack.cc\<close>: the stack of choices the search backtracks over. A
  \<open>Node *\<close> is the position of the node in \<open>node_list\<close>; nodes are only removed from the end.
  An array that may still be \<open>NULL\<close> is an \<open>option\<close>, and \<open>None\<close> is the result of an
  operation that dereferences it. Vector indices are far below \<open>2 ^ 31\<close> and unbounded here, the
  counters of the fairness window are \<open>unsigned int\<close>.
\<close>

section \<open>State\<close>

record model_params =
  mp_maxreads :: int
  mp_maxfuturedelay :: int
  mp_yieldon :: bool
  mp_yieldblock :: bool
  mp_fairwindow :: "32 word"
  mp_enabledcount :: "32 word"
  mp_bound :: "32 word"
  mp_uninitvalue :: "32 word"
  mp_maxexecutions :: int
  mp_maxfuturevalues :: int
  mp_expireslop :: "32 word"
  mp_verbose :: int

record fairness_info =
  fi_enabled_count :: "32 word"
  fi_turns :: "32 word"
  fi_priority :: bool

datatype read_from_type =
    READ_FROM_PAST
  | READ_FROM_PROMISE
  | READ_FROM_FUTURE
  | READ_FROM_NONE

record Node =
  nd_read_from_status :: read_from_type
  nd_action :: act_ref
  nd_uninit_action :: "act_ref option"
  nd_parent :: "node_ref option"
  nd_num_threads :: nat
  nd_explored_children :: "bool list"
  nd_backtrack :: "bool list"
  nd_fairness :: "fairness_info list"
  nd_numBacktracks :: int
  nd_enabled_array :: "enabled_type list option"
  nd_read_from_past :: "act_ref list"
  nd_read_from_past_idx :: nat
  nd_read_from_promises :: "act_ref list"
  nd_read_from_promise_idx :: int
  nd_future_values :: "future_value list"
  nd_future_index :: int
  nd_resolve_promise :: "bool list"
  nd_resolve_promise_idx :: int
  nd_relseq_break_writes :: "act_ref option list"
  nd_relseq_break_index :: int
  nd_misc_index :: int
  nd_misc_max :: int
  nd_yield_data :: "32 word list option"

record NodeStack =
  ns_node_list :: "Node list"
  ns_head_idx :: int
  ns_total_nodes :: int

section \<open>Enabled threads of a node\<close>

definition Node_is_enabled :: "Node \<Rightarrow> thread_id_t \<Rightarrow> bool option" where
  "Node_is_enabled n tid =
     (let thread_id = id_to_int tid
      in if thread_id < nd_num_threads n
         then do { en \<leftarrow> nd_enabled_array n; e \<leftarrow> vec_at en thread_id; Some (e \<noteq> THREAD_DISABLED) }
         else Some False)"

definition enabled_status :: "Node \<Rightarrow> thread_id_t \<Rightarrow> enabled_type option" where
  "enabled_status n tid =
     (let thread_id = id_to_int tid
      in if thread_id < nd_num_threads n
         then do { en \<leftarrow> nd_enabled_array n; vec_at en thread_id }
         else Some THREAD_DISABLED)"

definition has_priority :: "Node \<Rightarrow> thread_id_t \<Rightarrow> bool option" where
  "has_priority n tid = do { fi \<leftarrow> vec_at (nd_fairness n) (id_to_int tid); Some (fi_priority fi) }"

section \<open>Construction\<close>

definition zero_fairness :: fairness_info where
  "zero_fairness = \<lparr>fi_enabled_count = 0, fi_turns = 0, fi_priority = False\<rparr>"

text \<open>The initialisers of the constructor.\<close>

definition blank_Node :: "act_ref \<Rightarrow> node_ref option \<Rightarrow> nat \<Rightarrow> Node" where
  "blank_Node act par nthreads =
     \<lparr>nd_read_from_status = READ_FROM_PAST, nd_action = act, nd_uninit_action = None,
      nd_parent = par, nd_num_threads = nthreads,
      nd_explored_children = replicate nthreads False, nd_backtrack = replicate nthreads False,
      nd_fairness = replicate nthreads zero_fairness, nd_numBacktracks = 0,
      nd_enabled_array = None, nd_read_from_past = [], nd_read_from_past_idx = 0,
      nd_read_from_promises = [], nd_read_from_promise_idx = -1,
      nd_future_values = [], nd_future_index = -1,
      nd_resolve_promise = [], nd_resolve_promise_idx = -1,
      nd_relseq_break_writes = [], nd_relseq_break_index = 0,
      nd_misc_index = 0, nd_misc_max = 0, nd_yield_data = None\<rparr>"

text \<open>
  The fairness loop. A thread that was enabled, or whose turn it is, enters the window
  (\<open>enabled\<close>, \<open>own\<close>); then the oldest action leaves it, and a full window decides about the
  priority.
\<close>

definition fairness_enter :: "bool \<Rightarrow> bool \<Rightarrow> fairness_info \<Rightarrow> fairness_info" where
  "fairness_enter enabled own fi =
     (let fi = (if enabled then fi\<lparr>fi_enabled_count := fi_enabled_count fi + 1\<rparr> else fi)
      in if own then fi\<lparr>fi_turns := fi_turns fi + 1, fi_priority := False\<rparr> else fi)"

definition fairness_leave :: "model_params \<Rightarrow> bool \<Rightarrow> bool \<Rightarrow> fairness_info \<Rightarrow> fairness_info" where
  "fairness_leave params enabled own fi =
     (let fi = (if enabled then fi\<lparr>fi_enabled_count := fi_enabled_count fi - 1\<rparr> else fi);
          fi = (if own then fi\<lparr>fi_turns := fi_turns fi - 1\<rparr> else fi)
      in if fi_enabled_count fi \<ge> mp_enabledcount params \<and> fi_turns fi = 0
         then fi\<lparr>fi_priority := True\<rparr> else fi)"

text \<open>
  The body of the loop for thread \<open>i\<close>. \<open>parent\<close> is the parent node, and \<open>leaving\<close> the node
  that leaves the window (\<open>prevfairness\<close>) with the thread of its action.
\<close>

definition fairness_step ::
    "model_params \<Rightarrow> Node list \<Rightarrow> Node option \<Rightarrow> nat \<Rightarrow> (Node \<times> nat) option \<Rightarrow> nat \<Rightarrow> fairness_info option" where
  "fairness_step params nodes parent currtid leaving i = do {
     fi \<leftarrow> (case parent of
              Some p \<Rightarrow> if i < nd_num_threads p then vec_at (nd_fairness p) i else Some zero_fairness
            | None \<Rightarrow> Some zero_fairness);
     en \<leftarrow> (case parent of Some p \<Rightarrow> Node_is_enabled p (int_to_id i) | None \<Rightarrow> Some False);
     (case leaving of
        None \<Rightarrow> Some (fairness_enter en (i = currtid) fi)
      | Some (prevfairness, prevtid) \<Rightarrow> do {
          pp \<leftarrow> nd_parent prevfairness;
          pnode \<leftarrow> vec_at nodes pp;
          pen \<leftarrow> Node_is_enabled pnode (int_to_id i);
          Some (fairness_leave params pen (i = prevtid) (fairness_enter en (i = currtid) fi))
        })
   }"

definition new_Node ::
    "model_params \<Rightarrow> act_store \<Rightarrow> Node list \<Rightarrow> node_ref \<Rightarrow> act_ref \<Rightarrow> node_ref option \<Rightarrow> nat \<Rightarrow>
     node_ref option \<Rightarrow> (Node \<times> act_store) option" where
  "new_Node params acts nodes this act par nthreads prevfairness = do {
     let n = blank_Node act par nthreads;
     let acts' = acts(act := (acts act)\<lparr>ma_node := Some this\<rparr>);
     let currtid = id_to_int (ma_tid (acts act));
     leaving \<leftarrow> (case prevfairness of
                   None \<Rightarrow> Some None
                 | Some pf \<Rightarrow> do { pfn \<leftarrow> vec_at nodes pf;
                                   Some (Some (pfn, id_to_int (ma_tid (acts (nd_action pfn))))) });
     parent \<leftarrow> (case par of None \<Rightarrow> Some None | Some p \<Rightarrow> map_option Some (vec_at nodes p));
     if mp_fairwindow params \<noteq> 0
     then do {
       fair \<leftarrow> mapM (fairness_step params nodes parent currtid leaving) [0..<nthreads];
       Some (n\<lparr>nd_fairness := fair\<rparr>, acts')
     }
     else Some (n, acts')
   }"

section \<open>Backtracking over threads\<close>

definition has_been_explored :: "Node \<Rightarrow> thread_id_t \<Rightarrow> bool option" where
  "has_been_explored n tid = vec_at (nd_explored_children n) (id_to_int tid)"

definition backtrack_empty :: "Node \<Rightarrow> bool" where
  "backtrack_empty n \<longleftrightarrow> nd_numBacktracks n = 0"

definition explore :: "Node \<Rightarrow> thread_id_t \<Rightarrow> Node option" where
  "explore n tid =
     (let i = id_to_int tid
      in do {
        ASSERT (i < length (nd_backtrack n));
        let n' = (if nd_backtrack n ! i
                  then n\<lparr>nd_backtrack := (nd_backtrack n)[i := False],
                         nd_numBacktracks := nd_numBacktracks n - 1\<rparr>
                  else n);
        ASSERT (i < length (nd_explored_children n'));
        Some (n'\<lparr>nd_explored_children := (nd_explored_children n')[i := True]\<rparr>)
      })"

definition explore_child :: "act_store \<Rightarrow> Node \<Rightarrow> act_ref \<Rightarrow> enabled_type list option \<Rightarrow> Node option" where
  "explore_child acts n act is_enabled = do {
     en \<leftarrow> (case is_enabled of
              Some e \<Rightarrow> if nd_num_threads n \<le> length e then Some (take (nd_num_threads n) e) else None
            | None \<Rightarrow> Some (replicate (nd_num_threads n) THREAD_DISABLED));
     explore (n\<lparr>nd_enabled_array := Some en\<rparr>) (ma_tid (acts act))
   }"

definition set_backtrack :: "Node \<Rightarrow> thread_id_t \<Rightarrow> (bool \<times> Node) option" where
  "set_backtrack n tid =
     (let i = id_to_int tid
      in do {
        ASSERT (i < length (nd_backtrack n));
        if nd_backtrack n ! i then Some (False, n)
        else Some (True, n\<lparr>nd_backtrack := (nd_backtrack n)[i := True],
                           nd_numBacktracks := nd_numBacktracks n + 1\<rparr>)
      })"

text \<open>The search loop of \<open>get_next_backtrack\<close>: the first set flag, or the size of the vector.\<close>

fun first_true :: "bool list \<Rightarrow> nat" where
  "first_true [] = 0"
| "first_true (b # bs) = (if b then 0 else Suc (first_true bs))"

definition get_next_backtrack :: "Node \<Rightarrow> (thread_id_t \<times> Node) option" where
  "get_next_backtrack n =
     (let i = first_true (nd_backtrack n)
      in do {
        ASSERT (i \<noteq> length (nd_backtrack n));
        Some (int_to_id i, n\<lparr>nd_backtrack := (nd_backtrack n)[i := False],
                             nd_numBacktracks := nd_numBacktracks n - 1\<rparr>)
      })"

definition clear_backtracking :: "Node \<Rightarrow> Node" where
  "clear_backtracking n =
     n\<lparr>nd_backtrack := replicate (length (nd_backtrack n)) False,
       nd_explored_children := replicate (length (nd_explored_children n)) False,
       nd_numBacktracks := 0\<rparr>"

section \<open>Promises to resolve\<close>

definition set_promise :: "Node \<Rightarrow> nat \<Rightarrow> Node" where
  "set_promise n i =
     (let r = (if i \<ge> length (nd_resolve_promise n)
               then resize (nd_resolve_promise n) (i + 1) False else nd_resolve_promise n)
      in n\<lparr>nd_resolve_promise := r[i := True]\<rparr>)"

definition get_promise :: "Node \<Rightarrow> nat \<Rightarrow> bool" where
  "get_promise n i \<longleftrightarrow> i < length (nd_resolve_promise n) \<and> int i = nd_resolve_promise_idx n"

text \<open>The loop of \<open>increment_promise\<close> from index \<open>i\<close>: the next set flag.\<close>

fun next_promise :: "bool list \<Rightarrow> nat \<Rightarrow> nat option" where
  "next_promise [] i = None"
| "next_promise (b # bs) i = (if b then Some i else next_promise bs (Suc i))"

definition increment_promise :: "Node \<Rightarrow> bool \<times> Node" where
  "increment_promise n =
     (if nd_resolve_promise n = [] then (False, n)
      else let i = nat (nd_resolve_promise_idx n + 1)
           in case next_promise (drop i (nd_resolve_promise n)) i of
                Some j \<Rightarrow> (True, n\<lparr>nd_resolve_promise_idx := int j\<rparr>)
              | None \<Rightarrow> (False, n))"

definition promise_empty :: "Node \<Rightarrow> bool" where
  "promise_empty n \<longleftrightarrow>
     \<not> (\<exists>i < length (nd_resolve_promise n). nd_resolve_promise_idx n < int i \<and> nd_resolve_promise n ! i)"

definition clear_promise_resolutions :: "Node \<Rightarrow> Node" where
  "clear_promise_resolutions n = n\<lparr>nd_resolve_promise := [], nd_resolve_promise_idx := -1\<rparr>"

section \<open>Other choices\<close>

definition set_misc_max :: "Node \<Rightarrow> int \<Rightarrow> Node" where
  "set_misc_max n i = n\<lparr>nd_misc_max := i\<rparr>"

definition get_misc :: "Node \<Rightarrow> int" where
  "get_misc n = nd_misc_index n"

definition increment_misc :: "Node \<Rightarrow> bool \<times> Node" where
  "increment_misc n =
     (if nd_misc_index n < nd_misc_max n
      then (nd_misc_index n + 1 < nd_misc_max n, n\<lparr>nd_misc_index := nd_misc_index n + 1\<rparr>)
      else (False, n))"

definition misc_empty :: "Node \<Rightarrow> bool" where
  "misc_empty n \<longleftrightarrow> nd_misc_index n + 1 \<ge> nd_misc_max n"

section \<open>Reading from the past\<close>

definition add_read_from_past :: "Node \<Rightarrow> act_ref \<Rightarrow> Node" where
  "add_read_from_past n act = n\<lparr>nd_read_from_past := nd_read_from_past n @ [act]\<rparr>"

definition get_read_from_past :: "Node \<Rightarrow> act_ref option" where
  "get_read_from_past n =
     (if nd_read_from_past_idx n < length (nd_read_from_past n)
      then Some (nd_read_from_past n ! nd_read_from_past_idx n) else None)"

definition get_read_from_past_at :: "Node \<Rightarrow> nat \<Rightarrow> act_ref option" where
  "get_read_from_past_at n i = vec_at (nd_read_from_past n) i"

definition get_read_from_past_size :: "Node \<Rightarrow> nat" where
  "get_read_from_past_size n = length (nd_read_from_past n)"

definition read_from_past_empty :: "Node \<Rightarrow> bool" where
  "read_from_past_empty n \<longleftrightarrow> nd_read_from_past_idx n + 1 \<ge> length (nd_read_from_past n)"

definition increment_read_from_past :: "Node \<Rightarrow> bool \<times> Node" where
  "increment_read_from_past n =
     (if nd_read_from_past_idx n < length (nd_read_from_past n)
      then (nd_read_from_past_idx n + 1 < length (nd_read_from_past n),
            n\<lparr>nd_read_from_past_idx := nd_read_from_past_idx n + 1\<rparr>)
      else (False, n))"

section \<open>Reading from a promise\<close>

definition add_read_from_promise :: "Node \<Rightarrow> act_ref \<Rightarrow> Node" where
  "add_read_from_promise n reader = n\<lparr>nd_read_from_promises := nd_read_from_promises n @ [reader]\<rparr>"

definition get_read_from_promise :: "act_store \<Rightarrow> Node \<Rightarrow> promise_ref option option" where
  "get_read_from_promise acts n = do {
     ASSERT (nd_read_from_promise_idx n \<ge> 0 \<and>
             nd_read_from_promise_idx n < int (length (nd_read_from_promises n)));
     Some (ma_reads_from_promise (acts (nd_read_from_promises n ! nat (nd_read_from_promise_idx n))))
   }"

definition get_read_from_promise_at :: "act_store \<Rightarrow> Node \<Rightarrow> nat \<Rightarrow> promise_ref option option" where
  "get_read_from_promise_at acts n i = do {
     r \<leftarrow> vec_at (nd_read_from_promises n) i;
     Some (ma_reads_from_promise (acts r))
   }"

definition get_read_from_promise_size :: "Node \<Rightarrow> nat" where
  "get_read_from_promise_size n = length (nd_read_from_promises n)"

definition read_from_promise_empty :: "Node \<Rightarrow> bool" where
  "read_from_promise_empty n \<longleftrightarrow>
     nd_read_from_promise_idx n + 1 \<ge> int (length (nd_read_from_promises n))"

definition increment_read_from_promise :: "Node \<Rightarrow> bool \<times> Node" where
  "increment_read_from_promise n =
     (if nd_read_from_promise_idx n < int (length (nd_read_from_promises n))
      then (nd_read_from_promise_idx n + 1 < int (length (nd_read_from_promises n)),
            n\<lparr>nd_read_from_promise_idx := nd_read_from_promise_idx n + 1\<rparr>)
      else (False, n))"

section \<open>Future values\<close>

text \<open>
  The loop of \<open>add_future_value\<close> from index \<open>i\<close>: \<open>None\<close> for its early return, otherwise the
  highest index at which value and thread are found.
\<close>

fun find_future :: "future_value \<Rightarrow> future_value list \<Rightarrow> nat \<Rightarrow> int \<Rightarrow> int option" where
  "find_future fv [] i idx = Some idx"
| "find_future fv (g # gs) i idx =
     (if fv_value g = fv_value fv \<and> fv_tid g = fv_tid fv
      then if fv_expiration fv \<le> fv_expiration g then None else find_future fv gs (Suc i) (int i)
      else find_future fv gs (Suc i) idx)"

definition add_future_value :: "model_params \<Rightarrow> Node \<Rightarrow> future_value \<Rightarrow> bool \<times> Node" where
  "add_future_value params n fv =
     (case find_future fv (nd_future_values n) 0 (-1) of
        None \<Rightarrow> (False, n)
      | Some idx \<Rightarrow>
          if idx > nd_future_index n
          then (True, n\<lparr>nd_future_values := (nd_future_values n)[nat idx :=
                          (nd_future_values n ! nat idx)\<lparr>fv_expiration := fv_expiration fv\<rparr>]\<rparr>)
          else if idx \<ge> 0 \<and> fv_expiration fv
                    \<le> fv_expiration (nd_future_values n ! nat idx) + mp_expireslop params
          then (False, n)
          else if mp_maxfuturevalues params > 0 \<and>
                  int (length (nd_future_values n)) \<ge> mp_maxfuturevalues params
          then (False, n)
          else (True, n\<lparr>nd_future_values := nd_future_values n @ [fv]\<rparr>))"

definition get_future_value :: "Node \<Rightarrow> future_value option" where
  "get_future_value n = do {
     ASSERT (nd_future_index n \<ge> 0 \<and> nd_future_index n < int (length (nd_future_values n)));
     Some (nd_future_values n ! nat (nd_future_index n))
   }"

definition future_value_empty :: "Node \<Rightarrow> bool" where
  "future_value_empty n \<longleftrightarrow> nd_future_index n + 1 \<ge> int (length (nd_future_values n))"

definition increment_future_value :: "Node \<Rightarrow> bool \<times> Node" where
  "increment_future_value n =
     (if nd_future_index n < int (length (nd_future_values n))
      then (nd_future_index n + 1 < int (length (nd_future_values n)),
            n\<lparr>nd_future_index := nd_future_index n + 1\<rparr>)
      else (False, n))"

section \<open>The may-read-from set\<close>

definition increment_read_from :: "Node \<Rightarrow> bool \<times> Node" where
  "increment_read_from n =
     (let n = clear_promise_resolutions n;
          (past, n) = increment_read_from_past n
      in if past then (True, n\<lparr>nd_read_from_status := READ_FROM_PAST\<rparr>)
         else let (promise, n) = increment_read_from_promise n
              in if promise then (True, n\<lparr>nd_read_from_status := READ_FROM_PROMISE\<rparr>)
                 else let (future, n) = increment_future_value n
                      in if future then (True, n\<lparr>nd_read_from_status := READ_FROM_FUTURE\<rparr>)
                         else (False, n\<lparr>nd_read_from_status := READ_FROM_NONE\<rparr>))"

definition get_read_from_status :: "Node \<Rightarrow> read_from_type \<times> Node" where
  "get_read_from_status n =
     (let n' = (if nd_read_from_status n = READ_FROM_PAST \<and> nd_read_from_past n = []
                then snd (increment_read_from n) else n)
      in (nd_read_from_status n', n'))"

definition read_from_empty :: "Node \<Rightarrow> bool" where
  "read_from_empty n \<longleftrightarrow> read_from_past_empty n \<and> read_from_promise_empty n \<and> future_value_empty n"

definition read_from_size :: "Node \<Rightarrow> nat" where
  "read_from_size n =
     length (nd_read_from_past n) + length (nd_read_from_promises n) + length (nd_future_values n)"

section \<open>Breaking release sequences\<close>

definition add_relseq_break :: "Node \<Rightarrow> act_ref option \<Rightarrow> Node" where
  "add_relseq_break n write = n\<lparr>nd_relseq_break_writes := nd_relseq_break_writes n @ [write]\<rparr>"

definition get_relseq_break :: "Node \<Rightarrow> act_ref option" where
  "get_relseq_break n =
     (if nd_relseq_break_index n < int (length (nd_relseq_break_writes n))
      then nd_relseq_break_writes n ! nat (nd_relseq_break_index n) else None)"

definition increment_relseq_break :: "Node \<Rightarrow> bool \<times> Node" where
  "increment_relseq_break n =
     (if nd_relseq_break_index n < int (length (nd_relseq_break_writes n))
      then (nd_relseq_break_index n + 1 < int (length (nd_relseq_break_writes n)),
            n\<lparr>nd_relseq_break_index := nd_relseq_break_index n + 1\<rparr>)
      else (False, n))"

definition relseq_break_empty :: "Node \<Rightarrow> bool" where
  "relseq_break_empty n \<longleftrightarrow>
     nd_relseq_break_index n + 1 \<ge> int (length (nd_relseq_break_writes n))"

section \<open>All behaviours of a node\<close>

definition increment_behaviors :: "Node \<Rightarrow> bool \<times> Node" where
  "increment_behaviors n =
     (let (misc, n) = increment_misc n
      in if misc then (True, n)
         else let (promise, n) = increment_promise n
              in if promise then (True, n)
                 else let (rf, n) = increment_read_from n
                      in if rf then (True, n)
                         else let (relseq, n) = increment_relseq_break n in (relseq, n))"

section \<open>The stack\<close>

definition new_NodeStack :: NodeStack where
  "new_NodeStack = \<lparr>ns_node_list = [], ns_head_idx = -1, ns_total_nodes = 1\<rparr>"

definition get_head :: "NodeStack \<Rightarrow> node_ref option option" where
  "get_head ns =
     (if ns_node_list ns = [] \<or> ns_head_idx ns < 0 then Some None
      else if ns_head_idx ns < int (length (ns_node_list ns)) then Some (Some (nat (ns_head_idx ns)))
      else None)"

definition get_next :: "NodeStack \<Rightarrow> node_ref option option" where
  "get_next ns =
     (let it = nat (ns_head_idx ns + 1)
      in if ns_node_list ns = [] then Some None
         else if it = length (ns_node_list ns) then Some None
         else if it < length (ns_node_list ns) then Some (Some it) else None)"

text \<open>
  \<open>explore_action\<close>: while an earlier execution is replayed it returns the recorded action,
  afterwards it records the new one and returns \<open>NULL\<close>.
\<close>

definition record_action ::
    "model_params \<Rightarrow> nat \<Rightarrow> act_store \<Rightarrow> NodeStack \<Rightarrow> act_ref \<Rightarrow> enabled_type list option \<Rightarrow>
     (NodeStack \<times> act_store) option" where
  "record_action params num_threads acts ns act is_enabled = do {
     head \<leftarrow> get_head ns;
     (nodes, prevfairness) \<leftarrow> (case head of
         None \<Rightarrow> Some (ns_node_list ns, None)
       | Some h \<Rightarrow> do {
           hn \<leftarrow> explore_child acts (ns_node_list ns ! h) act is_enabled;
           Some ((ns_node_list ns)[h := hn],
                 if mp_fairwindow params \<noteq> 0 \<and> ns_head_idx ns > sint (mp_fairwindow params)
                 then Some (unat (word_of_int (ns_head_idx ns) - mp_fairwindow params)) else None)
         });
     let next_threads = (if ma_type (acts act) = THREAD_CREATE then num_threads + 1 else num_threads);
     (n, acts') \<leftarrow> new_Node params acts nodes (length nodes) act head next_threads prevfairness;
     Some (ns\<lparr>ns_node_list := nodes @ [n], ns_total_nodes := ns_total_nodes ns + 1,
              ns_head_idx := ns_head_idx ns + 1\<rparr>, acts')
   }"

definition explore_action ::
    "model_params \<Rightarrow> nat \<Rightarrow> act_store \<Rightarrow> NodeStack \<Rightarrow> act_ref \<Rightarrow> enabled_type list option \<Rightarrow>
     (act_ref option \<times> NodeStack \<times> act_store) option" where
  "explore_action params num_threads acts ns act is_enabled =
     (if ns_head_idx ns + 1 < int (length (ns_node_list ns))
      then Some (Some (nd_action (ns_node_list ns ! nat (ns_head_idx ns + 1))),
                 ns\<lparr>ns_head_idx := ns_head_idx ns + 1\<rparr>, acts)
      else do {
        (ns', acts') \<leftarrow> record_action params num_threads acts ns act is_enabled;
        Some (None, ns', acts')
      })"

text \<open>
  \<open>resize\<close> to more nodes than there are leaves null pointers at the end, which
  \<open>back()->clear_backtracking()\<close> dereferences; with none left, \<open>back()\<close> has no meaning.
\<close>

definition pop_restofstack :: "NodeStack \<Rightarrow> int \<Rightarrow> NodeStack option" where
  "pop_restofstack ns numAhead =
     (let it = ns_head_idx ns + numAhead
      in if 0 < it \<and> it \<le> int (length (ns_node_list ns))
         then let l = take (nat it) (ns_node_list ns)
              in Some (ns\<lparr>ns_node_list := l[nat it - 1 := clear_backtracking (l ! (nat it - 1))]\<rparr>)
         else None)"

definition reset_execution :: "NodeStack \<Rightarrow> NodeStack" where
  "reset_execution ns = ns\<lparr>ns_head_idx := -1\<rparr>"

definition full_reset :: "NodeStack \<Rightarrow> NodeStack" where
  "full_reset ns = (reset_execution (ns\<lparr>ns_node_list := []\<rparr>))\<lparr>ns_total_nodes := 1\<rparr>"

section \<open>Membership in the may-read-from set\<close>

definition may_read_from :: "Node \<Rightarrow> act_ref \<Rightarrow> bool" where
  "may_read_from node write \<longleftrightarrow>
     (\<exists>i < get_read_from_past_size node. get_read_from_past_at node i = Some write)"

definition may_read_from_promise :: "act_store \<Rightarrow> Node \<Rightarrow> promise_ref \<Rightarrow> bool" where
  "may_read_from_promise acts node promise \<longleftrightarrow>
     (\<exists>i < get_read_from_promise_size node.
        get_read_from_promise_at acts node i = Some (Some promise))"

end
