(* ===== verification/NodeChoices.thy ===== *)
theory NodeChoices
  imports NodeStack
begin

text \<open>
  What a node promises to the search. An invariant of all operations: the number of pending
  backtracks is the number of set flags, indices stay within their vectors, and the status agrees
  with the index it selects. The choices of a node are enumerated completely and without repetition,
  and a node offers exactly as many behaviours as its vectors leave.
\<close>

section \<open>Operations as steps\<close>

inductive node_step :: "model_params \<Rightarrow> act_store \<Rightarrow> Node \<Rightarrow> Node \<Rightarrow> bool" for params acts where
  step_explore_child: "explore_child acts n act en = Some n' \<Longrightarrow> node_step params acts n n'"
| step_set_backtrack: "set_backtrack n tid = Some (b, n') \<Longrightarrow> node_step params acts n n'"
| step_get_next_backtrack: "get_next_backtrack n = Some (tid, n') \<Longrightarrow> node_step params acts n n'"
| step_clear_backtracking: "node_step params acts n (clear_backtracking n)"
| step_set_promise: "node_step params acts n (set_promise n i)"
| step_set_misc_max: "node_step params acts n (set_misc_max n i)"
| step_add_read_from_past: "node_step params acts n (add_read_from_past n act)"
| step_add_read_from_promise: "node_step params acts n (add_read_from_promise n act)"
| step_add_future_value: "node_step params acts n (snd (add_future_value params n fv))"
| step_add_relseq_break: "node_step params acts n (add_relseq_break n write)"
| step_get_read_from_status: "node_step params acts n (snd (get_read_from_status n))"
| step_increment_behaviors: "node_step params acts n (snd (increment_behaviors n))"

section \<open>Invariant\<close>

definition threads_wf :: "Node \<Rightarrow> bool" where
  "threads_wf n \<longleftrightarrow>
     length (nd_backtrack n) = nd_num_threads n \<and>
     length (nd_explored_children n) = nd_num_threads n \<and>
     nd_numBacktracks n = int (count_true (nd_backtrack n)) \<and>
     (\<forall>en. nd_enabled_array n = Some en \<longrightarrow> length en = nd_num_threads n)"

definition choices_wf :: "Node \<Rightarrow> bool" where
  "choices_wf n \<longleftrightarrow>
     nd_read_from_past_idx n \<le> length (nd_read_from_past n) \<and>
     -1 \<le> nd_read_from_promise_idx n \<and> nd_read_from_promise_idx n \<le> int (length (nd_read_from_promises n)) \<and>
     -1 \<le> nd_future_index n \<and> nd_future_index n \<le> int (length (nd_future_values n)) \<and>
     0 \<le> nd_relseq_break_index n \<and> nd_relseq_break_index n \<le> int (length (nd_relseq_break_writes n)) \<and>
     -1 \<le> nd_resolve_promise_idx n \<and>
     (0 \<le> nd_resolve_promise_idx n \<longrightarrow>
        nd_resolve_promise_idx n < int (length (nd_resolve_promise n)) \<and>
        nd_resolve_promise n ! nat (nd_resolve_promise_idx n))"

definition status_wf :: "Node \<Rightarrow> bool" where
  "status_wf n \<longleftrightarrow>
     (nd_read_from_status n = READ_FROM_PAST \<longrightarrow>
        nd_read_from_past n = [] \<or> nd_read_from_past_idx n < length (nd_read_from_past n)) \<and>
     (nd_read_from_status n = READ_FROM_PROMISE \<longrightarrow>
        0 \<le> nd_read_from_promise_idx n \<and>
        nd_read_from_promise_idx n < int (length (nd_read_from_promises n))) \<and>
     (nd_read_from_status n = READ_FROM_FUTURE \<longrightarrow>
        0 \<le> nd_future_index n \<and> nd_future_index n < int (length (nd_future_values n)))"

definition node_wf :: "Node \<Rightarrow> bool" where
  "node_wf n \<longleftrightarrow> threads_wf n \<and> choices_wf n \<and> status_wf n"

lemmas node_wf_defs = threads_wf_def choices_wf_def status_wf_def

lemma blank_Node_wf: "node_wf (blank_Node act par nthreads)"
  by (simp add: node_wf_def node_wf_defs blank_Node_def)

text \<open>The three parts look at different fields.\<close>

lemma node_wf_frames [simp]:
  "choices_wf (n\<lparr>nd_backtrack := bs\<rparr>) = choices_wf n"
  "choices_wf (n\<lparr>nd_numBacktracks := i\<rparr>) = choices_wf n"
  "choices_wf (n\<lparr>nd_explored_children := bs\<rparr>) = choices_wf n"
  "choices_wf (n\<lparr>nd_enabled_array := e\<rparr>) = choices_wf n"
  "choices_wf (n\<lparr>nd_read_from_status := s\<rparr>) = choices_wf n"
  "choices_wf (n\<lparr>nd_misc_max := i\<rparr>) = choices_wf n"
  "choices_wf (n\<lparr>nd_misc_index := i\<rparr>) = choices_wf n"
  "choices_wf (n\<lparr>nd_fairness := fs\<rparr>) = choices_wf n"
  "choices_wf (n\<lparr>nd_yield_data := y\<rparr>) = choices_wf n"
  "status_wf (n\<lparr>nd_backtrack := bs\<rparr>) = status_wf n"
  "status_wf (n\<lparr>nd_numBacktracks := i\<rparr>) = status_wf n"
  "status_wf (n\<lparr>nd_explored_children := bs\<rparr>) = status_wf n"
  "status_wf (n\<lparr>nd_enabled_array := e\<rparr>) = status_wf n"
  "status_wf (n\<lparr>nd_misc_max := i\<rparr>) = status_wf n"
  "status_wf (n\<lparr>nd_misc_index := i\<rparr>) = status_wf n"
  "status_wf (n\<lparr>nd_resolve_promise := bs\<rparr>) = status_wf n"
  "status_wf (n\<lparr>nd_resolve_promise_idx := i\<rparr>) = status_wf n"
  "status_wf (n\<lparr>nd_relseq_break_writes := ws\<rparr>) = status_wf n"
  "status_wf (n\<lparr>nd_relseq_break_index := i\<rparr>) = status_wf n"
  "status_wf (n\<lparr>nd_fairness := fs\<rparr>) = status_wf n"
  "status_wf (n\<lparr>nd_yield_data := y\<rparr>) = status_wf n"
  "threads_wf (n\<lparr>nd_read_from_status := s\<rparr>) = threads_wf n"
  "threads_wf (n\<lparr>nd_misc_max := i\<rparr>) = threads_wf n"
  "threads_wf (n\<lparr>nd_misc_index := i\<rparr>) = threads_wf n"
  "threads_wf (n\<lparr>nd_resolve_promise := bs\<rparr>) = threads_wf n"
  "threads_wf (n\<lparr>nd_resolve_promise_idx := i\<rparr>) = threads_wf n"
  "threads_wf (n\<lparr>nd_relseq_break_writes := ws\<rparr>) = threads_wf n"
  "threads_wf (n\<lparr>nd_relseq_break_index := i\<rparr>) = threads_wf n"
  "threads_wf (n\<lparr>nd_read_from_past := as\<rparr>) = threads_wf n"
  "threads_wf (n\<lparr>nd_read_from_past_idx := j\<rparr>) = threads_wf n"
  "threads_wf (n\<lparr>nd_read_from_promises := as\<rparr>) = threads_wf n"
  "threads_wf (n\<lparr>nd_read_from_promise_idx := i\<rparr>) = threads_wf n"
  "threads_wf (n\<lparr>nd_future_values := fvs\<rparr>) = threads_wf n"
  "threads_wf (n\<lparr>nd_future_index := i\<rparr>) = threads_wf n"
  "threads_wf (n\<lparr>nd_fairness := fs\<rparr>) = threads_wf n"
  "threads_wf (n\<lparr>nd_yield_data := y\<rparr>) = threads_wf n"
  by (simp_all add: node_wf_defs)

subsection \<open>Threads\<close>

lemma explore_wf:
  assumes "explore n tid = Some n'" and "node_wf n"
  shows "node_wf n'"
proof -
  from assms(1) have i: "tid < length (nd_backtrack n)" and n': "n' =
      (if nd_backtrack n ! tid
       then n\<lparr>nd_backtrack := (nd_backtrack n)[tid := False], nd_numBacktracks := nd_numBacktracks n - 1\<rparr>
       else n)\<lparr>nd_explored_children := (nd_explored_children n)[tid := True]\<rparr>"
    by (auto simp: explore_def Let_def id_to_int_def split: if_splits)
  have "threads_wf n'"
    using assms(2) count_true_clear [OF i] unfolding n' by (auto simp: node_wf_def threads_wf_def)
  then show ?thesis using assms(2) unfolding n' by (simp add: node_wf_def)
qed

lemma explore_child_wf:
  assumes "explore_child acts n act en = Some n'" and "node_wf n"
  shows "node_wf n'"
proof -
  from assms(1) obtain e where e: "explore (n\<lparr>nd_enabled_array := Some e\<rparr>) (ma_tid (acts act)) = Some n'"
    and len: "length e = nd_num_threads n"
    by (auto simp: explore_child_def bind_eq_Some_conv split: option.splits if_splits)
  have "threads_wf (n\<lparr>nd_enabled_array := Some e\<rparr>)"
    using assms(2) len by (simp add: node_wf_def threads_wf_def)
  with assms(2) have "node_wf (n\<lparr>nd_enabled_array := Some e\<rparr>)" by (simp add: node_wf_def)
  from explore_wf [OF e this] show ?thesis .
qed

lemma set_backtrack_wf:
  assumes "set_backtrack n tid = Some (b, n')" and "node_wf n"
  shows "node_wf n'"
proof (cases "nd_backtrack n ! tid")
  case True
  then show ?thesis using assms by (auto simp: set_backtrack_def Let_def id_to_int_def split: if_splits)
next
  case False
  with assms(1) have i: "tid < length (nd_backtrack n)"
    and n': "n' = n\<lparr>nd_backtrack := (nd_backtrack n)[tid := True], nd_numBacktracks := nd_numBacktracks n + 1\<rparr>"
    by (auto simp: set_backtrack_def Let_def id_to_int_def split: if_splits)
  have "threads_wf n'"
    using assms(2) count_true_set [OF i False] unfolding n' by (simp add: node_wf_def threads_wf_def)
  then show ?thesis using assms(2) unfolding n' by (simp add: node_wf_def)
qed

lemma first_true_less: "first_true bs < length bs \<longleftrightarrow> True \<in> set bs"
  by (induction bs) auto

lemma first_true_le: "first_true bs \<le> length bs"
  by (induction bs) auto

lemma first_true_nth: "True \<in> set bs \<Longrightarrow> bs ! first_true bs"
  by (induction bs) auto

lemma first_true_least: "i < first_true bs \<Longrightarrow> \<not> bs ! i"
proof (induction bs arbitrary: i)
  case (Cons b bs)
  then show ?case by (cases i) (auto split: if_splits)
qed simp

lemma count_true_pos: "0 < count_true bs \<longleftrightarrow> True \<in> set bs"
  by (induction bs) auto

lemma get_next_backtrack_wf:
  assumes "get_next_backtrack n = Some (tid, n')" and "node_wf n"
  shows "node_wf n'"
proof -
  let ?i = "first_true (nd_backtrack n)"
  from assms(1) have ne: "?i \<noteq> length (nd_backtrack n)"
    and n': "n' = n\<lparr>nd_backtrack := (nd_backtrack n)[?i := False],
                    nd_numBacktracks := nd_numBacktracks n - 1\<rparr>"
    by (auto simp: get_next_backtrack_def Let_def split: if_splits)
  from ne first_true_le [of "nd_backtrack n"] have lt: "?i < length (nd_backtrack n)" by simp
  with first_true_less first_true_nth have "nd_backtrack n ! ?i" by blast
  from count_true_clear [OF lt this] assms(2) have "threads_wf n'"
    unfolding n' by (simp add: node_wf_def threads_wf_def)
  then show ?thesis using assms(2) unfolding n' by (simp add: node_wf_def)
qed

lemma clear_backtracking_wf: "node_wf n \<Longrightarrow> node_wf (clear_backtracking n)"
  by (simp add: clear_backtracking_def node_wf_def) (simp add: threads_wf_def)

subsection \<open>Choices\<close>

lemma set_promise_wf: "node_wf n \<Longrightarrow> node_wf (set_promise n i)"
  by (simp add: set_promise_def node_wf_def Let_def)
    (auto simp: choices_wf_def nth_list_update nth_resize)

lemma set_misc_max_wf: "node_wf n \<Longrightarrow> node_wf (set_misc_max n i)"
  by (simp add: set_misc_max_def node_wf_def)

lemma add_read_from_past_wf: "node_wf n \<Longrightarrow> node_wf (add_read_from_past n act)"
  by (simp add: add_read_from_past_def node_wf_def) (auto simp: choices_wf_def status_wf_def)

lemma add_read_from_promise_wf: "node_wf n \<Longrightarrow> node_wf (add_read_from_promise n act)"
  by (simp add: add_read_from_promise_def node_wf_def) (auto simp: choices_wf_def status_wf_def)

lemma add_relseq_break_wf: "node_wf n \<Longrightarrow> node_wf (add_relseq_break n w)"
  by (simp add: add_relseq_break_def node_wf_def) (auto simp: choices_wf_def)

lemma add_future_value_cases:
  obtains "snd (add_future_value params n fv) = n"
    | fvs where "snd (add_future_value params n fv) = n\<lparr>nd_future_values := fvs\<rparr>"
        "length (nd_future_values n) \<le> length fvs"
  by (fastforce simp: add_future_value_def split: option.splits if_splits)

lemma add_future_value_wf:
  assumes "node_wf n"
  shows "node_wf (snd (add_future_value params n fv))"
proof (cases rule: add_future_value_cases [of params n fv])
  case 1
  then show ?thesis using assms by simp
next
  case (2 fvs)
  then show ?thesis using assms by (simp add: node_wf_def) (auto simp: choices_wf_def status_wf_def)
qed

subsection \<open>Increments\<close>

lemma next_promise_eq: "next_promise bs i = (if True \<in> set bs then Some (i + first_true bs) else None)"
  by (induction bs arbitrary: i) auto

lemma drop_first_true:
  assumes "True \<in> set (drop i bs)"
  shows "i + first_true (drop i bs) < length bs" "bs ! (i + first_true (drop i bs))"
proof -
  have "first_true (drop i bs) < length (drop i bs)" by (rule first_true_less [THEN iffD2, OF assms])
  then show lt: "i + first_true (drop i bs) < length bs" by auto
  show "bs ! (i + first_true (drop i bs))" using first_true_nth [OF assms] lt by simp
qed

lemma increment_promise_eq:
  "increment_promise n =
     (let i = nat (nd_resolve_promise_idx n + 1)
      in if True \<in> set (drop i (nd_resolve_promise n))
         then (True, n\<lparr>nd_resolve_promise_idx := int (i + first_true (drop i (nd_resolve_promise n)))\<rparr>)
         else (False, n))"
  by (simp add: increment_promise_def Let_def next_promise_eq)

lemma resolve_idx_wf:
  "node_wf n \<Longrightarrow> j < length (nd_resolve_promise n) \<Longrightarrow> nd_resolve_promise n ! j \<Longrightarrow>
     node_wf (n\<lparr>nd_resolve_promise_idx := int j\<rparr>)"
  by (simp add: node_wf_def) (simp add: choices_wf_def)

lemma increment_promise_wf: "node_wf n \<Longrightarrow> node_wf (snd (increment_promise n))"
  by (simp add: increment_promise_eq Let_def resolve_idx_wf drop_first_true del: of_nat_add)

lemma increment_misc_wf: "node_wf n \<Longrightarrow> node_wf (snd (increment_misc n))"
  by (simp add: increment_misc_def node_wf_def)

lemma increment_relseq_break_wf: "node_wf n \<Longrightarrow> node_wf (snd (increment_relseq_break n))"
  by (simp add: increment_relseq_break_def node_wf_def) (auto simp: choices_wf_def)

lemmas increment_read_from_defs = increment_read_from_def increment_read_from_past_def
  increment_read_from_promise_def increment_future_value_def clear_promise_resolutions_def

text \<open>The outcome of \<open>increment_read_from\<close>, by the first of the three vectors that has more.\<close>

lemma increment_read_from_cases:
  assumes "node_wf n" and "increment_read_from n = (b, n')"
  obtains
    (past) "b" "nd_read_from_past_idx n + 1 < length (nd_read_from_past n)"
      "n' = (clear_promise_resolutions n)\<lparr>nd_read_from_past_idx := nd_read_from_past_idx n + 1,
              nd_read_from_status := READ_FROM_PAST\<rparr>"
  | (promise) i where "b" "length (nd_read_from_past n) \<le> nd_read_from_past_idx n + 1"
      "length (nd_read_from_past n) \<le> i + 1"
      "nd_read_from_promise_idx n + 1 < int (length (nd_read_from_promises n))"
      "n' = (clear_promise_resolutions n)\<lparr>nd_read_from_past_idx := i,
              nd_read_from_promise_idx := nd_read_from_promise_idx n + 1,
              nd_read_from_status := READ_FROM_PROMISE\<rparr>"
  | (future) i j where "b" "length (nd_read_from_past n) \<le> nd_read_from_past_idx n + 1"
      "length (nd_read_from_past n) \<le> i + 1"
      "int (length (nd_read_from_promises n)) \<le> nd_read_from_promise_idx n + 1"
      "int (length (nd_read_from_promises n)) \<le> j + 1"
      "nd_future_index n + 1 < int (length (nd_future_values n))"
      "n' = (clear_promise_resolutions n)\<lparr>nd_read_from_past_idx := i,
              nd_read_from_promise_idx := j, nd_future_index := nd_future_index n + 1,
              nd_read_from_status := READ_FROM_FUTURE\<rparr>"
  | (none) i j k where "\<not> b" "length (nd_read_from_past n) \<le> nd_read_from_past_idx n + 1"
      "length (nd_read_from_past n) \<le> i + 1"
      "int (length (nd_read_from_promises n)) \<le> nd_read_from_promise_idx n + 1"
      "int (length (nd_read_from_promises n)) \<le> j + 1"
      "int (length (nd_future_values n)) \<le> nd_future_index n + 1"
      "int (length (nd_future_values n)) \<le> k + 1"
      "n' = (clear_promise_resolutions n)\<lparr>nd_read_from_past_idx := i,
              nd_read_from_promise_idx := j, nd_future_index := k,
              nd_read_from_status := READ_FROM_NONE\<rparr>"
proof -
  define i where "i = nd_read_from_past_idx (snd (increment_read_from_past n))"
  define j where "j = nd_read_from_promise_idx (snd (increment_read_from_promise n))"
  define k where "k = nd_future_index (snd (increment_future_value n))"
  let ?c = "clear_promise_resolutions n"
  have p: "increment_read_from_past ?c = (nd_read_from_past_idx n + 1 < length (nd_read_from_past n),
      ?c\<lparr>nd_read_from_past_idx := i\<rparr>)"
    by (simp add: increment_read_from_past_def clear_promise_resolutions_def i_def)
  have q: "increment_read_from_promise (?c\<lparr>nd_read_from_past_idx := i\<rparr>) =
      (nd_read_from_promise_idx n + 1 < int (length (nd_read_from_promises n)),
       ?c\<lparr>nd_read_from_past_idx := i, nd_read_from_promise_idx := j\<rparr>)"
    by (simp add: increment_read_from_promise_def clear_promise_resolutions_def j_def)
  have f: "increment_future_value (?c\<lparr>nd_read_from_past_idx := i, nd_read_from_promise_idx := j\<rparr>) =
      (nd_future_index n + 1 < int (length (nd_future_values n)),
       ?c\<lparr>nd_read_from_past_idx := i, nd_read_from_promise_idx := j, nd_future_index := k\<rparr>)"
    by (simp add: increment_future_value_def clear_promise_resolutions_def k_def)
  have i: "nd_read_from_past_idx n + 1 < length (nd_read_from_past n) \<Longrightarrow> i = nd_read_from_past_idx n + 1"
    "length (nd_read_from_past n) \<le> nd_read_from_past_idx n + 1 \<Longrightarrow> length (nd_read_from_past n) \<le> i + 1"
    by (simp_all add: i_def increment_read_from_past_def)
  have j: "nd_read_from_promise_idx n + 1 < int (length (nd_read_from_promises n)) \<Longrightarrow>
      j = nd_read_from_promise_idx n + 1"
    "int (length (nd_read_from_promises n)) \<le> nd_read_from_promise_idx n + 1 \<Longrightarrow>
      int (length (nd_read_from_promises n)) \<le> j + 1"
    by (simp_all add: j_def increment_read_from_promise_def)
  have k: "nd_future_index n + 1 < int (length (nd_future_values n)) \<Longrightarrow> k = nd_future_index n + 1"
    "int (length (nd_future_values n)) \<le> nd_future_index n + 1 \<Longrightarrow>
      int (length (nd_future_values n)) \<le> k + 1"
    by (simp_all add: k_def increment_future_value_def)
  consider "nd_read_from_past_idx n + 1 < length (nd_read_from_past n)"
    | "length (nd_read_from_past n) \<le> nd_read_from_past_idx n + 1"
      "nd_read_from_promise_idx n + 1 < int (length (nd_read_from_promises n))"
    | "length (nd_read_from_past n) \<le> nd_read_from_past_idx n + 1"
      "int (length (nd_read_from_promises n)) \<le> nd_read_from_promise_idx n + 1"
      "nd_future_index n + 1 < int (length (nd_future_values n))"
    | "length (nd_read_from_past n) \<le> nd_read_from_past_idx n + 1"
      "int (length (nd_read_from_promises n)) \<le> nd_read_from_promise_idx n + 1"
      "int (length (nd_future_values n)) \<le> nd_future_index n + 1"
    by linarith
  then show thesis
  proof cases
    case 1
    with i(1) assms(2) show thesis by (intro past) (simp_all add: increment_read_from_def p)
  next
    case 2
    with i(2) j(1) assms(2) show thesis
      by (intro promise [of i]) (simp_all add: increment_read_from_def p q)
  next
    case 3
    with i(2) j(2) k(1) assms(2) show thesis
      by (intro future [of i j]) (simp_all add: increment_read_from_def p q f)
  next
    case 4
    with i(2) j(2) k(2) assms(2) show thesis
      by (intro none [of i j k]) (simp_all add: increment_read_from_def p q f)
  qed
qed

lemma increment_steps_choices_wf:
  "choices_wf n \<Longrightarrow> choices_wf (clear_promise_resolutions n)"
  "choices_wf n \<Longrightarrow> choices_wf (snd (increment_read_from_past n))"
  "choices_wf n \<Longrightarrow> choices_wf (snd (increment_read_from_promise n))"
  "choices_wf n \<Longrightarrow> choices_wf (snd (increment_future_value n))"
  by (simp_all add: choices_wf_def clear_promise_resolutions_def increment_read_from_past_def
      increment_read_from_promise_def increment_future_value_def)

lemma increment_read_from_wf:
  assumes "node_wf n"
  shows "node_wf (snd (increment_read_from n))"
proof -
  have "threads_wf (snd (increment_read_from n))"
    using assms by (simp add: increment_read_from_defs Let_def node_wf_def)
  moreover have "choices_wf (snd (increment_read_from n))"
    using assms by (simp add: increment_read_from_def Let_def split_beta node_wf_def increment_steps_choices_wf)
  moreover have "status_wf (snd (increment_read_from n))"
  proof -
    have wf: "-1 \<le> nd_read_from_promise_idx n" "-1 \<le> nd_future_index n"
      using assms by (auto simp: node_wf_def choices_wf_def)
    obtain b n' where inc: "increment_read_from n = (b, n')" by fastforce
    with assms have "status_wf n'"
      by (cases rule: increment_read_from_cases)
        (use wf in \<open>simp_all add: status_wf_def clear_promise_resolutions_def\<close>)
    with inc show ?thesis by simp
  qed
  ultimately show ?thesis by (simp add: node_wf_def)
qed

lemma get_read_from_status_wf: "node_wf n \<Longrightarrow> node_wf (snd (get_read_from_status n))"
  by (simp add: get_read_from_status_def Let_def increment_read_from_wf)

lemma increment_behaviors_wf:
  assumes "node_wf n"
  shows "node_wf (snd (increment_behaviors n))"
proof -
  define n1 n2 n3 where "n1 = snd (increment_misc n)" and "n2 = snd (increment_promise n1)"
    and "n3 = snd (increment_read_from n2)"
  have wf: "node_wf n1" "node_wf n2" "node_wf n3" "node_wf (snd (increment_relseq_break n3))"
    using assms unfolding n1_def n2_def n3_def
    by (simp_all add: increment_misc_wf increment_promise_wf increment_read_from_wf increment_relseq_break_wf)
  then show ?thesis
    by (auto simp: increment_behaviors_def n1_def n2_def n3_def split_beta Let_def)
qed

lemma node_step_wf: "node_step params acts n n' \<Longrightarrow> node_wf n \<Longrightarrow> node_wf n'"
  by (induction rule: node_step.induct)
    (blast intro: explore_child_wf set_backtrack_wf get_next_backtrack_wf clear_backtracking_wf
      set_promise_wf set_misc_max_wf add_read_from_past_wf add_read_from_promise_wf
      add_future_value_wf add_relseq_break_wf get_read_from_status_wf increment_behaviors_wf)+

lemma node_steps_wf: "(node_step params acts)\<^sup>*\<^sup>* n n' \<Longrightarrow> node_wf n \<Longrightarrow> node_wf n'"
  by (induction rule: rtranclp_induct) (auto intro: node_step_wf)

section \<open>Enumeration of the may-read-from set\<close>

datatype choice = Past act_ref | FromPromise act_ref | Future future_value

text \<open>The choice a node stands at, and those it has not come to yet.\<close>

definition current_choice :: "Node \<Rightarrow> choice option" where
  "current_choice n =
     (case nd_read_from_status n of
        READ_FROM_PAST \<Rightarrow> map_option Past (get_read_from_past n)
      | READ_FROM_PROMISE \<Rightarrow>
          map_option FromPromise (vec_at (nd_read_from_promises n) (nat (nd_read_from_promise_idx n)))
      | READ_FROM_FUTURE \<Rightarrow> map_option Future (get_future_value n)
      | READ_FROM_NONE \<Rightarrow> None)"

definition pending_choices :: "Node \<Rightarrow> choice list" where
  "pending_choices n =
     map Past (drop (nd_read_from_past_idx n + 1) (nd_read_from_past n)) @
     map FromPromise (drop (nat (nd_read_from_promise_idx n + 1)) (nd_read_from_promises n)) @
     map Future (drop (nat (nd_future_index n + 1)) (nd_future_values n))"

lemma drop_nat_Cons:
  assumes "-1 \<le> i" "i + 1 < int (length xs)"
  shows "drop (nat (i + 1)) xs = xs ! nat (i + 1) # drop (nat (i + 2)) xs"
proof -
  from assms have "nat (i + 1) < length xs" "nat (i + 2) = Suc (nat (i + 1))" by linarith+
  then show ?thesis by (simp add: Cons_nth_drop_Suc)
qed

lemma increment_read_from_pending:
  assumes "node_wf n" and "increment_read_from n = (b, n')"
  shows "pending_choices n = (if b then the (current_choice n') # pending_choices n' else [])"
    and "b \<Longrightarrow> current_choice n' \<noteq> None"
    and "\<not> b \<Longrightarrow> pending_choices n' = [] \<and> current_choice n' = None"
proof -
  have wf: "-1 \<le> nd_read_from_promise_idx n" "-1 \<le> nd_future_index n"
    using assms(1) by (auto simp: node_wf_def choices_wf_def)
  note defs = clear_promise_resolutions_def pending_choices_def current_choice_def
    get_read_from_past_def get_future_value_def vec_at_def
  have "pending_choices n = (if b then the (current_choice n') # pending_choices n' else []) \<and>
      (b \<longrightarrow> current_choice n' \<noteq> None) \<and>
      (\<not> b \<longrightarrow> pending_choices n' = [] \<and> current_choice n' = None)"
    using assms
  proof (cases rule: increment_read_from_cases)
    case past
    then have "drop (nd_read_from_past_idx n + 1) (nd_read_from_past n) =
        nd_read_from_past n ! (nd_read_from_past_idx n + 1) # drop (nd_read_from_past_idx n + 2) (nd_read_from_past n)"
      by (simp add: Cons_nth_drop_Suc)
    with past show ?thesis by (simp add: defs)
  next
    case (promise i)
    with wf drop_nat_Cons [OF wf(1) promise(4)] show ?thesis by (simp add: defs algebra_simps)
  next
    case (future i j)
    with wf drop_nat_Cons [OF wf(2) future(6)] show ?thesis by (simp add: defs algebra_simps)
  next
    case (none i j k)
    with wf show ?thesis by (simp add: defs)
  qed
  then show "pending_choices n = (if b then the (current_choice n') # pending_choices n' else [])"
    "b \<Longrightarrow> current_choice n' \<noteq> None" "\<not> b \<Longrightarrow> pending_choices n' = [] \<and> current_choice n' = None"
    by blast+
qed

text \<open>
  The choices met by taking the current one and calling \<open>increment_read_from\<close> while it succeeds,
  at most \<open>fuel\<close> times.
\<close>

fun visited :: "nat \<Rightarrow> Node \<Rightarrow> choice list" where
  "visited 0 n = []"
| "visited (Suc fuel) n =
     (case current_choice n of
        None \<Rightarrow> []
      | Some c \<Rightarrow> c # (if fst (increment_read_from n) then visited fuel (snd (increment_read_from n)) else []))"

lemma visited_eq:
  "node_wf n \<Longrightarrow> current_choice n = Some c \<Longrightarrow> length (pending_choices n) < fuel \<Longrightarrow>
     visited fuel n = c # pending_choices n"
proof (induction fuel arbitrary: n c)
  case (Suc fuel)
  obtain b n' where inc: "increment_read_from n = (b, n')" by fastforce
  note pend = increment_read_from_pending [OF Suc.prems(1) inc]
  show ?case
  proof (cases b)
    case True
    with pend(2) obtain c' where c': "current_choice n' = Some c'" by auto
    have wf: "node_wf n'" using increment_read_from_wf [OF Suc.prems(1)] inc by simp
    have "length (pending_choices n') < fuel" using Suc.prems(3) pend(1) True by simp
    from Suc.IH [OF wf c' this] show ?thesis using Suc.prems(2) inc True pend(1) c' by simp
  next
    case False
    then show ?thesis using Suc.prems(2) inc pend(1) by simp
  qed
qed simp

section \<open>Number of behaviours\<close>

definition remaining_behaviors :: "Node \<Rightarrow> nat" where
  "remaining_behaviors n =
     nat (nd_misc_max n - nd_misc_index n - 1) +
     count_true (drop (nat (nd_resolve_promise_idx n + 1)) (nd_resolve_promise n)) +
     length (pending_choices n) +
     nat (int (length (nd_relseq_break_writes n)) - nd_relseq_break_index n - 1)"

lemma count_true_first:
  "True \<in> set bs \<Longrightarrow> count_true bs = Suc (count_true (drop (Suc (first_true bs)) bs))"
  by (induction bs) auto

lemma count_true_0: "count_true bs = 0 \<longleftrightarrow> True \<notin> set bs"
  using count_true_pos [of bs] by auto

lemma increment_misc_remaining:
  assumes "increment_misc n = (b, n')"
  shows "b \<longleftrightarrow> \<not> misc_empty n" and "b \<Longrightarrow> remaining_behaviors n = Suc (remaining_behaviors n')"
    and "\<not> b \<Longrightarrow> remaining_behaviors n' = remaining_behaviors n \<and> misc_empty n'"
  using assms
  by (auto simp: increment_misc_def misc_empty_def remaining_behaviors_def pending_choices_def split: if_splits)

lemma in_set_drop_conv: "x \<in> set (drop i xs) \<longleftrightarrow> (\<exists>k. i \<le> k \<and> k < length xs \<and> xs ! k = x)"
proof
  assume "x \<in> set (drop i xs)"
  then obtain k where "k < length xs - i" "xs ! (i + k) = x" by (auto simp: in_set_conv_nth)
  then show "\<exists>k. i \<le> k \<and> k < length xs \<and> xs ! k = x" by (intro exI [of _ "i + k"]) simp
next
  assume "\<exists>k. i \<le> k \<and> k < length xs \<and> xs ! k = x"
  then obtain k where "i \<le> k" "k < length xs" "xs ! k = x" by blast
  then have "k - i < length (drop i xs)" "drop i xs ! (k - i) = x" by simp_all
  then show "x \<in> set (drop i xs)" by (metis nth_mem)
qed

lemma promise_empty_drop:
  assumes "-1 \<le> nd_resolve_promise_idx n"
  shows "True \<in> set (drop (nat (nd_resolve_promise_idx n + 1)) (nd_resolve_promise n)) \<longleftrightarrow> \<not> promise_empty n"
proof -
  have "nat (nd_resolve_promise_idx n + 1) \<le> k \<longleftrightarrow> nd_resolve_promise_idx n < int k" for k
    using assms by linarith
  then show ?thesis unfolding in_set_drop_conv promise_empty_def by auto
qed

lemma increment_promise_remaining:
  assumes "node_wf n" and "increment_promise n = (b, n')"
  shows "b \<longleftrightarrow> \<not> promise_empty n" and "b \<Longrightarrow> remaining_behaviors n = Suc (remaining_behaviors n')"
    and "\<not> b \<Longrightarrow> n' = n"
proof -
  let ?r = "nd_resolve_promise n" and ?i = "nat (nd_resolve_promise_idx n + 1)"
  have wf: "-1 \<le> nd_resolve_promise_idx n" using assms(1) by (simp add: node_wf_def choices_wf_def)
  have b: "b \<longleftrightarrow> True \<in> set (drop ?i ?r)"
    using assms(2) by (auto simp: increment_promise_eq Let_def split: if_splits)
  show "b \<longleftrightarrow> \<not> promise_empty n" unfolding b by (rule promise_empty_drop [OF wf])
  show "\<not> b \<Longrightarrow> n' = n" using assms(2) b by (auto simp: increment_promise_eq Let_def)
  assume True: b
  then have n': "n' = n\<lparr>nd_resolve_promise_idx := int (?i + first_true (drop ?i ?r))\<rparr>"
    using assms(2) b by (auto simp: increment_promise_eq Let_def)
  have idx: "nat (int (j + k) + 1) = Suc k + j" for j k by simp
  show "remaining_behaviors n = Suc (remaining_behaviors n')"
    using count_true_first [of "drop ?i ?r"] True b
    unfolding n' by (simp add: remaining_behaviors_def pending_choices_def idx drop_drop del: of_nat_add)
qed

lemma increment_read_from_remaining:
  assumes "node_wf n" and "increment_read_from n = (b, n')" and "promise_empty n"
  shows "b \<longleftrightarrow> \<not> read_from_empty n" and "b \<Longrightarrow> remaining_behaviors n = Suc (remaining_behaviors n')"
    and "\<not> b \<Longrightarrow> remaining_behaviors n' = remaining_behaviors n"
proof -
  note pend = increment_read_from_pending [OF assms(1,2)]
  have wf: "-1 \<le> nd_resolve_promise_idx n" "-1 \<le> nd_read_from_promise_idx n" "-1 \<le> nd_future_index n"
    using assms(1) by (auto simp: node_wf_def choices_wf_def)
  then have "pending_choices n = [] \<longleftrightarrow> read_from_empty n"
    by (auto simp: pending_choices_def read_from_empty_def read_from_past_empty_def
        read_from_promise_empty_def future_value_empty_def)
  then show "b \<longleftrightarrow> \<not> read_from_empty n" using pend(1) by (auto split: if_splits)
  have same: "nd_misc_max n' = nd_misc_max n" "nd_misc_index n' = nd_misc_index n"
    "nd_relseq_break_writes n' = nd_relseq_break_writes n" "nd_relseq_break_index n' = nd_relseq_break_index n"
    "nd_resolve_promise n' = []"
    using assms(2) by (auto simp: increment_read_from_defs Let_def split: if_splits)
  have "True \<notin> set (drop (nat (nd_resolve_promise_idx n + 1)) (nd_resolve_promise n))"
    using assms(3) promise_empty_drop [OF wf(1)] by simp
  then have none: "count_true (drop (nat (nd_resolve_promise_idx n + 1)) (nd_resolve_promise n)) = 0"
    by (simp add: count_true_0)
  show "b \<Longrightarrow> remaining_behaviors n = Suc (remaining_behaviors n')"
    using pend(1) none by (simp add: remaining_behaviors_def same)
  show "\<not> b \<Longrightarrow> remaining_behaviors n' = remaining_behaviors n"
    using pend none by (simp add: remaining_behaviors_def same)
qed

lemma increment_relseq_break_remaining:
  assumes "increment_relseq_break n = (b, n')"
  shows "b \<longleftrightarrow> \<not> relseq_break_empty n" and "b \<Longrightarrow> remaining_behaviors n = Suc (remaining_behaviors n')"
  using assms
  by (auto simp: increment_relseq_break_def relseq_break_empty_def remaining_behaviors_def
      pending_choices_def split: if_splits)

lemma remaining_0_iff:
  assumes "node_wf n"
  shows "remaining_behaviors n = 0 \<longleftrightarrow>
    misc_empty n \<and> promise_empty n \<and> read_from_empty n \<and> relseq_break_empty n"
proof -
  have wf: "-1 \<le> nd_resolve_promise_idx n" "-1 \<le> nd_read_from_promise_idx n" "-1 \<le> nd_future_index n"
    using assms by (auto simp: node_wf_def choices_wf_def)
  have "pending_choices n = [] \<longleftrightarrow> read_from_empty n" using wf
    by (auto simp: pending_choices_def read_from_empty_def read_from_past_empty_def
        read_from_promise_empty_def future_value_empty_def)
  moreover note promise_empty_drop [OF wf(1)]
  ultimately show ?thesis
    by (auto simp: remaining_behaviors_def misc_empty_def relseq_break_empty_def count_true_0)
qed

lemma promise_empty_misc: "promise_empty (snd (increment_misc n)) = promise_empty n"
  "read_from_empty (snd (increment_misc n)) = read_from_empty n"
  "relseq_break_empty (snd (increment_misc n)) = relseq_break_empty n"
  by (auto simp: increment_misc_def promise_empty_def read_from_empty_def read_from_past_empty_def
      read_from_promise_empty_def future_value_empty_def relseq_break_empty_def)

lemma relseq_break_empty_read_from:
  "relseq_break_empty (snd (increment_read_from n)) = relseq_break_empty n"
  by (auto simp: increment_read_from_defs relseq_break_empty_def Let_def)

lemma increment_behaviors_remaining:
  assumes "node_wf n"
  shows "fst (increment_behaviors n) \<longleftrightarrow> 0 < remaining_behaviors n"
    and "fst (increment_behaviors n) \<Longrightarrow>
           remaining_behaviors n = Suc (remaining_behaviors (snd (increment_behaviors n)))"
proof -
  obtain b1 n1 where misc: "increment_misc n = (b1, n1)" by fastforce
  obtain b2 n2 where prom: "increment_promise n1 = (b2, n2)" by fastforce
  obtain b3 n3 where rf: "increment_read_from n2 = (b3, n3)" by fastforce
  obtain b4 n4 where rel: "increment_relseq_break n3 = (b4, n4)" by fastforce
  have eq: "increment_behaviors n = (if b1 then (True, n1) else if b2 then (True, n2)
      else if b3 then (True, n3) else (b4, n4))"
    by (simp add: increment_behaviors_def misc prom rf rel)
  have wf1: "node_wf n1" using increment_misc_wf [OF assms] misc by simp
  have wf2: "node_wf n2" using increment_promise_wf [OF wf1] prom by simp
  note m = increment_misc_remaining [OF misc]
    and p = increment_promise_remaining [OF wf1 prom]
    and r = increment_read_from_remaining [OF wf2 rf]
    and q = increment_relseq_break_remaining [OF rel]
  have keep: "promise_empty n1 = promise_empty n" "read_from_empty n1 = read_from_empty n"
    "relseq_break_empty n1 = relseq_break_empty n" "relseq_break_empty n3 = relseq_break_empty n2"
    using promise_empty_misc [of n] misc relseq_break_empty_read_from [of n2] rf by simp_all
  have pe: "\<not> b2 \<Longrightarrow> promise_empty n2" using p by auto
  show "fst (increment_behaviors n) \<longleftrightarrow> 0 < remaining_behaviors n"
    using remaining_0_iff [OF assms] m(1) p(1,3) r(1) [OF pe] q(1) keep by (auto simp: eq)
  assume "fst (increment_behaviors n)"
  then consider "b1" | "\<not> b1" "b2" | "\<not> b1" "\<not> b2" "b3" | "\<not> b1" "\<not> b2" "\<not> b3" "b4"
    by (auto simp: eq split: if_splits)
  then show "remaining_behaviors n = Suc (remaining_behaviors (snd (increment_behaviors n)))"
    using m p r [OF pe] q(2) by cases (auto simp: eq)
qed

lemma increment_behaviors_iterate:
  assumes "node_wf n" and "i \<le> remaining_behaviors n"
  shows "node_wf (((\<lambda>m. snd (increment_behaviors m)) ^^ i) n) \<and>
    remaining_behaviors (((\<lambda>m. snd (increment_behaviors m)) ^^ i) n) = remaining_behaviors n - i"
  using assms(2)
proof (induction i)
  case (Suc i)
  let ?m = "((\<lambda>m. snd (increment_behaviors m)) ^^ i) n"
  have wf: "node_wf ?m" and rem: "remaining_behaviors ?m = remaining_behaviors n - i" using Suc by auto
  with Suc.prems have "fst (increment_behaviors ?m)" using increment_behaviors_remaining(1) by simp
  from increment_behaviors_remaining(2) [OF wf this] rem increment_behaviors_wf [OF wf]
  show ?case by simp
qed (use assms in simp)

section \<open>Properties\<close>

text \<open>
  (C10) However a node is used, from its construction on, by the operations of \<open>node_step\<close> (its
  choices advance through \<open>increment_behaviors\<close>, as in the checker): the number of pending backtracks
  is the number of threads set for backtracking, a backtrack is available exactly if the set is not
  empty, and then \<open>get_next_backtrack\<close> returns the lowest such thread and removes exactly it; and the
  getters of the current choice never fail their range check when the status selects them and, for
  the past, a store has been added.
\<close>

theorem node_choices_invariant:
  assumes "(node_step params acts)\<^sup>*\<^sup>* (blank_Node act par nthreads) n"
  shows "nd_numBacktracks n = int (card {t. t < nd_num_threads n \<and> nd_backtrack n ! t}) \<and>
    (if backtrack_empty n then get_next_backtrack n = None
     else \<exists>t n'. get_next_backtrack n = Some (t, n') \<and> t < nd_num_threads n \<and> nd_backtrack n ! t \<and>
            (\<forall>u < t. \<not> nd_backtrack n ! u) \<and> nd_backtrack n' = (nd_backtrack n)[t := False]) \<and>
    (nd_read_from_status n = READ_FROM_PAST \<and> nd_read_from_past n \<noteq> [] \<longrightarrow> get_read_from_past n \<noteq> None) \<and>
    (nd_read_from_status n = READ_FROM_PROMISE \<longrightarrow> get_read_from_promise acts n \<noteq> None) \<and>
    (nd_read_from_status n = READ_FROM_FUTURE \<longrightarrow> get_future_value n \<noteq> None)"
proof -
  have wf: "node_wf n" by (rule node_steps_wf [OF assms blank_Node_wf])
  let ?b = "nd_backtrack n"
  have len: "length ?b = nd_num_threads n" and num: "nd_numBacktracks n = int (count_true ?b)"
    using wf by (auto simp: node_wf_def threads_wf_def)
  have "count_true ?b = card {t. t < nd_num_threads n \<and> ?b ! t}"
    by (simp add: count_true_def length_filter_conv_card len)
  moreover have "if backtrack_empty n then get_next_backtrack n = None
     else \<exists>t n'. get_next_backtrack n = Some (t, n') \<and> t < nd_num_threads n \<and> ?b ! t \<and>
            (\<forall>u < t. \<not> ?b ! u) \<and> nd_backtrack n' = ?b[t := False]"
  proof (cases "True \<in> set ?b")
    case True
    have lt: "first_true ?b < length ?b" using True by (simp add: first_true_less)
    have "\<not> backtrack_empty n" using True num count_true_0 [of ?b] by (simp add: backtrack_empty_def)
    then show ?thesis using lt first_true_nth [OF True] first_true_least [of _ ?b] len
      by (simp add: get_next_backtrack_def Let_def int_to_id_def)
  next
    case False
    then have "first_true ?b = length ?b" using first_true_less [of ?b] first_true_le [of ?b] by simp
    then show ?thesis using False num count_true_0 [of ?b]
      by (simp add: get_next_backtrack_def backtrack_empty_def)
  qed
  moreover have "status_wf n" using wf by (simp add: node_wf_def)
  then have "(nd_read_from_status n = READ_FROM_PAST \<and> nd_read_from_past n \<noteq> [] \<longrightarrow> get_read_from_past n \<noteq> None) \<and>
    (nd_read_from_status n = READ_FROM_PROMISE \<longrightarrow> get_read_from_promise acts n \<noteq> None) \<and>
    (nd_read_from_status n = READ_FROM_FUTURE \<longrightarrow> get_future_value n \<noteq> None)"
    by (auto simp: status_wf_def get_read_from_past_def get_read_from_promise_def get_future_value_def)
  ultimately show ?thesis using num by simp
qed

theorem node_choices_invariant_witness:
  "nd_numBacktracks (snd (the (set_backtrack (blank_Node 0 None 2) 1))) = 1 \<and>
   (\<exists>n'. get_next_backtrack (snd (the (set_backtrack (blank_Node 0 None 2) 1))) = Some (1, n'))"
proof -
  let ?n = "snd (the (set_backtrack (blank_Node 0 None 2) 1))"
  have s: "set_backtrack (blank_Node 0 None 2) 1 = Some (True, ?n)"
    by (simp add: set_backtrack_def blank_Node_def Let_def id_to_int_def)
  then have "(node_step undefined undefined)\<^sup>*\<^sup>* (blank_Node 0 None 2) ?n"
    by (intro r_into_rtranclp step_set_backtrack)
  note inv = node_choices_invariant [OF this]
  have bt: "nd_backtrack ?n = [False, True]" "nd_num_threads ?n = 2" "\<not> backtrack_empty ?n"
    by (simp_all add: set_backtrack_def blank_Node_def backtrack_empty_def Let_def id_to_int_def numeral_2_eq_2)
  have "{t. t < 2 \<and> [False, True] ! t} = {1}" by (auto simp: less_2_cases_iff)
  with inv bt have one: "nd_numBacktracks ?n = 1" by simp
  from inv bt obtain t n' where t: "get_next_backtrack ?n = Some (t, n')" "t < 2" "[False, True] ! t" by auto
  then have "t = 1" by (auto simp: less_2_cases_iff)
  with one t show ?thesis by blast
qed

text \<open>
  (C11) The search reads from everything. If at the first use of a node the may-read-from set has
  the given past writes, promises and future values, then stepping with \<open>increment_read_from\<close>
  meets each past write, then each promise, then each future value, every one exactly once and in
  the order added, and stops.
\<close>

theorem read_from_enumeration:
  assumes "node_wf n" and "nd_read_from_status n = READ_FROM_PAST"
    and "nd_read_from_past_idx n = 0" and "nd_read_from_promise_idx n = -1" and "nd_future_index n = -1"
    and "read_from_size n \<le> fuel"
  shows "visited fuel (snd (get_read_from_status n)) =
    map Past (nd_read_from_past n) @ map FromPromise (nd_read_from_promises n) @ map Future (nd_future_values n)"
proof (cases "nd_read_from_past n")
  case (Cons w ws)
  have "current_choice n = Some (Past w)" using assms(2,3) Cons
    by (simp add: current_choice_def get_read_from_past_def)
  moreover have pend: "pending_choices n = map Past ws @ map FromPromise (nd_read_from_promises n) @ map Future (nd_future_values n)"
    using assms(3,4,5) Cons by (simp add: pending_choices_def)
  ultimately have "visited fuel n = Past w # pending_choices n"
    using assms(6) Cons by (intro visited_eq [OF assms(1)]) (simp_all add: read_from_size_def)
  then show ?thesis using Cons pend by (simp add: get_read_from_status_def Let_def)
next
  case Nil
  have pend: "pending_choices n = map FromPromise (nd_read_from_promises n) @ map Future (nd_future_values n)"
    using assms(3,4,5) Nil by (simp add: pending_choices_def)
  obtain b n' where inc: "increment_read_from n = (b, n')" by fastforce
  have st: "snd (get_read_from_status n) = n'"
    using inc assms(2) Nil by (simp add: get_read_from_status_def Let_def)
  note p = increment_read_from_pending [OF assms(1) inc]
  show ?thesis
  proof (cases b)
    case True
    then obtain c where c: "current_choice n' = Some c" using p(2) by auto
    have "node_wf n'" using increment_read_from_wf [OF assms(1)] inc by simp
    then have "visited fuel n' = c # pending_choices n'"
      using assms(6) p(1) True pend Nil
      by (intro visited_eq [OF _ c]) (auto simp: read_from_size_def dest: arg_cong [of _ _ length])
    then show ?thesis using p(1) True pend c Nil st by simp
  next
    case False
    then have "visited fuel n' = []" using p(3) by (cases fuel) simp_all
    then show ?thesis using p(1) False pend Nil st by simp
  qed
qed

theorem read_from_enumeration_witness:
  "visited 3 (snd (get_read_from_status (add_read_from_promise (add_read_from_past (blank_Node 0 None 1) 5) 7))) =
     [Past 5, FromPromise 7]"
proof -
  let ?n = "add_read_from_promise (add_read_from_past (blank_Node 0 None 1) 5) 7"
  have "node_wf ?n" by (intro add_read_from_promise_wf add_read_from_past_wf blank_Node_wf)
  from read_from_enumeration [OF this, of 3] show ?thesis
    by (simp add: add_read_from_promise_def add_read_from_past_def blank_Node_def read_from_size_def)
qed

text \<open>
  (C12) A node runs out of behaviours, after exactly as many successful calls of
  \<open>increment_behaviors\<close> as its indices leave; the test the search uses to pass over a node (all
  four choices empty) answers yes exactly when the next call would fail.
\<close>

theorem increment_behaviors_exhausts:
  assumes "(node_step params acts)\<^sup>*\<^sup>* (blank_Node act par nthreads) n"
  shows "(\<forall>i \<le> remaining_behaviors n.
      fst (increment_behaviors (((\<lambda>m. snd (increment_behaviors m)) ^^ i) n)) \<longleftrightarrow> i < remaining_behaviors n) \<and>
    (fst (increment_behaviors n) \<longleftrightarrow>
      \<not> (misc_empty n \<and> promise_empty n \<and> read_from_empty n \<and> relseq_break_empty n))"
proof -
  have wf: "node_wf n" by (rule node_steps_wf [OF assms blank_Node_wf])
  show ?thesis
    using increment_behaviors_iterate [OF wf] increment_behaviors_remaining(1) [OF wf]
      increment_behaviors_remaining(1) remaining_0_iff [OF wf]
    by (auto simp: zero_less_diff)
qed

theorem increment_behaviors_exhausts_witness:
  "fst (increment_behaviors (set_misc_max (blank_Node 0 None 1) 2)) \<and>
   \<not> fst (increment_behaviors (snd (increment_behaviors (set_misc_max (blank_Node 0 None 1) 2))))"
proof -
  let ?n = "set_misc_max (blank_Node 0 None 1) 2"
  have "(node_step undefined undefined)\<^sup>*\<^sup>* (blank_Node 0 None 1) ?n"
    by (intro r_into_rtranclp step_set_misc_max)
  note ex = increment_behaviors_exhausts [OF this, THEN conjunct1]
  have "remaining_behaviors ?n = 1"
    by (simp add: remaining_behaviors_def pending_choices_def set_misc_max_def blank_Node_def)
  with ex [rule_format, of 0] ex [rule_format, of 1] show ?thesis by simp
qed

end
