(* ===== verification/Yield.thy ===== *)
theory Yield
  imports NodeChoices
begin

unbundle bit_operations_syntax

text \<open>
  The yield-based fairness of \<open>nodestack.cc\<close>: \<open>get_yield_data\<close>, \<open>update_yield\<close> and
  \<open>has_priority_over\<close>. The matrix \<open>yield_data\<close> has a word of four flags for each pair of
  threads, row by row. The flag \<open>YIELD_P\<close> at \<open>(u, v)\<close> makes thread \<open>u\<close> wait for
  \<open>v\<close>; the main result is that these waits never form a cycle.
\<close>

section \<open>The matrix\<close>

definition YIELD_E :: "32 word" where "YIELD_E = 1"
definition YIELD_D :: "32 word" where "YIELD_D = 2"
definition YIELD_S :: "32 word" where "YIELD_S = 4"
definition YIELD_P :: "32 word" where "YIELD_P = 8"

lemmas yield_flags = YIELD_E_def YIELD_D_def YIELD_S_def YIELD_P_def

definition YIELD_INDEX :: "nat \<Rightarrow> nat \<Rightarrow> nat \<Rightarrow> nat" where
  "YIELD_INDEX tid1 tid2 num_threads = tid1 * num_threads + tid2"

definition get_yield_data :: "Node \<Rightarrow> nat \<Rightarrow> nat \<Rightarrow> 32 word option" where
  "get_yield_data n tid1 tid2 =
     (if tid1 < nd_num_threads n \<and> tid2 < nd_num_threads n
      then do { yd \<leftarrow> nd_yield_data n; vec_at yd (YIELD_INDEX tid1 tid2 (nd_num_threads n)) }
      else Some (YIELD_S OR YIELD_D))"

definition has_priority_over :: "Node \<Rightarrow> thread_id_t \<Rightarrow> thread_id_t \<Rightarrow> bool option" where
  "has_priority_over n tid1 tid2 = do {
     y \<leftarrow> get_yield_data n (id_to_int tid1) (id_to_int tid2);
     Some (y AND YIELD_P \<noteq> 0)
   }"

section \<open>update\_yield\<close>

definition vec_set :: "'a list \<Rightarrow> nat \<Rightarrow> 'a \<Rightarrow> 'a list option" where
  "vec_set xs i x = (if i < length xs then Some (xs[i := x]) else None)"

text \<open>The value computed by the inner loop for the pair \<open>(u, v)\<close>.\<close>

definition yield_entry :: "Scheduler \<Rightarrow> Node \<Rightarrow> nat \<Rightarrow> nat \<Rightarrow> nat \<Rightarrow> 32 word option" where
  "yield_entry scheduler parent curr_tid u v = do {
     yield_state \<leftarrow> get_yield_data parent u v;
     let next_enabled = Scheduler_is_enabled scheduler (int_to_id v);
     curr_enabled \<leftarrow> Node_is_enabled parent (int_to_id v);
     Some (if \<not> next_enabled
           then let yield_state = yield_state AND NOT YIELD_E
                in if u = curr_tid \<and> curr_enabled then yield_state OR YIELD_D else yield_state
           else yield_state)
   }"

definition yield_row :: "Scheduler \<Rightarrow> Node \<Rightarrow> nat \<Rightarrow> nat \<Rightarrow> nat \<Rightarrow> 32 word list \<Rightarrow> 32 word list option" where
  "yield_row scheduler parent curr_tid num_threads u yield_data = do {
     yd \<leftarrow> foldM (\<lambda>v yd. do {
               e \<leftarrow> yield_entry scheduler parent curr_tid u v;
               vec_set yd (YIELD_INDEX u v num_threads) e
             }) [0..<num_threads] yield_data;
     y \<leftarrow> vec_at yd (YIELD_INDEX u curr_tid num_threads);
     vec_set yd (YIELD_INDEX u curr_tid num_threads) ((y AND NOT YIELD_P) OR YIELD_S)
   }"

text \<open>The entry \<open>(curr_tid, v)\<close> when the current action is a yield.\<close>

definition yield_self :: "bool \<Rightarrow> 32 word \<Rightarrow> 32 word" where
  "yield_self v_enabled yield_state =
     (let y = (if yield_state AND (YIELD_E OR YIELD_D) \<noteq> 0 \<and> yield_state AND YIELD_S = 0
               then yield_state OR YIELD_P else yield_state);
          y = y AND YIELD_P
      in if v_enabled then y OR YIELD_E else y)"

definition yield_curr :: "Scheduler \<Rightarrow> nat \<Rightarrow> nat \<Rightarrow> nat \<Rightarrow> 32 word list \<Rightarrow> 32 word list option" where
  "yield_curr scheduler curr_tid num_threads v yd = do {
     y \<leftarrow> vec_at yd (YIELD_INDEX curr_tid v num_threads);
     vec_set yd (YIELD_INDEX curr_tid v num_threads)
       (yield_self (Scheduler_is_enabled scheduler (int_to_id v)) y)
   }"

definition update_yield :: "act_store \<Rightarrow> Node list \<Rightarrow> Scheduler \<Rightarrow> Node \<Rightarrow> Node option" where
  "update_yield acts nodes scheduler n =
     (let num = nd_num_threads n;
          yd = (case nd_yield_data n of None \<Rightarrow> replicate (num * num) 0 | Some y \<Rightarrow> y)
      in case nd_parent n of
           None \<Rightarrow> do {
             yd \<leftarrow> foldM (\<lambda>i yd. vec_set yd i (YIELD_S OR YIELD_D)) [0..<num * num] yd;
             Some (n\<lparr>nd_yield_data := Some yd\<rparr>)
           }
         | Some p \<Rightarrow> do {
             parent \<leftarrow> vec_at nodes p;
             let curr_tid = id_to_int (ma_tid (acts (nd_action n)));
             yd \<leftarrow> foldM (yield_row scheduler parent curr_tid num) [0..<num] yd;
             yd \<leftarrow> (if is_yield (acts (nd_action n))
                    then foldM (yield_curr scheduler curr_tid num) [0..<num] yd else Some yd);
             Some (n\<lparr>nd_yield_data := Some yd\<rparr>)
           })"

section \<open>What the loops write\<close>

lemma vec_set_Some [simp]: "vec_set xs i x = Some ys \<longleftrightarrow> i < length xs \<and> ys = xs[i := x]"
  by (auto simp: vec_set_def)

text \<open>A loop that writes \<open>f v\<close> at \<open>b + v\<close> for all \<open>v < n\<close>.\<close>

lemma foldM_write:
  assumes "foldM (\<lambda>v yd. do { e \<leftarrow> g v; vec_set yd (b + v) e }) [0..<n] yd = Some yd'"
  shows "length yd' = length yd"
    and "v < n \<Longrightarrow> b + v < length yd \<and> g v = Some (yd' ! (b + v))"
    and "k < b \<or> b + n \<le> k \<Longrightarrow> yd' ! k = yd ! k"
  using assms
proof (induction n arbitrary: yd')
  case (Suc n)
  {
    case 1
    then obtain y where "foldM (\<lambda>v yd. do { e \<leftarrow> g v; vec_set yd (b + v) e }) [0..<n] yd = Some y"
      "length yd' = length y" by (auto simp: foldM_append bind_eq_Some_conv)
    with Suc.IH(1) show ?case by simp
  next
    case 2
    from 2(2) obtain y e where y: "foldM (\<lambda>v yd. do { e \<leftarrow> g v; vec_set yd (b + v) e }) [0..<n] yd = Some y"
      "g n = Some e" "b + n < length y" "yd' = y[b + n := e]"
      by (auto simp: foldM_append bind_eq_Some_conv)
    with Suc.IH(1) Suc.IH(2) 2(1) show ?case by (cases "v = n") auto
  next
    case 3
    from 3(2) obtain y e where y: "foldM (\<lambda>v yd. do { e \<leftarrow> g v; vec_set yd (b + v) e }) [0..<n] yd = Some y"
      "yd' = y[b + n := e]"
      by (auto simp: foldM_append bind_eq_Some_conv)
    with Suc.IH(3) 3(1) show ?case by auto
  }
qed simp_all

lemma index_less: "u < N \<Longrightarrow> v < N \<Longrightarrow> u * N + v < N * (N::nat)"
proof -
  assume "u < N" "v < N"
  then have "u * N + v < Suc u * N" by simp
  also have "\<dots> \<le> N * N" using \<open>u < N\<close> by (intro mult_le_mono1) simp
  finally show ?thesis .
qed

lemma index_other_row:
  assumes "w \<noteq> u" and "v < (N::nat)"
  shows "w * N + v < u * N \<or> u * N + N \<le> w * N + v"
proof (cases "w < u")
  case True
  then have "Suc w * N \<le> u * N" by (intro mult_le_mono1) simp
  with assms(2) show ?thesis by simp
next
  case False
  with assms(1) have "Suc u * N \<le> w * N" by (intro mult_le_mono1) simp
  then show ?thesis by simp
qed

lemma index_inj: "u < N \<Longrightarrow> v < N \<Longrightarrow> w < N \<Longrightarrow> x < (N::nat) \<Longrightarrow> u * N + v = w * N + x \<longleftrightarrow> u = w \<and> v = x"
  using index_other_row [of w u x N] by (cases "u = w") auto

text \<open>The flags of \<open>(u, v)\<close> after the row loops.\<close>

definition row_entry :: "nat \<Rightarrow> nat \<Rightarrow> 32 word \<Rightarrow> 32 word" where
  "row_entry c v e = (if v = c then (e AND NOT YIELD_P) OR YIELD_S else e)"

lemma yield_row_writes:
  assumes "yield_row s p c N u yd = Some yd'" and "u < N" "c < N"
  shows "length yd' = length yd"
    and "v < N \<Longrightarrow> u * N + v < length yd \<and>
      (\<exists>e. yield_entry s p c u v = Some e \<and> yd' ! (u * N + v) = row_entry c v e)"
    and "w \<noteq> u \<Longrightarrow> v < N \<Longrightarrow> yd' ! (w * N + v) = yd ! (w * N + v)"
proof -
  from assms(1) obtain y where y: "foldM (\<lambda>v yd. do { e \<leftarrow> yield_entry s p c u v; vec_set yd (u * N + v) e }) [0..<N] yd = Some y"
    and c: "u * N + c < length y" and yd': "yd' = y[u * N + c := (y ! (u * N + c) AND NOT YIELD_P) OR YIELD_S]"
    by (auto simp: yield_row_def YIELD_INDEX_def bind_eq_Some_conv)
  note w = foldM_write [OF y]
  show "length yd' = length yd" using w(1) yd' by simp
  show "v < N \<Longrightarrow> u * N + v < length yd \<and>
      (\<exists>e. yield_entry s p c u v = Some e \<and> yd' ! (u * N + v) = row_entry c v e)"
    using w(1) w(2) [of v] c by (auto simp: yd' row_entry_def nth_list_update)
  show "w \<noteq> u \<Longrightarrow> v < N \<Longrightarrow> yd' ! (w * N + v) = yd ! (w * N + v)"
    using w(3) [of "w * N + v"] index_other_row [of w u v N] assms(3) by (auto simp: yd' nth_list_update)
qed

lemma yield_rows_write:
  assumes "foldM (yield_row s p c N) [0..<m] yd = Some yd'" and "m \<le> N" "c < N"
  shows "length yd' = length yd"
    and "u < m \<Longrightarrow> v < N \<Longrightarrow> u * N + v < length yd \<and>
      (\<exists>e. yield_entry s p c u v = Some e \<and> yd' ! (u * N + v) = row_entry c v e)"
  using assms(1,2)
proof (induction m arbitrary: yd')
  case (Suc m)
  {
    case 1
    then obtain y where "foldM (yield_row s p c N) [0..<m] yd = Some y" "yield_row s p c N m y = Some yd'"
      by (auto simp: foldM_append bind_eq_Some_conv)
    with Suc.IH(1) 1(2) yield_row_writes(1) assms(3) show ?case by fastforce
  next
    case 2
    then obtain y where y: "foldM (yield_row s p c N) [0..<m] yd = Some y" "yield_row s p c N m y = Some yd'"
      by (auto simp: foldM_append bind_eq_Some_conv)
    show ?case
    proof (cases "u = m")
      case True
      have "length y = length yd" using Suc.IH(1) y(1) 2 by simp
      with yield_row_writes(2) [OF y(2)] 2 assms(3) True show ?thesis by simp
    next
      case False
      with 2 have "yd' ! (u * N + v) = y ! (u * N + v)"
        using yield_row_writes(3) [OF y(2) _ assms(3) False] by simp
      with Suc.IH(2) [OF _ _ y(1)] 2 False show ?thesis by simp
    qed
  }
qed simp_all

lemma yield_curr_writes:
  assumes "foldM (yield_curr s c N) [0..<m] yd = Some yd'" and "m \<le> N" "c < N"
  shows "length yd' = length yd"
    and "u < N \<Longrightarrow> v < N \<Longrightarrow> yd' ! (u * N + v) =
      (if u = c \<and> v < m then yield_self (Scheduler_is_enabled s v) (yd ! (u * N + v)) else yd ! (u * N + v))"
  using assms(1,2)
proof (induction m arbitrary: yd')
  case (Suc m)
  {
    case 1
    then obtain y where "foldM (yield_curr s c N) [0..<m] yd = Some y" "yield_curr s c N m y = Some yd'"
      by (auto simp: foldM_append bind_eq_Some_conv)
    moreover from this have "length yd' = length y" by (auto simp: yield_curr_def bind_eq_Some_conv)
    ultimately show ?case using Suc.IH(1) [of y] 1(2) by simp
  next
    case 2
    then obtain y where y: "foldM (yield_curr s c N) [0..<m] yd = Some y" "yield_curr s c N m y = Some yd'"
      by (auto simp: foldM_append bind_eq_Some_conv)
    then have yd': "c * N + m < length y"
      "yd' = y[c * N + m := yield_self (Scheduler_is_enabled s m) (y ! (c * N + m))]"
      by (auto simp: yield_curr_def YIELD_INDEX_def int_to_id_def bind_eq_Some_conv)
    have ih: "y ! (u * N + v) =
      (if u = c \<and> v < m then yield_self (Scheduler_is_enabled s v) (yd ! (u * N + v)) else yd ! (u * N + v))"
      using Suc.IH(2) [OF 2(1,2) y(1)] 2 by simp
    have "c * N + m = u * N + v \<longleftrightarrow> c = u \<and> m = v" using index_inj [of c N m u v] assms(3) 2 by simp
    with yd' ih show ?case by (auto simp: nth_list_update less_Suc_eq)
  }
qed simp_all

text \<open>All flags after \<open>update_yield\<close>.\<close>

definition next_entry :: "Scheduler \<Rightarrow> ModelAction \<Rightarrow> nat \<Rightarrow> nat \<Rightarrow> 32 word \<Rightarrow> 32 word" where
  "next_entry s act u v e =
     (let c = ma_tid act in
      if is_yield act \<and> u = c then yield_self (Scheduler_is_enabled s v) (row_entry c v e) else row_entry c v e)"

lemma update_yield_child:
  assumes "update_yield acts nodes s n = Some n'" and "nd_parent n = Some p"
    and "ma_tid (acts (nd_action n)) < nd_num_threads n"
    and "u < nd_num_threads n" "v < nd_num_threads n"
  shows "\<exists>e y. yield_entry s (nodes ! p) (ma_tid (acts (nd_action n))) u v = Some e \<and>
      get_yield_data n' u v = Some y \<and> y = next_entry s (acts (nd_action n)) u v e"
proof -
  let ?N = "nd_num_threads n" and ?c = "ma_tid (acts (nd_action n))"
  from assms(1,2) obtain yd yd1 yd2 where
    rows: "foldM (yield_row s (nodes ! p) ?c ?N) [0..<?N] yd = Some yd1"
    and curr: "(if is_yield (acts (nd_action n)) then foldM (yield_curr s ?c ?N) [0..<?N] yd1 else Some yd1) = Some yd2"
    and n': "n' = n\<lparr>nd_yield_data := Some yd2\<rparr>"
    by (auto simp: update_yield_def Let_def id_to_int_def bind_eq_Some_conv)
  note r = yield_rows_write [OF rows le_refl assms(3)]
  from r(2) [OF assms(4,5)] r(1) obtain e where written: "u * ?N + v < length yd1"
    and e: "yield_entry s (nodes ! p) ?c u v = Some e" "yd1 ! (u * ?N + v) = row_entry ?c v e" by auto
  have "length yd2 = length yd1 \<and> yd2 ! (u * ?N + v) = next_entry s (acts (nd_action n)) u v e"
  proof (cases "is_yield (acts (nd_action n))")
    case True
    with curr have c: "foldM (yield_curr s ?c ?N) [0..<?N] yd1 = Some yd2" by simp
    from yield_curr_writes [OF c le_refl assms(3)] assms(4,5) e(2) True
    show ?thesis by (auto simp: next_entry_def)
  next
    case False
    with curr e(2) show ?thesis by (simp add: next_entry_def)
  qed
  with written have "get_yield_data n' u v = Some (next_entry s (acts (nd_action n)) u v e)"
    using assms(4,5) by (simp add: get_yield_data_def YIELD_INDEX_def n')
  with e(1) show ?thesis by blast
qed

section \<open>The priority relation\<close>

definition priority_rel :: "Node \<Rightarrow> (thread_id_t \<times> thread_id_t) set" where
  "priority_rel n = {(u, v). has_priority_over n u v = Some True}"

lemma yield_flags_power: "YIELD_E = 2 ^ 0" "YIELD_D = 2 ^ 1" "YIELD_S = 2 ^ 2" "YIELD_P = 2 ^ 3"
  by (simp_all add: yield_flags)

lemma bit_yield_flags [simp]:
  "bit YIELD_E k \<longleftrightarrow> k = 0" "bit YIELD_D k \<longleftrightarrow> k = 1" "bit YIELD_S k \<longleftrightarrow> k = 2" "bit YIELD_P k \<longleftrightarrow> k = 3"
  unfolding yield_flags_power bit_exp_iff by auto

lemma AND_P_iff: "(e AND YIELD_P \<noteq> 0) = bit e 3"
proof -
  have "e AND YIELD_P = 0 \<longleftrightarrow> (\<forall>k. \<not> (bit e k \<and> k = 3))"
    using bit_eq_iff [of "e AND YIELD_P" 0] bit_imp_le_length [of e] by (auto simp: bit_and_iff)
  then show ?thesis by auto
qed

lemma AND_S_iff: "(e AND YIELD_S = 0) = (\<not> bit e 2)"
proof -
  have "e AND YIELD_S = 0 \<longleftrightarrow> (\<forall>k. \<not> (bit e k \<and> k = 2))"
    using bit_eq_iff [of "e AND YIELD_S" 0] bit_imp_le_length [of e] by (auto simp: bit_and_iff)
  then show ?thesis by auto
qed

lemma yield_entry_P: "yield_entry s p c u v = Some e \<Longrightarrow>
    \<exists>y. get_yield_data p u v = Some y \<and> bit e 3 = bit y 3"
  by (auto simp: yield_entry_def Let_def bind_eq_Some_conv bit_or_iff bit_and_iff bit_not_iff)

lemma next_entry_P:
  assumes "bit (next_entry s act u v e) 3"
  shows "v \<noteq> ma_tid act \<and> (u = ma_tid act \<or> bit e 3)"
  using assms
  by (auto simp: next_entry_def row_entry_def yield_self_def Let_def AND_S_iff bit_or_iff bit_and_iff
      bit_not_iff split: if_splits)

lemma priority_rel_iff: "(u, v) \<in> priority_rel n \<longleftrightarrow> (\<exists>y. get_yield_data n u v = Some y \<and> bit y 3)"
  by (auto simp: priority_rel_def has_priority_over_def id_to_int_def AND_P_iff bind_eq_Some_conv)

lemma priority_rel_bound: "(u, v) \<in> priority_rel n \<Longrightarrow> u < nd_num_threads n \<and> v < nd_num_threads n"
  by (auto simp: priority_rel_iff get_yield_data_def bit_or_iff split: if_splits)

lemma update_yield_num_threads: "update_yield acts nodes s n = Some n' \<Longrightarrow> nd_num_threads n' = nd_num_threads n"
  by (auto simp: update_yield_def Let_def bind_eq_Some_conv split: option.splits)

lemma update_yield_priority:
  assumes "update_yield acts nodes s n = Some n'" and "nd_parent n = Some p"
    and "ma_tid (acts (nd_action n)) < nd_num_threads n" and "(u, v) \<in> priority_rel n'"
  shows "v \<noteq> ma_tid (acts (nd_action n)) \<and>
    (u = ma_tid (acts (nd_action n)) \<or> (u, v) \<in> priority_rel (nodes ! p))"
proof -
  have "u < nd_num_threads n" "v < nd_num_threads n"
    using priority_rel_bound [OF assms(4)] update_yield_num_threads [OF assms(1)] by auto
  from update_yield_child [OF assms(1-3) this] assms(4) obtain e
    where e: "yield_entry s (nodes ! p) (ma_tid (acts (nd_action n))) u v = Some e"
      and "bit (next_entry s (acts (nd_action n)) u v e) 3" by (auto simp: priority_rel_iff)
  from next_entry_P [OF this(2)] yield_entry_P [OF e] show ?thesis by (auto simp: priority_rel_iff)
qed

lemma foldM_vec_set_all:
  assumes "foldM (\<lambda>i yd. vec_set yd i x) [0..<m] yd = Some yd'"
  shows "length yd' = length yd \<and> (\<forall>i < m. yd' ! i = x)"
  using assms
proof (induction m arbitrary: yd')
  case (Suc m)
  then obtain y where "foldM (\<lambda>i yd. vec_set yd i x) [0..<m] yd = Some y" "m < length y" "yd' = y[m := x]"
    by (auto simp: foldM_append bind_eq_Some_conv)
  with Suc.IH show ?case by (auto simp: nth_list_update)
qed simp

lemma update_yield_root:
  assumes "update_yield acts nodes s n = Some n'" and "nd_parent n = None"
  shows "priority_rel n' = {}"
proof -
  from assms obtain yd yd' where
    "foldM (\<lambda>i yd. vec_set yd i (YIELD_S OR YIELD_D)) [0..<nd_num_threads n * nd_num_threads n] yd = Some yd'"
    and n': "n' = n\<lparr>nd_yield_data := Some yd'\<rparr>"
    by (auto simp: update_yield_def Let_def bind_eq_Some_conv)
  note all = foldM_vec_set_all [OF this(1)]
  have "\<not> (u, v) \<in> priority_rel n'" for u v
  proof
    assume pr: "(u, v) \<in> priority_rel n'"
    then have lt: "u < nd_num_threads n" "v < nd_num_threads n" using priority_rel_bound [OF pr] by (simp_all add: n')
    with pr have "bit (yd' ! (u * nd_num_threads n + v)) 3"
      by (auto simp: priority_rel_iff get_yield_data_def YIELD_INDEX_def n' split: if_splits)
    moreover have "yd' ! (u * nd_num_threads n + v) = YIELD_S OR YIELD_D"
      using all index_less [OF lt] by simp
    ultimately show False by (simp add: bit_or_iff)
  qed
  then show ?thesis by auto
qed

section \<open>Acyclicity\<close>

lemma acyclic_redirect:
  assumes "acyclic r" and sub: "\<And>u v. (u, v) \<in> s \<Longrightarrow> v \<noteq> c \<and> (u = c \<or> (u, v) \<in> r)"
  shows "acyclic s"
proof (rule acyclicI, rule allI)
  fix x
  have "y \<noteq> c \<and> (x \<noteq> c \<longrightarrow> (x, y) \<in> r\<^sup>+)" if "(x, y) \<in> s\<^sup>+" for y
    using that
  proof (induction rule: trancl_induct)
    case (base y)
    then show ?case using sub by blast
  next
    case (step y z)
    then show ?case using sub by (metis trancl.trancl_into_trancl)
  qed
  from this [of x] assms(1) show "(x, x) \<notin> s\<^sup>+" by (auto simp: acyclic_def)
qed

text \<open>
  The nodes of the stack: the first and every later node gets its flags from \<open>update_yield\<close>; all
  other operations leave them alone.
\<close>

inductive yielded :: "Node \<Rightarrow> bool" where
  yielded_root: "nd_parent n = None \<Longrightarrow> update_yield acts nodes s n = Some n' \<Longrightarrow> yielded n'"
| yielded_child: "nd_parent n = Some p \<Longrightarrow> p < length nodes \<Longrightarrow> yielded (nodes ! p) \<Longrightarrow>
    ma_tid (acts (nd_action n)) < nd_num_threads n \<Longrightarrow> update_yield acts nodes s n = Some n' \<Longrightarrow> yielded n'"
| yielded_step: "yielded n \<Longrightarrow> node_step params acts n n' \<Longrightarrow> yielded n'"

lemma increment_behaviors_frame:
  "nd_yield_data (snd (increment_behaviors n)) = nd_yield_data n"
  "nd_num_threads (snd (increment_behaviors n)) = nd_num_threads n"
  by (simp_all add: increment_behaviors_def increment_misc_def increment_promise_eq increment_read_from_defs
      increment_relseq_break_def Let_def split_beta)

lemma node_step_frame:
  "node_step params acts n n' \<Longrightarrow> nd_yield_data n' = nd_yield_data n \<and> nd_num_threads n' = nd_num_threads n"
proof (induction rule: node_step.induct)
  case (step_explore_child n act en n')
  then show ?case
    by (auto simp: explore_child_def explore_def Let_def bind_eq_Some_conv split: if_splits option.splits)
next
  case (step_set_backtrack n tid b n')
  then show ?case by (auto simp: set_backtrack_def Let_def split: if_splits)
next
  case (step_get_next_backtrack n tid n')
  then show ?case by (auto simp: get_next_backtrack_def Let_def split: if_splits)
next
  case (step_add_future_value n fv)
  then show ?case by (cases rule: add_future_value_cases [of params n fv]) simp_all
next
  case (step_get_read_from_status n)
  then show ?case by (simp add: get_read_from_status_def increment_read_from_defs Let_def)
qed (simp_all add: clear_backtracking_def set_promise_def set_misc_max_def add_read_from_past_def
    add_read_from_promise_def add_relseq_break_def increment_behaviors_frame Let_def)

lemma priority_rel_cong:
  "nd_yield_data n' = nd_yield_data n \<Longrightarrow> nd_num_threads n' = nd_num_threads n \<Longrightarrow> priority_rel n' = priority_rel n"
  by (simp add: priority_rel_def has_priority_over_def get_yield_data_def)

lemma yielded_acyclic: "yielded n \<Longrightarrow> acyclic (priority_rel n)"
proof (induction rule: yielded.induct)
  case (yielded_root n acts nodes s n')
  then show ?case by (simp add: update_yield_root acyclic_def)
next
  case (yielded_child n p nodes acts s n')
  show ?case
    by (rule acyclic_redirect [OF yielded_child.IH update_yield_priority [OF yielded_child.hyps(5,1,4)]])
next
  case (yielded_step n params acts n')
  have "priority_rel n' = priority_rel n"
    using node_step_frame [OF yielded_step.hyps(2)] by (intro priority_rel_cong) simp_all
  with yielded_step.IH show ?case by simp
qed

end
