(* ===== verification/Selection.thy ===== *)
theory Selection
  imports Yield
begin

text \<open>
  \<open>Scheduler::select_next_thread\<close> and \<open>update_sleep_set\<close> (\<open>schedule.cc\<close>), which look at
  the nodes: round-robin selection among the enabled threads that priorities permit.
\<close>

section \<open>Selection\<close>

text \<open>The loop that looks for an enabled thread with priority.\<close>

definition priority_found :: "Scheduler \<Rightarrow> Node \<Rightarrow> bool option" where
  "priority_found s n =
     foldM (\<lambda>i found. do {
         p \<leftarrow> has_priority n (int_to_id i);
         Some (if p \<and> sc_enabled s ! i \<noteq> THREAD_DISABLED then True else found)
       }) [0..<length (sc_enabled s)] False"

text \<open>The loop that looks for an enabled thread the candidate has to wait for; it ends at the first.\<close>

fun bad_thread :: "Scheduler \<Rightarrow> Node \<Rightarrow> thread_id_t \<Rightarrow> nat list \<Rightarrow> bool option" where
  "bad_thread s n curr_tid [] = Some False"
| "bad_thread s n curr_tid (j # js) =
     (if sc_enabled s ! j \<noteq> THREAD_DISABLED
      then do { b \<leftarrow> has_priority_over n curr_tid (int_to_id j);
                if b then Some True else bad_thread s n curr_tid js }
      else bad_thread s n curr_tid js)"

text \<open>The main loop, over the remaining offsets; it returns the thread and the last index tried.\<close>

fun select_loop ::
    "model_params \<Rightarrow> Scheduler \<Rightarrow> Node \<Rightarrow> bool \<Rightarrow> nat list \<Rightarrow> nat \<Rightarrow> (thread_id_t option \<times> nat) option" where
  "select_loop params s n have [] index = Some (None, index)"
| "select_loop params s n have (i # is) index =
     (let index = (sc_curr_thread_index s + i + 1) mod length (sc_enabled s);
          curr_tid = int_to_id index
      in do {
        bad \<leftarrow> (if mp_yieldon params
                then bad_thread s n curr_tid [0..<length (sc_enabled s)] else Some False);
        if bad then select_loop params s n have is index
        else if sc_enabled s ! index = THREAD_ENABLED
        then do {
          ok \<leftarrow> (if \<not> have then Some True else has_priority n curr_tid);
          if ok then Some (Some curr_tid, index) else select_loop params s n have is index
        }
        else select_loop params s n have is index
      })"

definition select_next_thread ::
    "model_params \<Rightarrow> Scheduler \<Rightarrow> Node \<Rightarrow> (thread_id_t option \<times> Scheduler) option" where
  "select_next_thread params s n = do {
     have_enabled_thread_with_priority \<leftarrow>
       (if mp_fairwindow params \<noteq> 0 then priority_found s n else Some False);
     (t, index) \<leftarrow> select_loop params s n have_enabled_thread_with_priority
                      [0..<length (sc_enabled s)] (sc_curr_thread_index s);
     Some (t, s\<lparr>sc_curr_thread_index := index\<rparr>)
   }"

definition update_sleep_set :: "Scheduler \<Rightarrow> Node \<Rightarrow> Scheduler option" where
  "update_sleep_set s n =
     (if sc_enabled s = [] then Some s
      else do {
        enabled_array \<leftarrow> nd_enabled_array n;
        ASSERT (length (sc_enabled s) \<le> length enabled_array);
        Some (s\<lparr>sc_enabled := map2 (\<lambda>e a. if a = THREAD_SLEEP_SET then THREAD_SLEEP_SET else e)
                                (sc_enabled s) enabled_array\<rparr>)
      })"

section \<open>Outcome\<close>

lemma finite_priority_rel: "finite (priority_rel n)"
proof (rule finite_subset)
  show "priority_rel n \<subseteq> {..<nd_num_threads n} \<times> {..<nd_num_threads n}"
  proof (rule subsetI)
    fix x assume "x \<in> priority_rel n"
    then show "x \<in> {..<nd_num_threads n} \<times> {..<nd_num_threads n}"
      using priority_rel_bound [of "fst x" "snd x" n] by (cases x) simp
  qed
qed simp


text \<open>A thread the node has information about can be asked for.\<close>

definition node_covers :: "model_params \<Rightarrow> Scheduler \<Rightarrow> Node \<Rightarrow> bool" where
  "node_covers params s n \<longleftrightarrow>
     (mp_fairwindow params \<noteq> 0 \<longrightarrow> length (sc_enabled s) \<le> length (nd_fairness n)) \<and>
     (mp_yieldon params \<longrightarrow> (\<exists>yd. nd_yield_data n = Some yd \<and>
                                   length yd = nd_num_threads n * nd_num_threads n))"

definition eligible :: "model_params \<Rightarrow> Scheduler \<Rightarrow> Node \<Rightarrow> thread_id_t \<Rightarrow> bool" where
  "eligible params s n t \<longleftrightarrow>
     status s t = THREAD_ENABLED \<and>
     (mp_yieldon params \<longrightarrow> (\<forall>u. status s u \<noteq> THREAD_DISABLED \<longrightarrow> (t, u) \<notin> priority_rel n)) \<and>
     (mp_fairwindow params \<noteq> 0 \<and>
        (\<exists>u. status s u \<noteq> THREAD_DISABLED \<and> has_priority n u = Some True) \<longrightarrow>
      has_priority n t = Some True)"

lemma priority_found_eq:
  assumes "length (sc_enabled s) \<le> length (nd_fairness n)"
  shows "priority_found s n =
    Some (\<exists>u. status s u \<noteq> THREAD_DISABLED \<and> has_priority n u = Some True)"
proof -
  have loop: "foldM (\<lambda>i found. do {
         p \<leftarrow> has_priority n (int_to_id i);
         Some (if p \<and> sc_enabled s ! i \<noteq> THREAD_DISABLED then True else found)
       }) [0..<m] False =
     Some (\<exists>u < m. status s u \<noteq> THREAD_DISABLED \<and> has_priority n u = Some True)"
    if "m \<le> length (sc_enabled s)" for m
    using that
  proof (induction m)
    case (Suc m)
    then have "m < length (nd_fairness n)" using assms by simp
    then have "has_priority n m = Some (fi_priority (nd_fairness n ! m))"
      by (simp add: has_priority_def id_to_int_def vec_at_def)
    moreover have "status s m = sc_enabled s ! m" using Suc.prems by (simp add: status_def)
    ultimately show ?case using Suc by (auto simp: foldM_append int_to_id_def less_Suc_eq)
  qed simp
  have "status s u \<noteq> THREAD_DISABLED \<Longrightarrow> u < length (sc_enabled s)" for u
    by (auto simp: status_def split: if_splits)
  with loop [of "length (sc_enabled s)"] show ?thesis unfolding priority_found_def by auto
qed

lemma has_priority_over_defined:
  assumes "nd_yield_data n = Some yd" "length yd = nd_num_threads n * nd_num_threads n"
  shows "has_priority_over n t u = Some ((t, u) \<in> priority_rel n)"
proof -
  have "has_priority_over n t u \<noteq> None"
    using assms index_less [of t "nd_num_threads n" u]
    by (auto simp: has_priority_over_def get_yield_data_def YIELD_INDEX_def id_to_int_def vec_at_def)
  then obtain b where "has_priority_over n t u = Some b" by auto
  then show ?thesis by (simp add: priority_rel_def)
qed

lemma bad_thread_eq:
  assumes "nd_yield_data n = Some yd" "length yd = nd_num_threads n * nd_num_threads n"
    and "set js \<subseteq> {..<length (sc_enabled s)}"
  shows "bad_thread s n t js =
    Some (\<exists>u \<in> set js. status s u \<noteq> THREAD_DISABLED \<and> (t, u) \<in> priority_rel n)"
  using assms(3)
  by (induction js) (auto simp: has_priority_over_defined [OF assms(1,2)] int_to_id_def status_def)

lemma status_in_range: "status s u \<noteq> THREAD_DISABLED \<Longrightarrow> u < length (sc_enabled s)"
  by (auto simp: status_def split: if_splits)

lemma status_sleeping: "status s u = THREAD_SLEEP_SET \<Longrightarrow> THREAD_SLEEP_SET \<in> set (sc_enabled s)"
  by (auto simp: status_def in_set_conv_nth split: if_splits)

text \<open>The loop finds the first eligible thread.\<close>

lemma select_loop_spec:
  assumes "node_covers params s n" and "0 < length (sc_enabled s)"
    and "have \<longleftrightarrow> mp_fairwindow params \<noteq> 0 \<and>
           (\<exists>u. status s u \<noteq> THREAD_DISABLED \<and> has_priority n u = Some True)"
  shows "\<exists>index. select_loop params s n have is index0 =
    Some (map_option (\<lambda>i. (sc_curr_thread_index s + i + 1) mod length (sc_enabled s))
            (find (\<lambda>i. eligible params s n ((sc_curr_thread_index s + i + 1) mod length (sc_enabled s))) is), index) \<and>
    (\<forall>i. find (\<lambda>i. eligible params s n ((sc_curr_thread_index s + i + 1) mod length (sc_enabled s))) is = Some i \<longrightarrow>
       index = (sc_curr_thread_index s + i + 1) mod length (sc_enabled s))"
proof (induction "is" arbitrary: index0)
  case (Cons i "is")
  define t where "t = (sc_curr_thread_index s + i + 1) mod length (sc_enabled s)"
  have t: "t < length (sc_enabled s)" using assms(2) by (simp add: t_def)
  have st: "status s t = sc_enabled s ! t" using t by (simp add: status_def)
  define bad where "bad \<longleftrightarrow> mp_yieldon params \<and> (\<exists>u. status s u \<noteq> THREAD_DISABLED \<and> (t, u) \<in> priority_rel n)"
  have b: "(if mp_yieldon params then bad_thread s n t [0..<length (sc_enabled s)] else Some False) = Some bad"
  proof (cases "mp_yieldon params")
    case True
    with assms(1) obtain yd where "nd_yield_data n = Some yd" "length yd = nd_num_threads n * nd_num_threads n"
      by (auto simp: node_covers_def)
    then have "bad_thread s n t [0..<length (sc_enabled s)] =
        Some (\<exists>u \<in> set [0..<length (sc_enabled s)]. status s u \<noteq> THREAD_DISABLED \<and> (t, u) \<in> priority_rel n)"
      by (intro bad_thread_eq) auto
    moreover have "(\<exists>u \<in> set [0..<length (sc_enabled s)]. status s u \<noteq> THREAD_DISABLED \<and> (t, u) \<in> priority_rel n) = bad"
      using True status_in_range [of s] by (auto simp: bad_def)
    ultimately show ?thesis using True by simp
  qed (simp add: bad_def)
  define ok where "ok \<longleftrightarrow> \<not> have \<or> has_priority n t = Some True"
  have p: "(if \<not> have then Some True else has_priority n t) = Some ok"
  proof (cases "have")
    case True
    with assms(1,3) t have "t < length (nd_fairness n)" by (auto simp: node_covers_def)
    then show ?thesis using True by (auto simp: ok_def has_priority_def id_to_int_def vec_at_def)
  qed (simp add: ok_def)
  have el: "eligible params s n t \<longleftrightarrow> \<not> bad \<and> sc_enabled s ! t = THREAD_ENABLED \<and> ok"
    using assms(3) by (auto simp: eligible_def bad_def ok_def st)
  have step: "select_loop params s n have (i # is) index0 =
      (if eligible params s n t then Some (Some t, t) else select_loop params s n have is t)"
    unfolding select_loop.simps Let_def t_def [symmetric] int_to_id_def b p el by simp
  show ?case
    unfolding step find.simps t_def [symmetric] using Cons.IH [of t] by (auto simp: t_def)
qed simp

lemma round_robin_covers:
  assumes "t < (len::nat)"
  shows "\<exists>i < len. (old + i + 1) mod len = t"
proof (intro exI conjI)
  define a where "a = (old + 1) mod len"
  have a: "a < len" using assms by (simp add: a_def)
  let ?i = "(t + (len - a)) mod len"
  show "?i < len" using assms by simp
  have "(old + ?i + 1) mod len = ((old + 1) + ?i) mod len" by (simp add: ac_simps)
  also have "\<dots> = (a + (t + (len - a))) mod len" by (simp only: a_def mod_add_eq mod_add_right_eq mod_add_left_eq)
  also have "a + (t + (len - a)) = t + len" using a by simp
  finally show "(old + ?i + 1) mod len = t" using assms by simp
qed

lemma select_next_thread_eq:
  assumes "node_covers params s n"
  shows "\<exists>index. select_next_thread params s n =
    Some (map_option (\<lambda>i. (sc_curr_thread_index s + i + 1) mod length (sc_enabled s))
            (find (\<lambda>i. eligible params s n ((sc_curr_thread_index s + i + 1) mod length (sc_enabled s)))
              [0..<length (sc_enabled s)]),
          s\<lparr>sc_curr_thread_index := index\<rparr>) \<and>
    (\<forall>i. find (\<lambda>i. eligible params s n ((sc_curr_thread_index s + i + 1) mod length (sc_enabled s)))
              [0..<length (sc_enabled s)] = Some i \<longrightarrow>
       index = (sc_curr_thread_index s + i + 1) mod length (sc_enabled s))"
proof (cases "sc_enabled s")
  case Nil
  then show ?thesis
    by (intro exI [of _ "sc_curr_thread_index s"]) (simp add: select_next_thread_def priority_found_def)
next
  case (Cons e es)
  define "have" where "have \<longleftrightarrow> mp_fairwindow params \<noteq> 0 \<and>
           (\<exists>u. status s u \<noteq> THREAD_DISABLED \<and> has_priority n u = Some True)"
  have "(if mp_fairwindow params \<noteq> 0 then priority_found s n else Some False) = Some have"
    using assms priority_found_eq [of s n] by (auto simp: node_covers_def have_def)
  moreover have "0 < length (sc_enabled s)" using Cons by simp
  ultimately show ?thesis
    using select_loop_spec [OF assms _ have_def, of "[0..<length (sc_enabled s)]" "sc_curr_thread_index s"]
    by (auto simp: select_next_thread_def)
qed

lemma select_next_thread_finds:
  assumes "node_covers params s n" and "eligible params s n m"
  shows "\<exists>t s'. select_next_thread params s n = Some (Some t, s') \<and> eligible params s n t"
proof -
  let ?t = "\<lambda>i. (sc_curr_thread_index s + i + 1) mod length (sc_enabled s)"
  let ?find = "find (\<lambda>i. eligible params s n (?t i)) [0..<length (sc_enabled s)]"
  have "m < length (sc_enabled s)" using assms(2) status_in_range [of s m] by (simp add: eligible_def)
  then have "?find \<noteq> None"
    using round_robin_covers [of m "length (sc_enabled s)" "sc_curr_thread_index s"] assms(2)
    by (auto simp: find_None_iff)
  then obtain i where "?find = Some i" "eligible params s n (?t i)" by (auto simp: find_Some_iff)
  with select_next_thread_eq [OF assms(1)] show ?thesis by fastforce
qed

section \<open>Properties\<close>

text \<open>
  (C13) The scheduler picks, in round-robin order from the thread after the last one, the first
  thread that is enabled, waits for no enabled thread under yield priorities, and has priority if
  any enabled thread has it; it returns no thread exactly if there is none such. A thread in the
  sleep set counts as enabled for the priorities but is never picked.
\<close>

theorem select_next_thread_outcome:
  assumes "node_covers params s n"
  shows "\<exists>r s'. select_next_thread params s n = Some (r, s') \<and> sc_enabled s' = sc_enabled s \<and>
    (case r of
       None \<Rightarrow> \<forall>t. \<not> eligible params s n t
     | Some t \<Rightarrow> eligible params s n t \<and> sc_curr_thread_index s' = t \<and>
         (\<exists>i < length (sc_enabled s). t = (sc_curr_thread_index s + i + 1) mod length (sc_enabled s) \<and>
            (\<forall>j < i. \<not> eligible params s n ((sc_curr_thread_index s + j + 1) mod length (sc_enabled s)))))"
proof -
  let ?t = "\<lambda>i. (sc_curr_thread_index s + i + 1) mod length (sc_enabled s)"
  let ?find = "find (\<lambda>i. eligible params s n (?t i)) [0..<length (sc_enabled s)]"
  from select_next_thread_eq [OF assms] obtain index
    where sel: "select_next_thread params s n = Some (map_option ?t ?find, s\<lparr>sc_curr_thread_index := index\<rparr>)"
      and ix: "\<And>i. ?find = Some i \<Longrightarrow> index = ?t i" by blast
  show ?thesis
  proof (cases ?find)
    case None
    have "\<not> eligible params s n t" for t
    proof
      assume el: "eligible params s n t"
      then have "t < length (sc_enabled s)" using status_in_range [of s t] by (simp add: eligible_def)
      from round_robin_covers [OF this, of "sc_curr_thread_index s"] el None show False
        by (auto simp: find_None_iff)
    qed
    with sel None show ?thesis by simp
  next
    case (Some i)
    then have "i < length (sc_enabled s)" "eligible params s n (?t i)"
      "\<forall>j < i. \<not> eligible params s n (?t j)"
      by (auto simp: find_Some_iff)
    with sel Some ix [OF Some] show ?thesis by auto
  qed
qed

theorem select_next_thread_outcome_witness:
  "\<exists>s'. select_next_thread
      \<lparr>mp_maxreads = 0, mp_maxfuturedelay = 6, mp_yieldon = False, mp_yieldblock = False, mp_fairwindow = 0,
       mp_enabledcount = 1, mp_bound = 0, mp_uninitvalue = 0, mp_maxexecutions = 0, mp_maxfuturevalues = 0,
       mp_expireslop = 4, mp_verbose = 0\<rparr>
      \<lparr>sc_enabled = [THREAD_DISABLED, THREAD_ENABLED, THREAD_SLEEP_SET], sc_curr_thread_index = 1,
       sc_current = None\<rparr> (blank_Node 0 None 3) = Some (Some 1, s')"
  (is "\<exists>s'. select_next_thread ?params ?s ?n = _")
proof -
  have cov: "node_covers ?params ?s ?n" by (simp add: node_covers_def)
  have el: "eligible ?params ?s ?n t \<longleftrightarrow> t = 1" for t
    by (cases t rule: nat.exhaust) (auto simp: eligible_def status_def nth_Cons split: nat.splits)
  from select_next_thread_outcome [OF cov] show ?thesis unfolding el by (auto split: option.splits)
qed

text \<open>
  (C14) Yield priorities never leave the scheduler stuck: after any sequence of steps the waits
  between threads are free of cycles, so if some thread is enabled, none sleeps, and window fairness
  is off, \<open>select_next_thread\<close> returns an enabled thread.
\<close>

theorem yield_selection_progress:
  assumes "yielded n" and "node_covers params s n" and "mp_fairwindow params = 0"
    and "status s t = THREAD_ENABLED" and "THREAD_SLEEP_SET \<notin> set (sc_enabled s)"
  shows "\<exists>t' s'. select_next_thread params s n = Some (Some t', s') \<and> status s t' = THREAD_ENABLED"
proof -
  let ?E = "{u. status s u \<noteq> THREAD_DISABLED}" and ?r = "(priority_rel n)\<inverse>"
  have "wf ?r" by (rule finite_acyclic_wf_converse [OF finite_priority_rel yielded_acyclic [OF assms(1)]])
  moreover have "t \<in> ?E" using assms(4) by simp
  ultimately have "\<exists>m \<in> ?E. \<forall>u. (u, m) \<in> ?r \<longrightarrow> u \<notin> ?E" unfolding wf_eq_minimal by (drule_tac x = ?E in spec) blast
  then obtain m where m: "m \<in> ?E" "\<forall>u. (u, m) \<in> ?r \<longrightarrow> u \<notin> ?E" by (elim bexE)
  have "status s m \<noteq> THREAD_DISABLED" using m(1) by simp
  moreover have "status s m \<noteq> THREAD_SLEEP_SET" using assms(5) status_sleeping [of s m] by blast
  ultimately have "status s m = THREAD_ENABLED" by (cases "status s m") simp_all
  moreover have "\<forall>u. status s u \<noteq> THREAD_DISABLED \<longrightarrow> (m, u) \<notin> priority_rel n" using m(2) by blast
  ultimately have el: "eligible params s n m" using assms(3) by (simp add: eligible_def)
  from select_next_thread_finds [OF assms(2) el] show ?thesis by (auto simp: eligible_def)
qed

theorem yield_selection_progress_witness:
  "\<exists>n. update_yield undefined [] new_Scheduler (blank_Node 0 None 2) = Some n \<and>
     (\<exists>t' s'. select_next_thread
      \<lparr>mp_maxreads = 0, mp_maxfuturedelay = 6, mp_yieldon = True, mp_yieldblock = False, mp_fairwindow = 0,
       mp_enabledcount = 1, mp_bound = 0, mp_uninitvalue = 0, mp_maxexecutions = 0, mp_maxfuturevalues = 0,
       mp_expireslop = 4, mp_verbose = 0\<rparr>
      \<lparr>sc_enabled = [THREAD_DISABLED, THREAD_ENABLED], sc_curr_thread_index = 1, sc_current = None\<rparr> n =
      Some (Some t', s') \<and> t' = 1)"
  (is "\<exists>n. ?upd = Some n \<and> (\<exists>t' s'. select_next_thread ?params ?s n = _ \<and> _)")
proof -
  let ?n = "(blank_Node 0 None 2)\<lparr>nd_yield_data := Some (replicate 4 (YIELD_S OR YIELD_D))\<rparr>"
  have upd: "?upd = Some ?n"
    by (simp add: update_yield_def blank_Node_def vec_set_def upt_rec numeral_eq_Suc)
  have "yielded ?n" by (rule yielded_root [OF _ upd]) (simp add: blank_Node_def)
  moreover have "node_covers ?params ?s ?n" by (simp add: node_covers_def blank_Node_def)
  moreover have st: "status ?s t = THREAD_ENABLED \<longleftrightarrow> t = 1" for t
    by (auto simp: status_def nth_Cons split: nat.splits)
  ultimately show ?thesis
    using yield_selection_progress [of ?n ?params ?s 1] upd by (auto simp: st)
qed

end
