(* ===== verification/NodeRun.thy ===== *)
theory NodeRun
  imports NodeChoices
begin

text \<open>
  Properties of the node stack as a whole: what \<open>explore_action\<close> needs to return, and what the
  fairness counters count. A run is a sequence of calls that record an execution from the empty
  stack.
\<close>

section \<open>Well-formed stacks\<close>

definition nodes_wf :: "Node list \<Rightarrow> bool" where
  "nodes_wf nodes \<longleftrightarrow>
     (\<forall>k < length nodes. node_wf (nodes ! k) \<and>
        nd_parent (nodes ! k) = (if k = 0 then None else Some (k - 1)) \<and>
        length (nd_fairness (nodes ! k)) = nd_num_threads (nodes ! k) \<and>
        (Suc k < length nodes \<longrightarrow> nd_enabled_array (nodes ! k) \<noteq> None))"

definition stack_wf :: "NodeStack \<Rightarrow> bool" where
  "stack_wf ns \<longleftrightarrow>
     nodes_wf (ns_node_list ns) \<and> -1 \<le> ns_head_idx ns \<and>
     ns_head_idx ns < int (length (ns_node_list ns))"

lemma nodes_wfD:
  assumes "nodes_wf nodes" and "k < length nodes"
  shows "node_wf (nodes ! k)" "nd_parent (nodes ! k) = (if k = 0 then None else Some (k - 1))"
    "length (nd_fairness (nodes ! k)) = nd_num_threads (nodes ! k)"
    "Suc k < length nodes \<Longrightarrow> nd_enabled_array (nodes ! k) \<noteq> None"
  using assms by (auto simp: nodes_wf_def)

lemma Node_is_enabled_defined:
  assumes "node_wf n" and "nd_enabled_array n = Some en"
  shows "Node_is_enabled n i = Some (i < nd_num_threads n \<and> en ! i \<noteq> THREAD_DISABLED)"
  using assms by (auto simp: Node_is_enabled_def node_wf_def threads_wf_def id_to_int_def vec_at_def)

lemma explore_returns:
  assumes "threads_wf n" and "tid < nd_num_threads n"
  shows "\<exists>n'. explore n tid = Some n'"
  using assms by (auto simp: explore_def threads_wf_def Let_def id_to_int_def)

lemma explore_frame:
  assumes "explore n tid = Some n'"
  shows "nd_parent n' = nd_parent n" "nd_fairness n' = nd_fairness n" "nd_num_threads n' = nd_num_threads n"
    "nd_enabled_array n' = nd_enabled_array n" "nd_action n' = nd_action n"
  using assms by (auto simp: explore_def Let_def split: if_splits)

lemma explore_child_returns:
  assumes "node_wf n" and "ma_tid (acts act) < nd_num_threads n"
    and "\<forall>e. is_enabled = Some e \<longrightarrow> nd_num_threads n \<le> length e"
  shows "\<exists>n'. explore_child acts n act is_enabled = Some n'"
proof -
  obtain en where en: "(case is_enabled of
              Some e \<Rightarrow> if nd_num_threads n \<le> length e then Some (take (nd_num_threads n) e) else None
            | None \<Rightarrow> Some (replicate (nd_num_threads n) THREAD_DISABLED)) = Some en"
    and len: "length en = nd_num_threads n"
    using assms(3) by (cases is_enabled) auto
  have "threads_wf (n\<lparr>nd_enabled_array := Some en\<rparr>)"
    using assms(1) len by (simp add: node_wf_def threads_wf_def)
  from explore_returns [OF this] assms(2) en show ?thesis by (simp add: explore_child_def)
qed

lemma explore_child_frame:
  assumes "explore_child acts n act is_enabled = Some n'"
  shows "nd_parent n' = nd_parent n" "nd_fairness n' = nd_fairness n" "nd_num_threads n' = nd_num_threads n"
    "nd_enabled_array n' \<noteq> None" "nd_action n' = nd_action n"
  using assms explore_frame by (fastforce simp: explore_child_def bind_eq_Some_conv)+

section \<open>Construction of a node\<close>

lemma fairness_step_returns:
  assumes "\<And>p. parent = Some p \<Longrightarrow> node_wf p \<and> nd_enabled_array p \<noteq> None \<and> length (nd_fairness p) = nd_num_threads p"
    and "\<And>pf t. leaving = Some (pf, t) \<Longrightarrow> \<exists>pp. nd_parent pf = Some pp \<and> pp < length nodes \<and>
           node_wf (nodes ! pp) \<and> nd_enabled_array (nodes ! pp) \<noteq> None"
  shows "\<exists>fi. fairness_step params nodes parent currtid leaving i = Some fi"
proof -
  have par: "\<exists>f0 e. (case parent of
              Some p \<Rightarrow> if i < nd_num_threads p then vec_at (nd_fairness p) i else Some zero_fairness
            | None \<Rightarrow> Some zero_fairness) = Some f0 \<and>
        (case parent of Some p \<Rightarrow> Node_is_enabled p (int_to_id i) | None \<Rightarrow> Some False) = Some e"
  proof (cases parent)
    case (Some p)
    with assms(1) obtain en where "node_wf p" "nd_enabled_array p = Some en" "length (nd_fairness p) = nd_num_threads p"
      by blast
    with Some show ?thesis using Node_is_enabled_defined [of p en i] by (auto simp: vec_at_def int_to_id_def)
  qed auto
  then obtain f0 e where par: "(case parent of
              Some p \<Rightarrow> if i < nd_num_threads p then vec_at (nd_fairness p) i else Some zero_fairness
            | None \<Rightarrow> Some zero_fairness) = Some f0"
        "(case parent of Some p \<Rightarrow> Node_is_enabled p (int_to_id i) | None \<Rightarrow> Some False) = Some e" by blast
  show ?thesis
  proof (cases leaving)
    case None
    then show ?thesis by (simp add: fairness_step_def par Let_def)
  next
    case (Some pt)
    obtain pf t where pt: "pt = (pf, t)" by fastforce
    from assms(2) Some pt obtain pp en where pp: "nd_parent pf = Some pp" "pp < length nodes"
      "node_wf (nodes ! pp)" "nd_enabled_array (nodes ! pp) = Some en" by blast
    show ?thesis using Some pt pp Node_is_enabled_defined [OF pp(3,4), of i]
      by (simp add: fairness_step_def par Let_def int_to_id_def vec_at_def)
  qed
qed

lemma new_Node_returns:
  assumes "\<And>p. par = Some p \<Longrightarrow> p < length nodes \<and> node_wf (nodes ! p) \<and>
      nd_enabled_array (nodes ! p) \<noteq> None \<and> length (nd_fairness (nodes ! p)) = nd_num_threads (nodes ! p)"
    and "\<And>pf. prevfairness = Some pf \<Longrightarrow> pf < length nodes \<and> (\<exists>pp. nd_parent (nodes ! pf) = Some pp \<and>
      pp < length nodes \<and> node_wf (nodes ! pp) \<and> nd_enabled_array (nodes ! pp) \<noteq> None)"
  shows "\<exists>n. new_Node params acts nodes this act par nthreads prevfairness =
      Some (n, acts(act := (acts act)\<lparr>ma_node := Some this\<rparr>)) \<and>
      node_wf n \<and> nd_parent n = par \<and> length (nd_fairness n) = nd_num_threads n \<and>
      nd_num_threads n = nthreads \<and> nd_action n = act"
proof -
  define parent where "parent = map_option (\<lambda>p. nodes ! p) par"
  define leaving where "leaving = map_option (\<lambda>pf. (nodes ! pf, ma_tid (acts (nd_action (nodes ! pf))))) prevfairness"
  have l: "(case prevfairness of
                   None \<Rightarrow> Some None
                 | Some pf \<Rightarrow> do { pfn \<leftarrow> vec_at nodes pf;
                                   Some (Some (pfn, id_to_int (ma_tid (acts (nd_action pfn))))) }) = Some leaving"
  proof (cases prevfairness)
    case (Some pf)
    then show ?thesis using assms(2) [OF Some] by (simp add: leaving_def vec_at_def id_to_int_def)
  qed (simp add: leaving_def)
  have p: "(case par of None \<Rightarrow> Some None | Some p \<Rightarrow> map_option Some (vec_at nodes p)) = Some parent"
  proof (cases par)
    case (Some p)
    then show ?thesis using assms(1) [OF Some] by (simp add: parent_def vec_at_def)
  qed (simp add: parent_def)
  have "\<exists>fi. fairness_step params nodes parent (ma_tid (acts act)) leaving i = Some fi" for i
  proof (rule fairness_step_returns)
    fix p assume "parent = Some p"
    then obtain q where q: "par = Some q" "p = nodes ! q" by (auto simp: parent_def)
    from assms(1) [OF q(1)] show "node_wf p \<and> nd_enabled_array p \<noteq> None \<and> length (nd_fairness p) = nd_num_threads p"
      unfolding q(2) by blast
  next
    fix pf t assume "leaving = Some (pf, t)"
    then obtain q where q: "prevfairness = Some q" "pf = nodes ! q" by (auto simp: leaving_def)
    from assms(2) [OF q(1)] show "\<exists>pp. nd_parent pf = Some pp \<and> pp < length nodes \<and>
           node_wf (nodes ! pp) \<and> nd_enabled_array (nodes ! pp) \<noteq> None"
      unfolding q(2) by blast
  qed
  then obtain fair where fair: "mapM (fairness_step params nodes parent (ma_tid (acts act)) leaving) [0..<nthreads] = Some fair"
    using mapM_returns [of "[0..<nthreads]" "fairness_step params nodes parent (ma_tid (acts act)) leaving"] by blast
  then have len: "length fair = nthreads" by (simp add: mapM_eq_Some)
  have wf: "node_wf (blank_Node act par nthreads)" by (rule blank_Node_wf)
  then have wf': "node_wf ((blank_Node act par nthreads)\<lparr>nd_fairness := fair\<rparr>)" by (simp add: node_wf_def)
  show ?thesis
  proof (cases "mp_fairwindow params = 0")
    case True
    then have "new_Node params acts nodes this act par nthreads prevfairness =
        Some (blank_Node act par nthreads, acts(act := (acts act)\<lparr>ma_node := Some this\<rparr>))"
      unfolding new_Node_def Let_def l p by simp
    then show ?thesis using wf by (simp add: blank_Node_def)
  next
    case False
    then have "new_Node params acts nodes this act par nthreads prevfairness =
        Some ((blank_Node act par nthreads)\<lparr>nd_fairness := fair\<rparr>, acts(act := (acts act)\<lparr>ma_node := Some this\<rparr>))"
      unfolding new_Node_def Let_def l p using fair by (simp add: id_to_int_def)
    then show ?thesis using wf' len by (simp add: blank_Node_def)
  qed
qed

section \<open>Recording and replaying\<close>

definition fair_small :: "model_params \<Rightarrow> NodeStack \<Rightarrow> bool" where
  "fair_small params ns \<longleftrightarrow> unat (mp_fairwindow params) < 2 ^ 31 \<and> length (ns_node_list ns) < 2 ^ 31"

text \<open>The node that leaves the fairness window when node \<open>h + 1\<close> is recorded.\<close>

definition window_end :: "model_params \<Rightarrow> nat \<Rightarrow> node_ref option" where
  "window_end params h =
     (if mp_fairwindow params \<noteq> 0 \<and> unat (mp_fairwindow params) < h
      then Some (h - unat (mp_fairwindow params)) else None)"

lemma sint_small:
  assumes "unat (w :: 32 word) < 2 ^ 31"
  shows "sint w = int (unat w)"
proof -
  have eq: "uint w = int (unat w)" by (rule uint_nat)
  from assms have "int (unat w) < int (2 ^ 31)" by (simp only: of_nat_less_iff)
  then have "uint w < 2 ^ 31" unfolding eq of_nat_power of_nat_numeral .
  then have "signed_take_bit 31 (uint w) = uint w"
    by (intro signed_take_bit_int_eq_self order_trans [OF _ uint_ge_0]) simp_all
  moreover have "sint w = signed_take_bit 31 (uint w)" by (simp add: sint_uint)
  ultimately show ?thesis unfolding eq by simp
qed

lemma window_end_eq:
  assumes "unat (mp_fairwindow params) < 2 ^ 31" and "h < 2 ^ 31"
  shows "(if mp_fairwindow params \<noteq> 0 \<and> int h > sint (mp_fairwindow params)
          then Some (unat (word_of_int (int h) - mp_fairwindow params)) else None) = window_end params h"
proof -
  have h: "unat (of_nat h :: 32 word) = h" using assms(2) by (simp add: unat_of_nat)
  have "unat (of_nat h - mp_fairwindow params) = h - unat (mp_fairwindow params)"
    if "unat (mp_fairwindow params) < h"
    using that h by (subst unat_sub) (simp_all add: word_le_nat_alt)
  then show ?thesis unfolding sint_small [OF assms(1)] window_end_def of_nat_less_iff by simp
qed

lemma nodes_wf_explored:
  assumes "nodes_wf nodes" and "h < length nodes" and "explore_child acts (nodes ! h) act en = Some hn"
  shows "nodes_wf (nodes[h := hn])"
proof -
  have "node_wf hn" using explore_child_wf [OF assms(3)] nodes_wfD(1) [OF assms(1,2)] by blast
  with assms(1,2) explore_child_frame [OF assms(3)] show ?thesis
    by (auto simp: nodes_wf_def nth_list_update)
qed

lemma nodes_wf_snoc:
  assumes "nodes_wf nodes" and "nodes \<noteq> [] \<longrightarrow> nd_enabled_array (last nodes) \<noteq> None"
    and "node_wf n" "nd_parent n = (if nodes = [] then None else Some (length nodes - 1))"
    "length (nd_fairness n) = nd_num_threads n"
  shows "nodes_wf (nodes @ [n])"
  unfolding nodes_wf_def
proof (intro allI impI)
  fix k assume k: "k < length (nodes @ [n])"
  show "node_wf ((nodes @ [n]) ! k) \<and>
        nd_parent ((nodes @ [n]) ! k) = (if k = 0 then None else Some (k - 1)) \<and>
        length (nd_fairness ((nodes @ [n]) ! k)) = nd_num_threads ((nodes @ [n]) ! k) \<and>
        (Suc k < length (nodes @ [n]) \<longrightarrow> nd_enabled_array ((nodes @ [n]) ! k) \<noteq> None)"
  proof (cases "k < length nodes")
    case True
    have "nd_enabled_array (nodes ! k) \<noteq> None"
    proof (cases "Suc k < length nodes")
      case True
      with nodes_wfD(4) [OF assms(1)] show ?thesis by simp
    next
      case False
      with True have "k = length nodes - 1" "nodes \<noteq> []" by auto
      with assms(2) show ?thesis by (simp add: last_conv_nth)
    qed
    with True nodes_wfD(1-3) [OF assms(1) True] show ?thesis by (simp add: nth_append)
  next
    case False
    with k have "k = length nodes" by simp
    then show ?thesis using assms(3-5) by simp
  qed
qed

text \<open>The thread of the action exists at the node on top, and the array of enabled threads covers it.\<close>

definition can_explore :: "act_store \<Rightarrow> NodeStack \<Rightarrow> act_ref \<Rightarrow> enabled_type list option \<Rightarrow> bool" where
  "can_explore acts ns act is_enabled \<longleftrightarrow>
     (ns_node_list ns \<noteq> [] \<longrightarrow>
        ma_tid (acts act) < nd_num_threads (last (ns_node_list ns)) \<and>
        (\<forall>e. is_enabled = Some e \<longrightarrow> nd_num_threads (last (ns_node_list ns)) \<le> length e))"

text \<open>
  \<open>record_action\<close> returns, and changes the stack in one way: the head becomes explored, and a new
  node with the head as its parent goes on top.
\<close>

lemma record_action_returns:
  assumes "stack_wf ns" and "ns_head_idx ns = int (length (ns_node_list ns)) - 1" and "fair_small params ns"
    and "can_explore acts ns act is_enabled"
  shows "\<exists>nodes n. record_action params nt acts ns act is_enabled =
      Some (ns\<lparr>ns_node_list := nodes @ [n], ns_total_nodes := ns_total_nodes ns + 1,
              ns_head_idx := ns_head_idx ns + 1\<rparr>, acts(act := (acts act)\<lparr>ma_node := Some (length nodes)\<rparr>)) \<and>
    nodes_wf (nodes @ [n]) \<and> length nodes = length (ns_node_list ns) \<and> nd_action n = act"
proof (cases "ns_node_list ns = []")
  case True
  from new_Node_returns [of None "[]" None params acts 0 act]
  obtain n where n: "new_Node params acts [] 0 act None (if ma_type (acts act) = THREAD_CREATE then nt + 1 else nt) None =
      Some (n, acts(act := (acts act)\<lparr>ma_node := Some 0\<rparr>))"
    "node_wf n" "nd_parent n = None" "length (nd_fairness n) = nd_num_threads n"
    "nd_action n = act" by blast
  have "nodes_wf ([] @ [n])" using n(2-4) by (intro nodes_wf_snoc) (auto simp: nodes_wf_def)
  moreover have "record_action params nt acts ns act is_enabled =
      Some (ns\<lparr>ns_node_list := [] @ [n], ns_total_nodes := ns_total_nodes ns + 1,
              ns_head_idx := ns_head_idx ns + 1\<rparr>, acts(act := (acts act)\<lparr>ma_node := Some (length ([] :: Node list))\<rparr>))"
    unfolding record_action_def get_head_def using True n(1) by simp
  ultimately show ?thesis using True n(5) by (intro exI [of _ "[]"] exI [of _ n] conjI) simp_all
next
  case False
  define nodes h where "nodes = ns_node_list ns" and "h = length nodes - 1"
  have h: "h < length nodes" "last nodes = nodes ! h" and hi: "ns_head_idx ns = int h"
    using False assms(2) by (auto simp: nodes_def h_def last_conv_nth of_nat_diff Suc_le_eq)
  have wf: "nodes_wf nodes" using assms(1) by (simp add: stack_wf_def nodes_def)
  have need: "ma_tid (acts act) < nd_num_threads (nodes ! h) \<and>
      (\<forall>e. is_enabled = Some e \<longrightarrow> nd_num_threads (nodes ! h) \<le> length e)"
    using assms(4) False h(2) by (simp add: can_explore_def nodes_def)
  have "\<exists>hn. explore_child acts (nodes ! h) act is_enabled = Some hn"
    using need by (intro explore_child_returns [OF nodes_wfD(1) [OF wf h(1)]]) blast+
  then obtain hn where hn: "explore_child acts (nodes ! h) act is_enabled = Some hn" by blast
  let ?nodes = "nodes[h := hn]"
  have wf': "nodes_wf ?nodes" by (rule nodes_wf_explored [OF wf h(1) hn])
  have en: "nd_enabled_array (?nodes ! k) \<noteq> None" if "k \<le> h" for k
    using that h(1) explore_child_frame(4) [OF hn] nodes_wfD(4) [OF wf, of k]
    by (cases "k = h") (simp_all add: h_def)
  have small: "unat (mp_fairwindow params) < 2 ^ 31" "h < 2 ^ 31"
    using assms(3) h(1) by (auto simp: fair_small_def nodes_def)
  have "\<exists>n. new_Node params acts ?nodes (length ?nodes) act (Some h)
      (if ma_type (acts act) = THREAD_CREATE then nt + 1 else nt) (window_end params h) =
      Some (n, acts(act := (acts act)\<lparr>ma_node := Some (length ?nodes)\<rparr>)) \<and>
      node_wf n \<and> nd_parent n = Some h \<and> length (nd_fairness n) = nd_num_threads n \<and>
      nd_num_threads n = (if ma_type (acts act) = THREAD_CREATE then nt + 1 else nt) \<and> nd_action n = act"
  proof (rule new_Node_returns)
    fix p assume "Some h = Some p"
    then show "p < length ?nodes \<and> node_wf (?nodes ! p) \<and> nd_enabled_array (?nodes ! p) \<noteq> None \<and>
        length (nd_fairness (?nodes ! p)) = nd_num_threads (?nodes ! p)"
      using h(1) en [of p] nodes_wfD [OF wf', of p] by simp
  next
    fix pf assume "window_end params h = Some pf"
    then have pf: "0 < pf" "pf < h" by (auto simp: window_end_def unat_gt_0 split: if_splits)
    then have "nd_parent (?nodes ! pf) = Some (pf - 1)" using nodes_wfD(2) [OF wf', of pf] h(1) by simp
    then show "pf < length ?nodes \<and> (\<exists>pp. nd_parent (?nodes ! pf) = Some pp \<and>
        pp < length ?nodes \<and> node_wf (?nodes ! pp) \<and> nd_enabled_array (?nodes ! pp) \<noteq> None)"
      using pf h(1) en [of "pf - 1"] nodes_wfD(1) [OF wf', of "pf - 1"] by simp
  qed
  then obtain n where n: "new_Node params acts ?nodes (length ?nodes) act (Some h)
      (if ma_type (acts act) = THREAD_CREATE then nt + 1 else nt) (window_end params h) =
      Some (n, acts(act := (acts act)\<lparr>ma_node := Some (length ?nodes)\<rparr>))"
    "node_wf n" "nd_parent n = Some h" "length (nd_fairness n) = nd_num_threads n"
    "nd_action n = act" by blast
  have "?nodes \<noteq> []" using h(1) by auto
  then have "nodes_wf (?nodes @ [n])"
    using n(2-4) en [of h] h(1) by (intro nodes_wf_snoc [OF wf']) (simp_all add: last_conv_nth h_def)
  moreover have "record_action params nt acts ns act is_enabled =
      Some (ns\<lparr>ns_node_list := ?nodes @ [n], ns_total_nodes := ns_total_nodes ns + 1,
              ns_head_idx := ns_head_idx ns + 1\<rparr>, acts(act := (acts act)\<lparr>ma_node := Some (length ?nodes)\<rparr>))"
    unfolding record_action_def get_head_def nodes_def [symmetric] hi
    using False h(1) hn n(1) window_end_eq [OF small] by (simp add: nodes_def [symmetric] Let_def)
  ultimately show ?thesis
    by (intro exI [of _ ?nodes] exI [of _ n] conjI) (simp_all add: nodes_def n(5))
qed

lemma nodes_wf_take:
  assumes "nodes_wf nodes" and "0 < k" "k \<le> length nodes"
  shows "nodes_wf ((take k nodes)[k - 1 := clear_backtracking (nodes ! (k - 1))])"
proof -
  have "node_wf (clear_backtracking (nodes ! (k - 1)))"
    using nodes_wfD(1) [OF assms(1), of "k - 1"] assms(2,3) by (intro clear_backtracking_wf) simp
  with assms show ?thesis by (auto simp: nodes_wf_def nth_list_update clear_backtracking_def)
qed

lemma pop_restofstack_returns:
  assumes "stack_wf ns" and "1 \<le> numAhead" and "0 < ns_head_idx ns + numAhead"
    "ns_head_idx ns + numAhead \<le> int (length (ns_node_list ns))"
  shows "\<exists>ns'. pop_restofstack ns numAhead = Some ns' \<and> stack_wf ns' \<and>
    int (length (ns_node_list ns')) = ns_head_idx ns + numAhead \<and> ns_head_idx ns' = ns_head_idx ns"
proof -
  define k where "k = nat (ns_head_idx ns + numAhead)"
  have k: "int k = ns_head_idx ns + numAhead" "0 < k" "k \<le> length (ns_node_list ns)"
    using assms by (auto simp: k_def)
  have eq: "take k (ns_node_list ns) ! (k - 1) = ns_node_list ns ! (k - 1)" using k by simp
  have "nodes_wf ((take k (ns_node_list ns))[k - 1 := clear_backtracking (ns_node_list ns ! (k - 1))])"
    using assms(1) k by (intro nodes_wf_take) (auto simp: stack_wf_def)
  moreover have "pop_restofstack ns numAhead =
      Some (ns\<lparr>ns_node_list := (take k (ns_node_list ns))[k - 1 := clear_backtracking (ns_node_list ns ! (k - 1))]\<rparr>)"
    unfolding pop_restofstack_def Let_def k_def [symmetric] eq using assms(3,4) by simp
  ultimately show ?thesis using k assms(1,2) by (simp add: stack_wf_def)
qed

section \<open>Properties\<close>

text \<open>
  (C15) The node stack replays and records. From a well-formed stack, with the stack and the fairness
  window shorter than 2 to the 31 and an action whose thread the last node of the stack knows,
  \<open>explore_action\<close> returns: while there are recorded nodes ahead it advances to the next one and returns its action,
  changing nothing else; at the end it returns \<open>NULL\<close> and puts a node for the new action on top.
  Popping at the divergence point returns as well; the stack stays well-formed throughout, so no null
  pointer of a node is ever followed.
\<close>

theorem node_stack_replays_and_records:
  assumes "stack_wf ns" and "fair_small params ns"
    and "can_explore acts ns act is_enabled"
  shows "(\<exists>r ns' acts'. explore_action params nt acts ns act is_enabled = Some (r, ns', acts') \<and>
      stack_wf ns' \<and> ns_head_idx ns' = ns_head_idx ns + 1 \<and>
      (if ns_head_idx ns + 1 < int (length (ns_node_list ns))
       then r = Some (nd_action (ns_node_list ns ! nat (ns_head_idx ns + 1))) \<and>
            ns_node_list ns' = ns_node_list ns \<and> acts' = acts
       else r = None \<and> length (ns_node_list ns') = Suc (length (ns_node_list ns)) \<and>
            nd_action (last (ns_node_list ns')) = act \<and>
            ma_node (acts' act) = Some (length (ns_node_list ns)))) \<and>
    (\<forall>numAhead \<ge> 1. 0 < ns_head_idx ns + numAhead \<and>
        ns_head_idx ns + numAhead \<le> int (length (ns_node_list ns)) \<longrightarrow>
      (\<exists>ns'. pop_restofstack ns numAhead = Some ns' \<and> stack_wf ns' \<and>
         int (length (ns_node_list ns')) = ns_head_idx ns + numAhead))"
proof (rule conjI)
  let ?more = "ns_head_idx ns + 1 < int (length (ns_node_list ns))"
  show "\<exists>r ns' acts'. explore_action params nt acts ns act is_enabled = Some (r, ns', acts') \<and>
      stack_wf ns' \<and> ns_head_idx ns' = ns_head_idx ns + 1 \<and>
      (if ?more
       then r = Some (nd_action (ns_node_list ns ! nat (ns_head_idx ns + 1))) \<and>
            ns_node_list ns' = ns_node_list ns \<and> acts' = acts
       else r = None \<and> length (ns_node_list ns') = Suc (length (ns_node_list ns)) \<and>
            nd_action (last (ns_node_list ns')) = act \<and>
            ma_node (acts' act) = Some (length (ns_node_list ns)))"
  proof (cases ?more)
    case True
    then show ?thesis using assms(1) by (simp add: explore_action_def stack_wf_def)
  next
    case False
    with assms(1) have top: "ns_head_idx ns = int (length (ns_node_list ns)) - 1" by (simp add: stack_wf_def)
    from record_action_returns [OF assms(1) top assms(2,3), of nt]
    obtain nodes n where rec: "record_action params nt acts ns act is_enabled =
      Some (ns\<lparr>ns_node_list := nodes @ [n], ns_total_nodes := ns_total_nodes ns + 1,
              ns_head_idx := ns_head_idx ns + 1\<rparr>, acts(act := (acts act)\<lparr>ma_node := Some (length nodes)\<rparr>))"
      "nodes_wf (nodes @ [n])" "length nodes = length (ns_node_list ns)" "nd_action n = act" by blast
    with False top show ?thesis by (simp add: explore_action_def stack_wf_def)
  qed
  show "\<forall>numAhead \<ge> 1. 0 < ns_head_idx ns + numAhead \<and>
        ns_head_idx ns + numAhead \<le> int (length (ns_node_list ns)) \<longrightarrow>
      (\<exists>ns'. pop_restofstack ns numAhead = Some ns' \<and> stack_wf ns' \<and>
         int (length (ns_node_list ns')) = ns_head_idx ns + numAhead)"
    using pop_restofstack_returns [OF assms(1)] by blast
qed

definition example_params :: "32 word \<Rightarrow> model_params" where
  "example_params window =
     \<lparr>mp_maxreads = 0, mp_maxfuturedelay = 6, mp_yieldon = False, mp_yieldblock = False, mp_fairwindow = window,
      mp_enabledcount = 1, mp_bound = 0, mp_uninitvalue = 0, mp_maxexecutions = 0, mp_maxfuturevalues = 0,
      mp_expireslop = 4, mp_verbose = 0\<rparr>"

theorem node_stack_replays_and_records_witness:
  "\<exists>r ns' acts'. explore_action (example_params 1) 2 (\<lambda>_. example_action ATOMIC_READ memory_order_relaxed)
     new_NodeStack 0 None = Some (r, ns', acts') \<and> r = None \<and> length (ns_node_list ns') = 1"
proof -
  have "stack_wf new_NodeStack" by (simp add: stack_wf_def new_NodeStack_def nodes_wf_def)
  moreover have "fair_small (example_params 1) new_NodeStack"
    by (simp add: fair_small_def new_NodeStack_def example_params_def)
  ultimately have "\<exists>r ns' acts'. explore_action (example_params 1) 2
      (\<lambda>_. example_action ATOMIC_READ memory_order_relaxed) new_NodeStack 0 None = Some (r, ns', acts') \<and>
      r = None \<and> length (ns_node_list ns') = Suc (length (ns_node_list new_NodeStack))"
    using node_stack_replays_and_records [of new_NodeStack "example_params 1"
        "\<lambda>_. example_action ATOMIC_READ memory_order_relaxed" 0 None 2]
    by (auto simp: new_NodeStack_def can_explore_def)
  then show ?thesis by (simp add: new_NodeStack_def)
qed

end
