(* ===== verification/NodeFairness.thy ===== *)
theory NodeFairness
  imports NodeRun
begin

text \<open>
  What the fairness counters of the nodes count, along a recorded execution: the turns a thread took
  and the times it was enabled, over a window of the last actions. The window is one action longer
  than \<open>fairwindow\<close>, and the turn of the very first action never leaves it.
\<close>

section \<open>Recorded runs\<close>

text \<open>
  The calls of \<open>explore_action\<close> of one execution. The number of threads does not decrease, and an
  action belongs to an existing thread.
\<close>

inductive recorded :: "model_params \<Rightarrow> act_store \<Rightarrow> NodeStack \<Rightarrow> bool" for params where
  recorded_start: "recorded params acts new_NodeStack"
| recorded_more: "recorded params acts ns \<Longrightarrow> ma_tid (acts act) < nt \<Longrightarrow>
    (\<forall>n \<in> set (ns_node_list ns). nd_num_threads n \<le> nt) \<Longrightarrow>
    explore_action params nt acts ns act is_enabled = Some (None, ns', acts') \<Longrightarrow>
    recorded params acts' ns'"

definition node_tid :: "act_store \<Rightarrow> NodeStack \<Rightarrow> nat \<Rightarrow> thread_id_t" where
  "node_tid acts ns k = ma_tid (acts (nd_action (ns_node_list ns ! k)))"

definition node_en :: "NodeStack \<Rightarrow> nat \<Rightarrow> thread_id_t \<Rightarrow> bool" where
  "node_en ns k i \<longleftrightarrow> Node_is_enabled (ns_node_list ns ! k) i = Some True"

section \<open>Windows\<close>

definition turns_in :: "(nat \<Rightarrow> thread_id_t) \<Rightarrow> nat \<Rightarrow> nat \<Rightarrow> thread_id_t \<Rightarrow> nat set" where
  "turns_in tid W k i = {j. j \<le> k \<and> tid j = i \<and> (j = 0 \<or> k \<le> j + W)}"

definition enabled_in :: "(nat \<Rightarrow> thread_id_t \<Rightarrow> bool) \<Rightarrow> nat \<Rightarrow> nat \<Rightarrow> thread_id_t \<Rightarrow> nat set" where
  "enabled_in en W k i = {j. j < k \<and> en j i \<and> k \<le> j + 1 + W}"

lemma finite_turns_in [simp]: "finite (turns_in tid W k i)"
  by (rule finite_subset [of _ "{..k}"]) (auto simp: turns_in_def)

lemma finite_enabled_in [simp]: "finite (enabled_in en W k i)"
  by (rule finite_subset [of _ "{..<k}"]) (auto simp: enabled_in_def)

lemma turns_in_cong: "(\<And>j. j \<le> k \<Longrightarrow> tid j = tid' j) \<Longrightarrow> turns_in tid W k i = turns_in tid' W k i"
  by (auto simp: turns_in_def)

lemma enabled_in_cong: "(\<And>j. j < k \<Longrightarrow> en j i = en' j i) \<Longrightarrow> enabled_in en W k i = enabled_in en' W k i"
  by (auto simp: enabled_in_def)

lemma card_turns_in_le: "card (turns_in tid W k i) \<le> Suc k"
  using card_mono [of "{..k}" "turns_in tid W k i"] by (auto simp: turns_in_def)

text \<open>How the windows move.\<close>

lemma of_nat_card_step:
  assumes "finite A" and "finite B" and "P \<Longrightarrow> a \<notin> A" and "Q \<Longrightarrow> b \<notin> B"
    and "(if P then insert a A else A) = (if Q then insert b B else B)"
  shows "of_nat (card B) = of_nat (card A) + (if P then 1 else 0) - (if Q then 1 else 0 :: 32 word)"
proof -
  have "of_nat (card A) + (if P then 1 else 0 :: 32 word) = of_nat (card (if P then insert a A else A))"
    using assms(1,3) by simp
  also have "\<dots> = of_nat (card B) + (if Q then 1 else 0)" unfolding assms(5) using assms(2,4) by simp
  finally show ?thesis by (simp add: algebra_simps)
qed

lemma turns_in_step:
  "of_nat (card (turns_in tid W (Suc k) i)) =
     (of_nat (card (turns_in tid W k i)) + (if tid (Suc k) = i then 1 else 0) -
      (if W < k \<and> tid (k - W) = i then 1 else 0) :: 32 word)"
proof (rule of_nat_card_step [where a = "Suc k" and b = "k - W"])
  show "(if tid (Suc k) = i then insert (Suc k) (turns_in tid W k i) else turns_in tid W k i) =
    (if W < k \<and> tid (k - W) = i then insert (k - W) (turns_in tid W (Suc k) i) else turns_in tid W (Suc k) i)"
    (is "?L = ?R")
  proof (rule set_eqI)
    fix j
    have L: "j \<in> ?L \<longleftrightarrow> tid j = i \<and> (j = Suc k \<or> j \<le> k \<and> (j = 0 \<or> k \<le> j + W))"
      by (auto simp: turns_in_def)
    have R: "j \<in> ?R \<longleftrightarrow> tid j = i \<and> (j = k - W \<and> W < k \<or> j \<le> Suc k \<and> (j = 0 \<or> Suc k \<le> j + W))"
      by (auto simp: turns_in_def)
    have "(j = Suc k \<or> j \<le> k \<and> (j = 0 \<or> k \<le> j + W)) \<longleftrightarrow>
      (j = k - W \<and> W < k \<or> j \<le> Suc k \<and> (j = 0 \<or> Suc k \<le> j + W))" by presburger
    with L R show "j \<in> ?L \<longleftrightarrow> j \<in> ?R" by simp
  qed
qed (auto simp: turns_in_def)

lemma enabled_in_step:
  "of_nat (card (enabled_in en W (Suc k) i)) =
     (of_nat (card (enabled_in en W k i)) + (if en k i then 1 else 0) -
      (if W < k \<and> en (k - W - 1) i then 1 else 0) :: 32 word)"
proof (rule of_nat_card_step [where a = k and b = "k - W - 1"])
  show "(if en k i then insert k (enabled_in en W k i) else enabled_in en W k i) =
    (if W < k \<and> en (k - W - 1) i then insert (k - W - 1) (enabled_in en W (Suc k) i) else enabled_in en W (Suc k) i)"
    (is "?L = ?R")
  proof (rule set_eqI)
    fix j
    have L: "j \<in> ?L \<longleftrightarrow> en j i \<and> (j = k \<or> j < k \<and> k \<le> j + 1 + W)"
      by (auto simp: enabled_in_def)
    have R: "j \<in> ?R \<longleftrightarrow> en j i \<and> (j = k - W - 1 \<and> W < k \<or> j < Suc k \<and> Suc k \<le> j + 1 + W)"
      by (auto simp: enabled_in_def)
    have "(j = k \<or> j < k \<and> k \<le> j + 1 + W) \<longleftrightarrow>
      (j = k - W - 1 \<and> W < k \<or> j < Suc k \<and> Suc k \<le> j + 1 + W)" by presburger
    with L R show "j \<in> ?L \<longleftrightarrow> j \<in> ?R" by simp
  qed
qed (auto simp: enabled_in_def)

section \<open>One step\<close>

lemma fairness_enter_fields:
  "fi_turns (fairness_enter e own f) = fi_turns f + (if own then 1 else 0)"
  "fi_enabled_count (fairness_enter e own f) = fi_enabled_count f + (if e then 1 else 0)"
  "fi_priority (fairness_enter e own f) \<longleftrightarrow> fi_priority f \<and> \<not> own"
  by (simp_all add: fairness_enter_def Let_def)

lemma fairness_leave_fields:
  "fi_turns (fairness_leave params e own f) = fi_turns f - (if own then 1 else 0)"
  "fi_enabled_count (fairness_leave params e own f) = fi_enabled_count f - (if e then 1 else 0)"
  "fi_priority (fairness_leave params e own f) \<Longrightarrow> fi_priority f \<or> fi_turns (fairness_leave params e own f) = 0"
  by (auto simp: fairness_leave_def Let_def)

lemma fairness_step_fields:
  assumes "fairness_step params nodes (Some p) c leaving i = Some fi"
  shows "\<exists>f0 e. (if i < nd_num_threads p then vec_at (nd_fairness p) i else Some zero_fairness) = Some f0 \<and>
      Node_is_enabled p i = Some e \<and>
      (case leaving of
         None \<Rightarrow> fi_turns fi = fi_turns f0 + (if i = c then 1 else 0) \<and>
                 fi_enabled_count fi = fi_enabled_count f0 + (if e then 1 else 0) \<and>
                 (fi_priority fi \<longrightarrow> fi_priority f0)
       | Some (pf, t) \<Rightarrow> \<exists>pp pe. nd_parent pf = Some pp \<and> Node_is_enabled (nodes ! pp) i = Some pe \<and>
                 fi_turns fi = fi_turns f0 + (if i = c then 1 else 0) - (if i = t then 1 else 0) \<and>
                 fi_enabled_count fi = fi_enabled_count f0 + (if e then 1 else 0) - (if pe then 1 else 0) \<and>
                 (fi_priority fi \<longrightarrow> fi_priority f0 \<or> fi_turns fi = 0))"
proof -
  from assms obtain f0 e where
    f0: "(if i < nd_num_threads p then vec_at (nd_fairness p) i else Some zero_fairness) = Some f0"
    and e: "Node_is_enabled p i = Some e"
    by (auto simp: fairness_step_def int_to_id_def bind_eq_Some_conv)
  show ?thesis
  proof (cases leaving)
    case None
    then have "fi = fairness_enter e (i = c) f0"
      using assms f0 e by (simp add: fairness_step_def int_to_id_def)
    then show ?thesis using None f0 e by (simp add: fairness_enter_fields)
  next
    case (Some pt)
    obtain pf t where pt: "pt = (pf, t)" by fastforce
    from assms Some pt f0 e obtain pp pe where pp: "nd_parent pf = Some pp"
      "Node_is_enabled (nodes ! pp) i = Some pe"
      and fi: "fi = fairness_leave params pe (i = t) (fairness_enter e (i = c) f0)"
      by (auto simp: fairness_step_def int_to_id_def bind_eq_Some_conv)
    have "fi_priority fi \<longrightarrow> fi_priority f0 \<or> fi_turns fi = 0"
      using fairness_leave_fields(3) fairness_enter_fields(3) unfolding fi by blast
    then show ?thesis using Some pt f0 e pp
      by (simp add: fi fairness_leave_fields(1,2) fairness_enter_fields(1,2))
  qed
qed

lemma record_action_decomp:
  assumes "record_action params nt acts ns act is_enabled = Some (ns', acts')"
    and "ns_node_list ns \<noteq> []" "ns_head_idx ns = int h" "Suc h = length (ns_node_list ns)"
    and "fair_small params ns" "mp_fairwindow params \<noteq> 0"
  shows "\<exists>hn fair nodes nt'. explore_child acts (ns_node_list ns ! h) act is_enabled = Some hn \<and>
      nodes = (ns_node_list ns)[h := hn] \<and> nt \<le> nt' \<and>
      ns_node_list ns' = nodes @ [(blank_Node act (Some h) nt')\<lparr>nd_fairness := fair\<rparr>] \<and>
      ns_head_idx ns' = int (Suc h) \<and>
      acts' = acts(act := (acts act)\<lparr>ma_node := Some (Suc h)\<rparr>) \<and>
      mapM (fairness_step params nodes (Some hn) (ma_tid (acts act))
        (map_option (\<lambda>pf. (nodes ! pf, ma_tid (acts (nd_action (nodes ! pf))))) (window_end params h)))
        [0..<nt'] = Some fair"
proof -
  define nt' where "nt' = (if ma_type (acts act) = THREAD_CREATE then nt + 1 else nt)"
  from assms(1-4) obtain hn where hn: "explore_child acts (ns_node_list ns ! h) act is_enabled = Some hn"
    by (auto simp: record_action_def get_head_def bind_eq_Some_conv)
  define nodes where "nodes = (ns_node_list ns)[h := hn]"
  have len: "length nodes = Suc h" "nodes ! h = hn" using assms(4) by (auto simp: nodes_def)
  have small: "unat (mp_fairwindow params) < 2 ^ 31" "h < 2 ^ 31"
    using assms(4,5) by (auto simp: fair_small_def)
  have rec: "record_action params nt acts ns act is_enabled = do {
      (n, acts') \<leftarrow> new_Node params acts nodes (length nodes) act (Some h) nt' (window_end params h);
      Some (ns\<lparr>ns_node_list := nodes @ [n], ns_total_nodes := ns_total_nodes ns + 1,
              ns_head_idx := ns_head_idx ns + 1\<rparr>, acts')
    }"
    unfolding record_action_def get_head_def assms(3) nt'_def [symmetric]
    using assms(2,4) hn window_end_eq [OF small] by (simp add: nodes_def [symmetric])
  have leave: "(case window_end params h of
                   None \<Rightarrow> Some None
                 | Some pf \<Rightarrow> do { pfn \<leftarrow> vec_at nodes pf;
                                   Some (Some (pfn, id_to_int (ma_tid (acts (nd_action pfn))))) }) =
      Some (map_option (\<lambda>pf. (nodes ! pf, ma_tid (acts (nd_action (nodes ! pf))))) (window_end params h))"
    using len(1) by (auto simp: window_end_def vec_at_def id_to_int_def)
  have "new_Node params acts nodes (length nodes) act (Some h) nt' (window_end params h) = do {
      fair \<leftarrow> mapM (fairness_step params nodes (Some hn) (ma_tid (acts act))
        (map_option (\<lambda>pf. (nodes ! pf, ma_tid (acts (nd_action (nodes ! pf))))) (window_end params h)))
        [0..<nt'];
      Some ((blank_Node act (Some h) nt')\<lparr>nd_fairness := fair\<rparr>, acts(act := (acts act)\<lparr>ma_node := Some (Suc h)\<rparr>))
    }"
    unfolding new_Node_def Let_def leave using assms(6) len by (simp add: vec_at_def id_to_int_def)
  note eqn = assms(1) [unfolded rec this]
  then obtain fair where fair: "mapM (fairness_step params nodes (Some hn) (ma_tid (acts act))
        (map_option (\<lambda>pf. (nodes ! pf, ma_tid (acts (nd_action (nodes ! pf))))) (window_end params h)))
        [0..<nt'] = Some fair"
      and "ns' = ns\<lparr>ns_node_list := nodes @ [(blank_Node act (Some h) nt')\<lparr>nd_fairness := fair\<rparr>],
              ns_total_nodes := ns_total_nodes ns + 1, ns_head_idx := ns_head_idx ns + 1\<rparr>"
      and "acts' = acts(act := (acts act)\<lparr>ma_node := Some (Suc h)\<rparr>)"
    by (auto simp: bind_eq_Some_conv)
  then show ?thesis using hn assms(3)
    by (intro exI [of _ hn] exI [of _ fair] exI [of _ nodes] exI [of _ nt']) (simp add: nodes_def nt'_def)
qed

section \<open>The counters\<close>

definition counters_ok :: "model_params \<Rightarrow> act_store \<Rightarrow> NodeStack \<Rightarrow> nat \<Rightarrow> thread_id_t \<Rightarrow> bool" where
  "counters_ok params acts ns k i \<longleftrightarrow>
     (let fi = nd_fairness (ns_node_list ns ! k) ! i; W = unat (mp_fairwindow params)
      in fi_turns fi = of_nat (card (turns_in (node_tid acts ns) W k i)) \<and>
         fi_enabled_count fi = of_nat (card (enabled_in (node_en ns) W k i)) \<and>
         (i = node_tid acts ns 0 \<longrightarrow> \<not> fi_priority fi))"

definition run_ok :: "model_params \<Rightarrow> act_store \<Rightarrow> NodeStack \<Rightarrow> bool" where
  "run_ok params acts ns \<longleftrightarrow>
     stack_wf ns \<and> ns_head_idx ns = int (length (ns_node_list ns)) - 1 \<and>
     (\<forall>k < length (ns_node_list ns). node_tid acts ns k < nd_num_threads (ns_node_list ns ! k)) \<and>
     (\<forall>k < length (ns_node_list ns). \<forall>j \<le> k.
        nd_num_threads (ns_node_list ns ! j) \<le> nd_num_threads (ns_node_list ns ! k)) \<and>
     (\<forall>k < length (ns_node_list ns). \<forall>i < nd_num_threads (ns_node_list ns ! k). counters_ok params acts ns k i)"

lemma run_okD:
  assumes "run_ok params acts ns"
  shows "stack_wf ns" "ns_head_idx ns = int (length (ns_node_list ns)) - 1"
    "k < length (ns_node_list ns) \<Longrightarrow> node_tid acts ns k < nd_num_threads (ns_node_list ns ! k)"
    "k < length (ns_node_list ns) \<Longrightarrow> j \<le> k \<Longrightarrow>
       nd_num_threads (ns_node_list ns ! j) \<le> nd_num_threads (ns_node_list ns ! k)"
    "k < length (ns_node_list ns) \<Longrightarrow> i < nd_num_threads (ns_node_list ns ! k) \<Longrightarrow> counters_ok params acts ns k i"
  using assms by (simp_all add: run_ok_def)

lemma counters_ok_cong:
  assumes "\<And>j. j \<le> k \<Longrightarrow> node_tid acts' ns' j = node_tid acts ns j"
    and "\<And>j. j < k \<Longrightarrow> node_en ns' j i = node_en ns j i"
    and "nd_fairness (ns_node_list ns' ! k) = nd_fairness (ns_node_list ns ! k)"
  shows "counters_ok params acts' ns' k i = counters_ok params acts ns k i"
  using turns_in_cong [of k "node_tid acts' ns'" "node_tid acts ns"]
    enabled_in_cong [of k "node_en ns'" i "node_en ns"] assms
  by (simp add: counters_ok_def)

text \<open>The first node.\<close>

lemma record_first:
  assumes "record_action params nt acts ns act is_enabled = Some (ns', acts')"
    and "ns_node_list ns = []" and "mp_fairwindow params \<noteq> 0" and "ma_tid (acts act) < nt"
  shows "\<exists>nt' fair. nt \<le> nt' \<and> ns_node_list ns' = [(blank_Node act None nt')\<lparr>nd_fairness := fair\<rparr>] \<and>
      acts' = acts(act := (acts act)\<lparr>ma_node := Some 0\<rparr>) \<and> length fair = nt' \<and>
      (\<forall>i < nt'. fi_turns (fair ! i) = (if i = ma_tid (acts act) then 1 else 0) \<and>
         fi_enabled_count (fair ! i) = 0 \<and> \<not> fi_priority (fair ! i))"
proof -
  define nt' where "nt' = (if ma_type (acts act) = THREAD_CREATE then nt + 1 else nt)"
  from assms(1-3) obtain fair where fair: "mapM (fairness_step params [] None (ma_tid (acts act)) None) [0..<nt'] = Some fair"
      and "ns_node_list ns' = [(blank_Node act None nt')\<lparr>nd_fairness := fair\<rparr>]"
      and "acts' = acts(act := (acts act)\<lparr>ma_node := Some 0\<rparr>)"
    by (auto simp: record_action_def get_head_def new_Node_def Let_def id_to_int_def nt'_def [symmetric]
        bind_eq_Some_conv)
  moreover have len: "length fair = nt'" and steps: "\<forall>i < nt'. fairness_step params [] None (ma_tid (acts act)) None i = Some (fair ! i)"
    using fair by (auto simp: mapM_eq_Some)
  moreover from steps have "\<forall>i < nt'. fair ! i = (if i = ma_tid (acts act)
      then zero_fairness\<lparr>fi_turns := 1, fi_priority := False\<rparr> else zero_fairness)"
    by (auto simp: fairness_step_def fairness_enter_def Let_def zero_fairness_def)
  ultimately show ?thesis
    by (intro exI [of _ nt'] exI [of _ fair] conjI) (simp_all add: nt'_def zero_fairness_def)
qed

lemma run_ok_first:
  assumes "record_action params nt acts ns act is_enabled = Some (ns', acts')"
    and "stack_wf ns" "ns_node_list ns = []" "ns_head_idx ns = -1" and "fair_small params ns"
    and "mp_fairwindow params \<noteq> 0" and "ma_tid (acts act) < nt"
  shows "run_ok params acts' ns'"
proof -
  from record_first [OF assms(1,3,6,7)] obtain nt' fair where n: "nt \<le> nt'"
    "ns_node_list ns' = [(blank_Node act None nt')\<lparr>nd_fairness := fair\<rparr>]"
    "acts' = acts(act := (acts act)\<lparr>ma_node := Some 0\<rparr>)" "length fair = nt'"
    and fair: "\<forall>i < nt'. fi_turns (fair ! i) = (if i = ma_tid (acts act) then 1 else 0) \<and>
         fi_enabled_count (fair ! i) = 0 \<and> \<not> fi_priority (fair ! i)" by blast
  have "can_explore acts ns act is_enabled" using assms(3) by (simp add: can_explore_def)
  with record_action_returns [OF assms(2) _ assms(5) this, of nt] assms(1,3,4)
  have wf: "stack_wf ns'" "ns_head_idx ns' = 0" by (auto simp: stack_wf_def)
  have "nd_num_threads (ns_node_list ns' ! 0) = nt'" "node_tid acts' ns' 0 = ma_tid (acts act)"
    using n by (simp_all add: blank_Node_def node_tid_def)
  moreover have "turns_in tid W 0 i = (if tid 0 = i then {0} else {})" for tid :: "nat \<Rightarrow> nat" and W i
    by (auto simp: turns_in_def)
  moreover have "enabled_in en W 0 i = {}" for en W i by (auto simp: enabled_in_def)
  ultimately show ?thesis using n(1,2) fair wf assms(7)
    by (auto simp: run_ok_def counters_ok_def Let_def)
qed

lemma node_en_False: "nd_num_threads (ns_node_list ns ! k) \<le> i \<Longrightarrow> \<not> node_en ns k i"
  by (simp add: node_en_def Node_is_enabled_def id_to_int_def)

text \<open>The counters of the thread in the node on top, or zero if the node does not know the thread.\<close>

lemma parent_counters:
  assumes "run_ok params acts ns" and "Suc h = length (ns_node_list ns)"
    and "(if i < nd_num_threads (ns_node_list ns ! h) then vec_at (nd_fairness (ns_node_list ns ! h)) i
          else Some zero_fairness) = Some f0"
  shows "fi_turns f0 = of_nat (card (turns_in (node_tid acts ns) (unat (mp_fairwindow params)) h i))"
    and "fi_enabled_count f0 = of_nat (card (enabled_in (node_en ns) (unat (mp_fairwindow params)) h i))"
    and "i = node_tid acts ns 0 \<Longrightarrow> \<not> fi_priority f0"
proof -
  have h: "h < length (ns_node_list ns)" using assms(2) by simp
  have "fi_turns f0 = of_nat (card (turns_in (node_tid acts ns) (unat (mp_fairwindow params)) h i)) \<and>
    fi_enabled_count f0 = of_nat (card (enabled_in (node_en ns) (unat (mp_fairwindow params)) h i)) \<and>
    (i = node_tid acts ns 0 \<longrightarrow> \<not> fi_priority f0)"
  proof (cases "i < nd_num_threads (ns_node_list ns ! h)")
    case True
    then have "counters_ok params acts ns h i" by (rule run_okD(5) [OF assms(1) h])
    with assms(3) True show ?thesis by (simp add: counters_ok_def Let_def)
  next
    case False
    have le: "nd_num_threads (ns_node_list ns ! j) \<le> i" if "j \<le> h" for j
      using run_okD(4) [OF assms(1) h that] False by simp
    have "node_tid acts ns j \<noteq> i" if "j \<le> h" for j
      using run_okD(3) [OF assms(1), of j] h that le [OF that] by simp
    then have "turns_in (node_tid acts ns) W h i = {}" for W by (auto simp: turns_in_def)
    moreover have "enabled_in (node_en ns) W h i = {}" for W
      using node_en_False le by (auto simp: enabled_in_def)
    ultimately show ?thesis using assms(3) False by (auto simp: zero_fairness_def)
  qed
  then show "fi_turns f0 = of_nat (card (turns_in (node_tid acts ns) (unat (mp_fairwindow params)) h i))"
    "fi_enabled_count f0 = of_nat (card (enabled_in (node_en ns) (unat (mp_fairwindow params)) h i))"
    "i = node_tid acts ns 0 \<Longrightarrow> \<not> fi_priority f0" by blast+
qed

lemma explore_child_Some:
  assumes "explore_child acts n act is_enabled = Some n'" and "node_wf n"
  shows "ma_tid (acts act) < nd_num_threads n" and "is_enabled = Some e \<Longrightarrow> nd_num_threads n \<le> length e"
  using assms
  by (auto simp: explore_child_def explore_def Let_def id_to_int_def node_wf_def threads_wf_def bind_eq_Some_conv
      split: if_splits option.splits)

lemma of_nat_card_nonzero:
  assumes "finite A" and "a \<in> A" and "card A < 2 ^ 32"
  shows "(of_nat (card A) :: 32 word) \<noteq> 0"
proof -
  have "0 < card A" using assms(1,2) card_gt_0_iff by blast
  moreover have "unat (of_nat (card A) :: 32 word) = card A" using assms(3) by (simp add: unat_of_nat)
  ultimately show ?thesis by (metis less_numeral_extra(3) unat_0)
qed

lemma fairness_counters:
  assumes step: "fairness_step params nodes (Some hn) (tid (Suc h))
      (map_option (\<lambda>pf. (nodes ! pf, tid pf)) (window_end params h)) i = Some fi"
    and fw: "mp_fairwindow params \<noteq> 0" and h: "h < 2 ^ 31"
    and par: "\<And>f0. (if i < nd_num_threads hn then vec_at (nd_fairness hn) i else Some zero_fairness) = Some f0 \<Longrightarrow>
        fi_turns f0 = of_nat (card (turns_in tid (unat (mp_fairwindow params)) h i)) \<and>
        fi_enabled_count f0 = of_nat (card (enabled_in en (unat (mp_fairwindow params)) h i)) \<and>
        (i = tid 0 \<longrightarrow> \<not> fi_priority f0)"
    and en: "\<And>e. Node_is_enabled hn i = Some e \<Longrightarrow> en h i = e"
    and left: "\<And>pf pe. window_end params h = Some pf \<Longrightarrow> nd_parent (nodes ! pf) = Some (pf - 1) \<and>
        (Node_is_enabled (nodes ! (pf - 1)) i = Some pe \<longrightarrow> en (pf - 1) i = pe)"
  shows "fi_turns fi = of_nat (card (turns_in tid (unat (mp_fairwindow params)) (Suc h) i)) \<and>
    fi_enabled_count fi = of_nat (card (enabled_in en (unat (mp_fairwindow params)) (Suc h) i)) \<and>
    (i = tid 0 \<longrightarrow> \<not> fi_priority fi)"
proof -
  let ?W = "unat (mp_fairwindow params)"
  from fairness_step_fields [OF step] obtain f0 e where
    f0: "(if i < nd_num_threads hn then vec_at (nd_fairness hn) i else Some zero_fairness) = Some f0"
    and e: "Node_is_enabled hn i = Some e"
    and fields: "case map_option (\<lambda>pf. (nodes ! pf, tid pf)) (window_end params h) of
         None \<Rightarrow> fi_turns fi = fi_turns f0 + (if i = tid (Suc h) then 1 else 0) \<and>
                 fi_enabled_count fi = fi_enabled_count f0 + (if e then 1 else 0) \<and>
                 (fi_priority fi \<longrightarrow> fi_priority f0)
       | Some (pf, t) \<Rightarrow> \<exists>pp pe. nd_parent pf = Some pp \<and> Node_is_enabled (nodes ! pp) i = Some pe \<and>
                 fi_turns fi = fi_turns f0 + (if i = tid (Suc h) then 1 else 0) - (if i = t then 1 else 0) \<and>
                 fi_enabled_count fi = fi_enabled_count f0 + (if e then 1 else 0) - (if pe then 1 else 0) \<and>
                 (fi_priority fi \<longrightarrow> fi_priority f0 \<or> fi_turns fi = 0)" by blast
  note p = par [OF f0]
  have sums: "fi_turns fi = fi_turns f0 + (if tid (Suc h) = i then 1 else 0) -
        (if ?W < h \<and> tid (h - ?W) = i then 1 else 0) \<and>
      fi_enabled_count fi = fi_enabled_count f0 + (if en h i then 1 else 0) -
        (if ?W < h \<and> en (h - ?W - 1) i then 1 else 0) \<and>
      (fi_priority fi \<longrightarrow> fi_priority f0 \<or> fi_turns fi = 0)"
  proof (cases "?W < h")
    case True
    then have we: "window_end params h = Some (h - ?W)" using fw by (simp add: window_end_def)
    with fields obtain pp pe where pp: "nd_parent (nodes ! (h - ?W)) = Some pp" "Node_is_enabled (nodes ! pp) i = Some pe"
      and f: "fi_turns fi = fi_turns f0 + (if i = tid (Suc h) then 1 else 0) - (if i = tid (h - ?W) then 1 else 0)"
        "fi_enabled_count fi = fi_enabled_count f0 + (if e then 1 else 0) - (if pe then 1 else 0)"
        "fi_priority fi \<longrightarrow> fi_priority f0 \<or> fi_turns fi = 0" by auto
    with left [OF we, of pe] have "en (h - ?W - 1) i = pe" by simp
    with f en [OF e] True show ?thesis by (simp add: eq_commute [of i])
  next
    case False
    then have "window_end params h = None" by (simp add: window_end_def)
    with fields en [OF e] False show ?thesis by auto
  qed
  then have turns: "fi_turns fi = of_nat (card (turns_in tid ?W (Suc h) i))"
    and "fi_enabled_count fi = of_nat (card (enabled_in en ?W (Suc h) i))"
    using p turns_in_step [of tid ?W h i] enabled_in_step [of en ?W h i] by simp_all
  moreover have "\<not> fi_priority fi" if "i = tid 0"
  proof -
    have "0 \<in> turns_in tid ?W (Suc h) i" using that by (simp add: turns_in_def)
    then have "(of_nat (card (turns_in tid ?W (Suc h) i)) :: 32 word) \<noteq> 0"
      using card_turns_in_le [of tid ?W "Suc h" i] h by (intro of_nat_card_nonzero) auto
    with sums p that turns show ?thesis by auto
  qed
  ultimately show ?thesis by simp
qed

lemma run_ok_more:
  assumes "record_action params nt acts ns act is_enabled = Some (ns', acts')"
    and ok: "run_ok params acts ns" and "ns_node_list ns \<noteq> []"
    and small: "fair_small params ns" and "mp_fairwindow params \<noteq> 0" and "ma_tid (acts act) < nt"
    and mono: "\<forall>n \<in> set (ns_node_list ns). nd_num_threads n \<le> nt"
  shows "run_ok params acts' ns'"
proof -
  let ?old = "ns_node_list ns" and ?W = "unat (mp_fairwindow params)"
  define h where "h = length ?old - 1"
  have h: "Suc h = length ?old" "h < length ?old" using assms(3) by (auto simp: h_def)
  have hi: "ns_head_idx ns = int h" using run_okD(2) [OF ok] h(1) by simp
  from record_action_decomp [OF assms(1,3) hi h(1) small assms(5)] obtain hn fair nodes nt' where
    hn: "explore_child acts (?old ! h) act is_enabled = Some hn"
    and nodes: "nodes = ?old[h := hn]" and nt': "nt \<le> nt'"
    and new: "ns_node_list ns' = nodes @ [(blank_Node act (Some h) nt')\<lparr>nd_fairness := fair\<rparr>]"
    and hi': "ns_head_idx ns' = int (Suc h)"
    and acts': "acts' = acts(act := (acts act)\<lparr>ma_node := Some (Suc h)\<rparr>)"
    and fair: "mapM (fairness_step params nodes (Some hn) (ma_tid (acts act))
        (map_option (\<lambda>pf. (nodes ! pf, ma_tid (acts (nd_action (nodes ! pf))))) (window_end params h)))
        [0..<nt'] = Some fair" by blast
  note frame = explore_child_frame [OF hn]
  have len: "length nodes = Suc h" using nodes h by simp
  have same: "nd_action (nodes ! k) = nd_action (?old ! k)" "nd_fairness (nodes ! k) = nd_fairness (?old ! k)"
    "nd_num_threads (nodes ! k) = nd_num_threads (?old ! k)" "nd_parent (nodes ! k) = nd_parent (?old ! k)" for k
    using frame h(2) by (auto simp: nodes nth_list_update)
  have tid: "ma_tid (acts' a) = ma_tid (acts a)" for a by (simp add: acts')
  have ntid: "node_tid acts' ns' k = node_tid acts ns k" if "k \<le> h" for k
    using that len by (simp add: node_tid_def new nth_append same tid)
  have en: "node_en ns' k i = node_en ns k i" if "k < h" for k i
    using that h by (simp add: node_en_def new nodes nth_append)
  have top: "ns_node_list ns' ! Suc h = (blank_Node act (Some h) nt')\<lparr>nd_fairness := fair\<rparr>"
    using len by (simp add: new nth_append)
  have toptid: "node_tid acts' ns' (Suc h) = ma_tid (acts act)"
    by (simp add: node_tid_def top tid blank_Node_def)
  have len': "length (ns_node_list ns') = Suc (Suc h)" using new len by simp
  have old: "ns_node_list ns' ! k = nodes ! k" if "k \<le> h" for k using that len by (simp add: new nth_append)
  have wf_h: "node_wf (?old ! h)" using run_okD(1) [OF ok] h(2) nodes_wfD(1) by (simp add: stack_wf_def)
  have "can_explore acts ns act is_enabled"
    using explore_child_Some [OF hn wf_h] assms(3) by (simp add: can_explore_def last_conv_nth h_def)
  from record_action_returns [OF run_okD(1,2) [OF ok] small this, of nt] assms(1)
  have "nodes_wf (ns_node_list ns')" by auto
  then have wf: "stack_wf ns'" and nwf: "nodes_wf (ns_node_list ns')" using hi' len' by (simp_all add: stack_wf_def)
  have nts: "nd_num_threads (ns_node_list ns' ! k) = (if k \<le> h then nd_num_threads (?old ! k) else nt')"
    if "k < Suc (Suc h)" for k
  proof (cases "k \<le> h")
    case False
    with that have "k = Suc h" by simp
    then show ?thesis using top by (simp add: blank_Node_def)
  qed (use old [of k] same(3) [of k] in simp)
  have below: "nd_num_threads (?old ! k) \<le> nt'" if "k \<le> h" for k
  proof -
    have "?old ! k \<in> set ?old" using that h by (intro nth_mem) simp
    with mono nt' show ?thesis by fastforce
  qed
  have counters: "counters_ok params acts' ns' k i" if k: "k < Suc (Suc h)" and i: "i < nd_num_threads (ns_node_list ns' ! k)" for k i
  proof (cases "k \<le> h")
    case True
    have "counters_ok params acts' ns' k i = counters_ok params acts ns k i"
      using True ntid en old [OF True] same(2) [of k] by (intro counters_ok_cong) auto
    moreover have "counters_ok params acts ns k i"
      using True h i nts [OF k] by (intro run_okD(5) [OF ok]) auto
    ultimately show ?thesis by simp
  next
    case False
    then have ks: "k = Suc h" using k by simp
    have i': "i < nt'" using i nts [OF k] False by simp
    have nf: "nd_fairness (ns_node_list ns' ! k) ! i = fair ! i" by (simp add: ks top)
    let ?tid = "node_tid acts' ns'"
    have pf: "\<forall>pf. window_end params h = Some pf \<longrightarrow> 0 < pf \<and> pf \<le> h"
      by (auto simp: window_end_def unat_gt_0 split: if_splits)
    have lv: "map_option (\<lambda>pf. (nodes ! pf, ma_tid (acts (nd_action (nodes ! pf))))) (window_end params h) =
        map_option (\<lambda>pf. (nodes ! pf, ?tid pf)) (window_end params h)"
      using pf old by (cases "window_end params h") (auto simp: node_tid_def tid)
    have "fi_turns (fair ! i) = of_nat (card (turns_in ?tid ?W (Suc h) i)) \<and>
        fi_enabled_count (fair ! i) = of_nat (card (enabled_in (node_en ns') ?W (Suc h) i)) \<and>
        (i = ?tid 0 \<longrightarrow> \<not> fi_priority (fair ! i))"
    proof (rule fairness_counters [OF _ assms(5)])
      show "fairness_step params nodes (Some hn) (?tid (Suc h))
          (map_option (\<lambda>pf. (nodes ! pf, ?tid pf)) (window_end params h)) i = Some (fair ! i)"
        using fair i' unfolding lv toptid by (simp add: mapM_eq_Some)
      show "h < 2 ^ 31" using small h(2) by (simp add: fair_small_def)
      show "node_en ns' h i = e" if "Node_is_enabled hn i = Some e" for e
        using that old [of h] h(2) by (simp add: node_en_def nodes)
      show "nd_parent (nodes ! q) = Some (q - 1) \<and>
          (Node_is_enabled (nodes ! (q - 1)) i = Some pe \<longrightarrow> node_en ns' (q - 1) i = pe)"
        if "window_end params h = Some q" for q pe
      proof -
        have q: "0 < q" "q \<le> h" using pf that by auto
        then have "nd_parent (nodes ! q) = Some (q - 1)"
          using nodes_wfD(2) [OF nwf, of q] len' old [OF q(2)] by simp
        then show ?thesis using q old [of "q - 1"] by (simp add: node_en_def)
      qed
      fix f0
      assume "(if i < nd_num_threads hn then vec_at (nd_fairness hn) i else Some zero_fairness) = Some f0"
      then have f0: "(if i < nd_num_threads (?old ! h) then vec_at (nd_fairness (?old ! h)) i else Some zero_fairness) = Some f0"
        unfolding frame(2,3) .
      have "turns_in ?tid ?W h i = turns_in (node_tid acts ns) ?W h i"
        by (rule turns_in_cong) (rule ntid)
      moreover have "enabled_in (node_en ns') ?W h i = enabled_in (node_en ns) ?W h i"
        by (rule enabled_in_cong) (rule en)
      ultimately show "fi_turns f0 = of_nat (card (turns_in ?tid ?W h i)) \<and>
        fi_enabled_count f0 = of_nat (card (enabled_in (node_en ns') ?W h i)) \<and>
        (i = ?tid 0 \<longrightarrow> \<not> fi_priority f0)"
        using parent_counters [OF ok h(1) f0] ntid [of 0] by simp
    qed
    then show ?thesis unfolding counters_ok_def Let_def nf unfolding ks .
  qed
  show ?thesis
    unfolding run_ok_def len'
  proof (intro conjI allI impI)
    show "stack_wf ns'" by (rule wf)
    show "ns_head_idx ns' = int (Suc (Suc h)) - 1" using hi' by simp
    fix k assume k: "k < Suc (Suc h)"
    show "node_tid acts' ns' k < nd_num_threads (ns_node_list ns' ! k)"
    proof (cases "k \<le> h")
      case True
      then show ?thesis using ntid [of k] run_okD(3) [OF ok, of k] nts [OF k] h by simp
    next
      case False
      with k have "k = Suc h" by simp
      then show ?thesis using toptid nts [OF k] assms(6) nt' by simp
    qed
    show "nd_num_threads (ns_node_list ns' ! j) \<le> nd_num_threads (ns_node_list ns' ! k)" if "j \<le> k" for j
      using that nts [OF k] nts [of j] k run_okD(4) [OF ok, of k j] below [of j] h by (cases "k \<le> h") auto
    show "counters_ok params acts' ns' k i" if "i < nd_num_threads (ns_node_list ns' ! k)" for i
      by (rule counters [OF k that])
  qed
qed

lemma recorded_shape:
  assumes "recorded params acts ns"
  shows "-1 \<le> ns_head_idx ns" and "ns_head_idx ns = int (length (ns_node_list ns)) - 1"
  using assms
proof (induction rule: recorded.induct)
  case (recorded_more acts ns act nt is_enabled ns' acts')
  have "length (ns_node_list ns') = Suc (length (ns_node_list ns)) \<and> ns_head_idx ns' = ns_head_idx ns + 1"
    using recorded_more.hyps(4) recorded_more.IH
    by (auto simp: explore_action_def record_action_def bind_eq_Some_conv split: if_splits option.splits)
  then show "-1 \<le> ns_head_idx ns'" "ns_head_idx ns' = int (length (ns_node_list ns')) - 1"
    using recorded_more.IH by auto
qed (simp_all add: new_NodeStack_def)

lemma recorded_run_ok:
  assumes "recorded params acts ns" and "fair_small params ns" and "mp_fairwindow params \<noteq> 0"
  shows "run_ok params acts ns"
  using assms(1,2)
proof (induction rule: recorded.induct)
  case (recorded_start acts)
  then show ?case by (simp add: run_ok_def new_NodeStack_def stack_wf_def nodes_wf_def)
next
  case (recorded_more acts ns act nt is_enabled ns' acts')
  have top: "ns_head_idx ns = int (length (ns_node_list ns)) - 1"
    by (rule recorded_shape(2) [OF recorded_more.hyps(1)])
  then have rec: "record_action params nt acts ns act is_enabled = Some (ns', acts')"
    using recorded_more.hyps(4) by (auto simp: explore_action_def bind_eq_Some_conv)
  have "recorded params acts' ns'" using recorded_more.hyps by (rule recorded.recorded_more)
  from recorded_shape(2) [OF this] have "length (ns_node_list ns') = Suc (length (ns_node_list ns))"
    using rec top by (auto simp: record_action_def bind_eq_Some_conv split: option.splits)
  with recorded_more.prems have small: "fair_small params ns" by (simp add: fair_small_def)
  with recorded_more.IH have ok: "run_ok params acts ns" by simp
  show ?case
  proof (cases "ns_node_list ns = []")
    case True
    then show ?thesis
      using run_ok_first [OF rec run_okD(1) [OF ok] True _ small assms(3) recorded_more.hyps(2)] top by simp
  next
    case False
    show ?thesis by (rule run_ok_more [OF rec ok False small assms(3) recorded_more.hyps(2,3)])
  qed
qed

section \<open>Properties\<close>

text \<open>
  (C16) Along a recorded execution the fairness counters of node \<open>k\<close> count, for every thread, the
  turns among the actions \<open>k - fairwindow\<close> to \<open>k\<close>, and the nodes \<open>k - fairwindow - 1\<close> to
  \<open>k - 1\<close> at which the thread was enabled. The turn of the first action is never taken back, so
  the thread that executed it never gets priority.
\<close>

theorem fairness_counts_window:
  assumes "recorded params acts ns" and "fair_small params ns" and "mp_fairwindow params \<noteq> 0"
    and "k < length (ns_node_list ns)" and "i < nd_num_threads (ns_node_list ns ! k)"
  shows "fi_turns (nd_fairness (ns_node_list ns ! k) ! i) =
      of_nat (card {j. j \<le> k \<and> node_tid acts ns j = i \<and> (j = 0 \<or> k \<le> j + unat (mp_fairwindow params))}) \<and>
    fi_enabled_count (nd_fairness (ns_node_list ns ! k) ! i) =
      of_nat (card {j. j < k \<and> node_en ns j i \<and> k \<le> j + 1 + unat (mp_fairwindow params)}) \<and>
    has_priority (ns_node_list ns ! k) (node_tid acts ns 0) \<noteq> Some True"
proof -
  have ok: "run_ok params acts ns" by (rule recorded_run_ok [OF assms(1-3)])
  have "counters_ok params acts ns k i" by (rule run_okD(5) [OF ok assms(4,5)])
  moreover have "node_tid acts ns 0 < nd_num_threads (ns_node_list ns ! k)"
    using run_okD(3) [OF ok, of 0] run_okD(4) [OF ok assms(4), of 0] assms(4) by fastforce
  then have "counters_ok params acts ns k (node_tid acts ns 0)" by (rule run_okD(5) [OF ok assms(4)])
  ultimately show ?thesis
    by (auto simp: counters_ok_def turns_in_def enabled_in_def Let_def has_priority_def id_to_int_def bind_eq_Some_conv)
qed

theorem fairness_counts_window_witness:
  "\<exists>acts ns. explore_action (example_params 1) 2 (\<lambda>_. example_action ATOMIC_READ memory_order_relaxed)
     new_NodeStack 0 None = Some (None, ns, acts) \<and>
   fi_turns (nd_fairness (ns_node_list ns ! 0) ! ma_tid (example_action ATOMIC_READ memory_order_relaxed)) = 1"
proof -
  let ?a = "example_action ATOMIC_READ memory_order_relaxed"
  obtain ns acts where ex: "explore_action (example_params 1) 2 (\<lambda>_. ?a) new_NodeStack 0 None = Some (None, ns, acts)"
    and nodes: "length (ns_node_list ns) = 1" "nd_num_threads (ns_node_list ns ! 0) = 2"
      "nd_action (ns_node_list ns ! 0) = 0" "ma_tid (acts 0) = ma_tid ?a"
    by (simp add: explore_action_def record_action_def new_NodeStack_def get_head_def new_Node_def
        example_params_def example_action_def Let_def blank_Node_def fairness_step_def upt_rec numeral_2_eq_2)
  have tid: "ma_tid ?a < 2" by (simp add: example_action_def)
  have "recorded (example_params 1) acts ns"
    by (rule recorded_more [OF recorded_start _ _ ex]) (use tid in \<open>simp_all add: new_NodeStack_def\<close>)
  moreover have "fair_small (example_params 1) ns" using nodes(1) by (simp add: fair_small_def example_params_def)
  moreover have "mp_fairwindow (example_params 1) \<noteq> 0" by (simp add: example_params_def)
  ultimately have "fi_turns (nd_fairness (ns_node_list ns ! 0) ! ma_tid ?a) =
      of_nat (card {j. j \<le> 0 \<and> node_tid acts ns j = ma_tid ?a \<and> (j = 0 \<or> 0 \<le> j + unat (mp_fairwindow (example_params 1)))})"
    using fairness_counts_window [of "example_params 1" acts ns 0 "ma_tid ?a"] nodes tid by simp
  moreover have "{j. j \<le> (0::nat) \<and> node_tid acts ns j = ma_tid ?a \<and> (j = 0 \<or> 0 \<le> j + unat (mp_fairwindow (example_params 1)))} = {0}"
    using nodes by (auto simp: node_tid_def)
  ultimately show ?thesis using ex by auto
qed

end
