(* ===== verification/DataRace.thy ===== *)
theory DataRace
  imports Action
begin

unbundle bit_operations_syntax

text \<open>
  \<open>datarace.h\<close> and \<open>datarace.cc\<close>: the detection of data races between plain memory
  accesses. For every byte the shadow memory keeps the last write and the reads since, with the
  clock of the thread at that time. The common case is packed into a 64-bit word; with several
  readers, or with thread ids or clocks that do not fit, a record is allocated. An entry of the
  shadow memory is such a word (zero at first, odd when in use) or the address of a record, which
  is even and not zero and which nothing else points to; hence the two constructors of
  \<open>shadow\<close>.
\<close>

section \<open>State\<close>

record RaceRecord =
  rr_readClock :: "modelclock_t list"
  rr_thread :: "thread_id_t list"
  rr_capacity :: nat
  rr_numReads :: nat
  rr_writeThread :: thread_id_t
  rr_writeClock :: modelclock_t

datatype shadow = Short uint64 | Record RaceRecord

record DataRace =
  dr_oldthread :: thread_id_t
  dr_oldclock :: modelclock_t
  dr_isoldwrite :: bool
  dr_newaction :: act_ref
  dr_isnewwrite :: bool
  dr_address :: addr

text \<open>
  The races not yet known to be on a feasible execution, and those asserted as bugs. What the
  detector asks the execution: whether the trace is a feasible prefix, the last action of a thread
  and its clock vector.
\<close>

record race_state =
  rs_unrealizedraces :: "DataRace list"
  rs_asserted :: "DataRace list"

record race_env =
  re_isfeasibleprefix :: bool
  re_acts :: act_store
  re_get_parent_action :: "thread_id_t \<Rightarrow> act_ref"
  re_get_cv :: "thread_id_t \<Rightarrow> ClockVector"

section \<open>Packed words\<close>

definition THREADMASK :: uint64 where "THREADMASK = 0xff"
definition READMASK :: uint64 where "READMASK = 0x07fffff"
definition WRITEMASK :: uint64 where "WRITEMASK = READMASK"

definition ISSHORTRECORD :: "uint64 \<Rightarrow> bool" where
  "ISSHORTRECORD x \<longleftrightarrow> x AND 1 \<noteq> 0"

definition RDTHREADID :: "uint64 \<Rightarrow> uint64" where
  "RDTHREADID x = drop_bit 1 x AND THREADMASK"

definition READVECTOR :: "uint64 \<Rightarrow> modelclock_t" where
  "READVECTOR x = ucast (drop_bit 9 x AND READMASK)"

definition WRTHREADID :: "uint64 \<Rightarrow> uint64" where
  "WRTHREADID x = drop_bit 32 x AND THREADMASK"

definition WRITEVECTOR :: "uint64 \<Rightarrow> modelclock_t" where
  "WRITEVECTOR x = ucast (drop_bit 40 x AND WRITEMASK)"

text \<open>The shift of the read time is at the width of \<open>modelclock_t\<close>, those of the write at 64 bits.\<close>

definition ENCODEOP :: "thread_id_t \<Rightarrow> modelclock_t \<Rightarrow> thread_id_t \<Rightarrow> modelclock_t \<Rightarrow> uint64" where
  "ENCODEOP rdthread rdtime wrthread wrtime =
     1 OR push_bit 1 (of_nat rdthread) OR ucast (push_bit 9 rdtime) OR
     push_bit 32 (of_nat wrthread) OR push_bit 40 (ucast wrtime)"

definition MAXTHREADID :: nat where "MAXTHREADID = 0xff - 1"
definition MAXREADVECTOR :: modelclock_t where "MAXREADVECTOR = 0x07fffff - 1"
definition MAXWRITEVECTOR :: modelclock_t where "MAXWRITEVECTOR = 0x07fffff - 1"
definition INITCAPACITY :: nat where "INITCAPACITY = 4"

section \<open>Races\<close>

definition clock_may_race :: "ClockVector \<Rightarrow> thread_id_t \<Rightarrow> modelclock_t \<Rightarrow> thread_id_t \<Rightarrow> bool" where
  "clock_may_race clock1 tid1 clock2 tid2 \<longleftrightarrow>
     tid1 \<noteq> tid2 \<and> clock2 \<noteq> 0 \<and> ClockVector_getClock clock1 tid2 \<le> clock2"

definition expandRecord :: "uint64 \<Rightarrow> RaceRecord" where
  "expandRecord shadowval =
     (let readClock = READVECTOR shadowval;
          readThread = int_to_id (unat (RDTHREADID shadowval));
          writeClock = WRITEVECTOR shadowval;
          writeThread = int_to_id (unat (WRTHREADID shadowval));
          record = \<lparr>rr_readClock = [], rr_thread = [], rr_capacity = 0, rr_numReads = 0,
                    rr_writeThread = writeThread, rr_writeClock = writeClock\<rparr>
      in if readClock \<noteq> 0
         then record\<lparr>rr_capacity := INITCAPACITY,
                     rr_thread := (replicate INITCAPACITY 0)[0 := readThread],
                     rr_readClock := (replicate INITCAPACITY 0)[0 := readClock],
                     rr_numReads := 1\<rparr>
         else record)"

definition assert_race :: "DataRace \<Rightarrow> race_state \<Rightarrow> race_state" where
  "assert_race race st = st\<lparr>rs_asserted := rs_asserted st @ [race]\<rparr>"

text \<open>The loop of \<open>checkDataRaces\<close>.\<close>

fun realize_races :: "act_store \<Rightarrow> DataRace list \<Rightarrow> bool \<Rightarrow> race_state \<Rightarrow> (bool \<times> race_state) option" where
  "realize_races acts [] race_asserted st = Some (race_asserted, st)"
| "realize_races acts (race # races) race_asserted st = do {
     cv \<leftarrow> ma_cv (acts (dr_newaction race));
     if clock_may_race cv (ma_tid (acts (dr_newaction race))) (dr_oldclock race) (dr_oldthread race)
     then realize_races acts races True (assert_race race st)
     else realize_races acts races race_asserted st
   }"

definition checkDataRaces :: "race_env \<Rightarrow> race_state \<Rightarrow> (bool \<times> race_state) option" where
  "checkDataRaces env st =
     (if re_isfeasibleprefix env
      then do {
        (race_asserted, st') \<leftarrow> realize_races (re_acts env) (rs_unrealizedraces st) False st;
        Some (race_asserted, st'\<lparr>rs_unrealizedraces := []\<rparr>)
      }
      else Some (False, st))"

text \<open>
  \<open>reportDataRace\<close> leaves the checked thread for good (\<open>switch_to_master\<close>) when a race is
  realized. The result \<open>Inl\<close> says so; with \<open>Inr\<close> the caller goes on.
\<close>

type_synonym 'a checked = "(race_state + 'a \<times> race_state) option"

definition and_then :: "'a checked \<Rightarrow> ('a \<Rightarrow> race_state \<Rightarrow> 'b checked) \<Rightarrow> 'b checked" where
  "and_then m f =
     (case m of
        None \<Rightarrow> None
      | Some (Inl st) \<Rightarrow> Some (Inl st)
      | Some (Inr (x, st)) \<Rightarrow> f x st)"

definition reportDataRace :: "race_env \<Rightarrow> DataRace \<Rightarrow> race_state \<Rightarrow> unit checked" where
  "reportDataRace env race st = do {
     (realized, st') \<leftarrow> checkDataRaces env (st\<lparr>rs_unrealizedraces := rs_unrealizedraces st @ [race]\<rparr>);
     Some (if realized then Inl st' else Inr ((), st'))
   }"

text \<open>The test before each report.\<close>

definition report_race ::
    "race_env \<Rightarrow> thread_id_t \<Rightarrow> addr \<Rightarrow> ClockVector \<Rightarrow> bool \<Rightarrow> thread_id_t \<times> modelclock_t \<Rightarrow> bool \<Rightarrow>
     race_state \<Rightarrow> unit checked" where
  "report_race env thread location currClock isoldwrite old isnewwrite st =
     (case old of (oldthread, oldclock) \<Rightarrow>
        if clock_may_race currClock thread oldclock oldthread
        then reportDataRace env
               \<lparr>dr_oldthread = oldthread, dr_oldclock = oldclock, dr_isoldwrite = isoldwrite,
                dr_newaction = re_get_parent_action env thread, dr_isnewwrite = isnewwrite,
                dr_address = location\<rparr> st
        else Some (Inr ((), st)))"

section \<open>Writes\<close>

fun write_vs_reads ::
    "race_env \<Rightarrow> thread_id_t \<Rightarrow> addr \<Rightarrow> ClockVector \<Rightarrow> RaceRecord \<Rightarrow> nat list \<Rightarrow> race_state \<Rightarrow> unit checked" where
  "write_vs_reads env thread location currClock record [] st = Some (Inr ((), st))"
| "write_vs_reads env thread location currClock record (i # is) st = do {
     readClock \<leftarrow> vec_at (rr_readClock record) i;
     readThread \<leftarrow> vec_at (rr_thread record) i;
     and_then (report_race env thread location currClock False (readThread, readClock) True st)
       (\<lambda>_. write_vs_reads env thread location currClock record is)
   }"

definition fullRaceCheckWrite ::
    "race_env \<Rightarrow> thread_id_t \<Rightarrow> addr \<Rightarrow> RaceRecord \<Rightarrow> ClockVector \<Rightarrow> race_state \<Rightarrow> RaceRecord checked" where
  "fullRaceCheckWrite env thread location record currClock st =
     and_then (write_vs_reads env thread location currClock record [0..<rr_numReads record] st) (\<lambda>_ st.
     and_then (report_race env thread location currClock True
                (rr_writeThread record, rr_writeClock record) True st) (\<lambda>_ st.
     Some (Inr (record\<lparr>rr_numReads := 0, rr_writeThread := thread,
                       rr_writeClock := ClockVector_getClock currClock thread\<rparr>, st))))"

definition raceCheckWrite ::
    "race_env \<Rightarrow> thread_id_t \<Rightarrow> addr \<Rightarrow> shadow \<Rightarrow> race_state \<Rightarrow> shadow checked" where
  "raceCheckWrite env thread location entry st =
     (let currClock = re_get_cv env thread
      in case entry of
           Record record \<Rightarrow>
             and_then (fullRaceCheckWrite env thread location record currClock st)
               (\<lambda>r st. Some (Inr (Record r, st)))
         | Short shadowval \<Rightarrow>
             let threadid = id_to_int thread;
                 ourClock = ClockVector_getClock currClock thread
             in if threadid > MAXTHREADID \<or> ourClock > MAXWRITEVECTOR
                then and_then (fullRaceCheckWrite env thread location (expandRecord shadowval) currClock st)
                       (\<lambda>r st. Some (Inr (Record r, st)))
                else
                  and_then (report_race env thread location currClock False
                    (int_to_id (unat (RDTHREADID shadowval)), READVECTOR shadowval) True st) (\<lambda>_ st.
                  and_then (report_race env thread location currClock True
                    (int_to_id (unat (WRTHREADID shadowval)), WRITEVECTOR shadowval) True st) (\<lambda>_ st.
                  Some (Inr (Short (ENCODEOP 0 0 threadid ourClock), st)))))"

section \<open>Reads\<close>

text \<open>The loop that drops the reads the new one subsumes; it returns the record and \<open>copytoindex\<close>.\<close>

definition shorten_step ::
    "thread_id_t \<Rightarrow> ClockVector \<Rightarrow> nat \<Rightarrow> RaceRecord \<times> nat \<Rightarrow> (RaceRecord \<times> nat) option" where
  "shorten_step thread currClock i rc =
     (case rc of (record, copytoindex) \<Rightarrow> do {
        readClock \<leftarrow> vec_at (rr_readClock record) i;
        readThread \<leftarrow> vec_at (rr_thread record) i;
        if clock_may_race currClock thread readClock readThread
        then do {
          ASSERT (copytoindex < length (rr_readClock record) \<and> copytoindex < length (rr_thread record));
          Some (if copytoindex \<noteq> i
                then record\<lparr>rr_readClock := (rr_readClock record)[copytoindex := readClock],
                            rr_thread := (rr_thread record)[copytoindex := readThread]\<rparr>
                else record, copytoindex + 1)
        }
        else Some (record, copytoindex)
      })"

definition grow_record :: "RaceRecord \<Rightarrow> RaceRecord" where
  "grow_record record =
     (let newCapacity = rr_capacity record * 2
      in record\<lparr>rr_readClock := memcpy (replicate newCapacity 0) (rr_readClock record) (rr_capacity record),
                rr_thread := memcpy (replicate newCapacity 0) (rr_thread record) (rr_capacity record),
                rr_capacity := newCapacity\<rparr>)"

definition fullRaceCheckRead ::
    "race_env \<Rightarrow> thread_id_t \<Rightarrow> addr \<Rightarrow> RaceRecord \<Rightarrow> ClockVector \<Rightarrow> race_state \<Rightarrow> RaceRecord checked" where
  "fullRaceCheckRead env thread location record currClock st =
     and_then (report_race env thread location currClock True
                (rr_writeThread record, rr_writeClock record) False st) (\<lambda>_ st. do {
     (record, copytoindex) \<leftarrow> foldM (shorten_step thread currClock) [0..<rr_numReads record] (record, 0);
     let record = (if copytoindex \<ge> rr_capacity record then grow_record record else record);
     let ourClock = ClockVector_getClock currClock thread;
     ASSERT (copytoindex < length (rr_thread record) \<and> copytoindex < length (rr_readClock record));
     Some (Inr (record\<lparr>rr_thread := (rr_thread record)[copytoindex := thread],
                       rr_readClock := (rr_readClock record)[copytoindex := ourClock],
                       rr_numReads := copytoindex + 1\<rparr>, st))
   })"

definition raceCheckRead ::
    "race_env \<Rightarrow> thread_id_t \<Rightarrow> addr \<Rightarrow> shadow \<Rightarrow> race_state \<Rightarrow> shadow checked" where
  "raceCheckRead env thread location entry st =
     (let currClock = re_get_cv env thread;
          full = (\<lambda>record st. and_then (fullRaceCheckRead env thread location record currClock st)
                                (\<lambda>r st. Some (Inr (Record r, st))))
      in case entry of
           Record record \<Rightarrow> full record st
         | Short shadowval \<Rightarrow>
             let threadid = id_to_int thread;
                 ourClock = ClockVector_getClock currClock thread
             in if threadid > MAXTHREADID \<or> ourClock > MAXWRITEVECTOR
                then full (expandRecord shadowval) st
                else
                  let writeClock = WRITEVECTOR shadowval;
                      writeThread = int_to_id (unat (WRTHREADID shadowval))
                  in and_then (report_race env thread location currClock True
                       (writeThread, writeClock) False st) (\<lambda>_ st.
                     let readClock = READVECTOR shadowval;
                         readThread = int_to_id (unat (RDTHREADID shadowval))
                     in if clock_may_race currClock thread readClock readThread
                        then full (expandRecord shadowval) st
                        else Some (Inr (Short (ENCODEOP threadid ourClock (id_to_int writeThread) writeClock), st))))"

definition haveUnrealizedRaces :: "race_state \<Rightarrow> bool" where
  "haveUnrealizedRaces st \<longleftrightarrow> rs_unrealizedraces st \<noteq> []"

section \<open>The shadow table\<close>

text \<open>
  Three levels of 65536 entries each, indexed by 16 bits of the address. The lookup allocates
  missing tables, zeroed, and yields the position of the entry.
\<close>

type_synonym ShadowBaseTable = "16 word \<Rightarrow> shadow"
type_synonym ShadowTable = "16 word \<Rightarrow> ShadowBaseTable option"
type_synonym shadow_root = "16 word \<Rightarrow> ShadowTable option"

definition initRaceDetector :: "shadow_root \<times> race_state" where
  "initRaceDetector = (\<lambda>_. None, \<lparr>rs_unrealizedraces = [], rs_asserted = []\<rparr>)"

definition table_index :: "nat \<Rightarrow> addr \<Rightarrow> 16 word" where
  "table_index shift address = ucast (drop_bit shift address AND 0xffff)"

definition lookupAddressEntry :: "shadow_root \<Rightarrow> addr \<Rightarrow> shadow_root \<times> (16 word \<times> 16 word \<times> 16 word)" where
  "lookupAddressEntry root address =
     (let i = table_index 32 address;
          j = table_index 16 address;
          k = table_index 0 address;
          currtable = (case root i of None \<Rightarrow> (\<lambda>_. None) | Some t \<Rightarrow> t);
          basetable = (case currtable j of None \<Rightarrow> (\<lambda>_. Short 0) | Some t \<Rightarrow> t)
      in (root(i \<mapsto> currtable(j \<mapsto> basetable)), (i, j, k)))"

definition read_entry :: "shadow_root \<Rightarrow> 16 word \<times> 16 word \<times> 16 word \<Rightarrow> shadow option" where
  "read_entry root p = (case p of (i, j, k) \<Rightarrow> do { t \<leftarrow> root i; b \<leftarrow> t j; Some (b k) })"

definition write_entry :: "shadow_root \<Rightarrow> 16 word \<times> 16 word \<times> 16 word \<Rightarrow> shadow \<Rightarrow> shadow_root option" where
  "write_entry root p e =
     (case p of (i, j, k) \<Rightarrow> do { t \<leftarrow> root i; b \<leftarrow> t j; Some (root(i \<mapsto> t(j \<mapsto> b(k := e)))) })"

end
