(* ===== verification/RaceSpec.thy ===== *)
theory RaceSpec
  imports DataRace
begin

unbundle bit_operations_syntax

text \<open>
  What the race detector promises: the packed form loses nothing, the two forms of an entry refine
  one simple history (the last write and the reads after it), and the shadow table is a map on
  48-bit addresses. The one case in which the detector writes outside an array is characterised.
\<close>

section \<open>The packed form\<close>

lemma mask_THREADMASK: "THREADMASK = mask 8" and mask_READMASK: "READMASK = mask 23"
  by (simp_all add: THREADMASK_def READMASK_def mask_eq_exp_minus_1)

lemma bit_small_nat:
  assumes "(w :: nat) < 2 ^ k" and "bit w n"
  shows "n < k"
proof (rule ccontr)
  assume "\<not> n < k"
  moreover have "w = take_bit k w" using assms(1) by (simp only: take_bit_nat_eq_self)
  ultimately show False using assms(2) by (metis bit_take_bit_iff)
qed

lemma bit_small: "unat (w :: 'a::len word) < 2 ^ k \<Longrightarrow> bit w n \<Longrightarrow> n < k"
  by (rule bit_small_nat [of "unat w"]) (simp_all add: bit_unsigned_iff)

lemma bit_thread: "t < 256 \<Longrightarrow> bit (of_nat t :: uint64) n \<Longrightarrow> n < 8"
  by (rule bit_small_nat [of t]) (simp_all add: bit_of_nat_iff)

lemma bit_ENCODEOP:
  assumes "rdthread < 256" "unat rdtime < 2 ^ 23" "wrthread < 256" "unat wrtime < 2 ^ 23"
  shows "bit (ENCODEOP rdthread rdtime wrthread wrtime) n \<longleftrightarrow>
    n = 0 \<or> 1 \<le> n \<and> n < 9 \<and> bit (of_nat rdthread :: uint64) (n - 1) \<or>
    9 \<le> n \<and> n < 32 \<and> bit rdtime (n - 9) \<or>
    32 \<le> n \<and> n < 40 \<and> bit (of_nat wrthread :: uint64) (n - 32) \<or>
    40 \<le> n \<and> n < 63 \<and> bit wrtime (n - 40)"
proof -
  have rt: "bit (of_nat rdthread :: uint64) m \<Longrightarrow> m < 8" for m by (rule bit_thread [OF assms(1)])
  have wt: "bit (of_nat wrthread :: uint64) m \<Longrightarrow> m < 8" for m by (rule bit_thread [OF assms(3)])
  have rc: "bit rdtime m \<Longrightarrow> m < 23" and wc: "bit wrtime m \<Longrightarrow> m < 23" for m
    using bit_small [OF assms(2)] bit_small [OF assms(4)] by blast+
  have e0: "bit (1 :: uint64) n \<longleftrightarrow> n = 0" by (simp add: bit_1_iff)
  have e1: "bit (push_bit 1 (of_nat rdthread) :: uint64) n \<longleftrightarrow> 1 \<le> n \<and> n < 9 \<and> bit (of_nat rdthread :: uint64) (n - 1)"
    unfolding bit_push_bit_iff using rt [of "n - 1"] by auto
  have e2: "bit (ucast (push_bit 9 rdtime) :: uint64) n \<longleftrightarrow> 9 \<le> n \<and> n < 32 \<and> bit rdtime (n - 9)"
    using rc [of "n - 9"] by (auto simp: bit_ucast_iff bit_push_bit_iff)
  have e3: "bit (push_bit 32 (of_nat wrthread) :: uint64) n \<longleftrightarrow> 32 \<le> n \<and> n < 40 \<and> bit (of_nat wrthread :: uint64) (n - 32)"
    using wt [of "n - 32"] by (auto simp: bit_push_bit_iff)
  have e4: "bit (push_bit 40 (ucast wrtime) :: uint64) n \<longleftrightarrow> 40 \<le> n \<and> n < 63 \<and> bit wrtime (n - 40)"
    using wc [of "n - 40"] by (auto simp: bit_push_bit_iff bit_ucast_iff)
  show ?thesis unfolding ENCODEOP_def bit_or_iff e0 e1 e2 e3 e4 by blast
qed

lemma decode_ENCODEOP:
  assumes "rdthread < 256" "unat rdtime < 2 ^ 23" "wrthread < 256" "unat wrtime < 2 ^ 23"
  shows "ISSHORTRECORD (ENCODEOP rdthread rdtime wrthread wrtime)"
    and "RDTHREADID (ENCODEOP rdthread rdtime wrthread wrtime) = of_nat rdthread"
    and "READVECTOR (ENCODEOP rdthread rdtime wrthread wrtime) = rdtime"
    and "WRTHREADID (ENCODEOP rdthread rdtime wrthread wrtime) = of_nat wrthread"
    and "WRITEVECTOR (ENCODEOP rdthread rdtime wrthread wrtime) = wrtime"
proof -
  note enc = bit_ENCODEOP [OF assms]
  have rt: "bit (of_nat rdthread :: uint64) m \<Longrightarrow> m < 8" for m by (rule bit_thread [OF assms(1)])
  have wt: "bit (of_nat wrthread :: uint64) m \<Longrightarrow> m < 8" for m by (rule bit_thread [OF assms(3)])
  have rc: "bit rdtime m \<Longrightarrow> m < 23" and wc: "bit wrtime m \<Longrightarrow> m < 23" for m
    using bit_small [OF assms(2)] bit_small [OF assms(4)] by blast+
  show "ISSHORTRECORD (ENCODEOP rdthread rdtime wrthread wrtime)"
    using enc [of 0] by (auto simp: ISSHORTRECORD_def and_one_eq odd_iff_mod_2_eq_one bit_0)
  show "RDTHREADID (ENCODEOP rdthread rdtime wrthread wrtime) = of_nat rdthread"
    by (rule bit_word_eqI) (use rt in \<open>auto simp: RDTHREADID_def mask_THREADMASK bit_and_iff bit_drop_bit_eq bit_mask_iff enc\<close>)
  show "WRTHREADID (ENCODEOP rdthread rdtime wrthread wrtime) = of_nat wrthread"
    by (rule bit_word_eqI) (use wt in \<open>auto simp: WRTHREADID_def mask_THREADMASK bit_and_iff bit_drop_bit_eq bit_mask_iff enc\<close>)
  show "READVECTOR (ENCODEOP rdthread rdtime wrthread wrtime) = rdtime"
    by (rule bit_word_eqI) (use rc in \<open>auto simp: READVECTOR_def mask_READMASK bit_ucast_iff bit_and_iff bit_drop_bit_eq bit_mask_iff enc\<close>)
  show "WRITEVECTOR (ENCODEOP rdthread rdtime wrthread wrtime) = wrtime"
    by (rule bit_word_eqI) (use wc in \<open>auto simp: WRITEVECTOR_def WRITEMASK_def mask_READMASK bit_ucast_iff bit_and_iff bit_drop_bit_eq bit_mask_iff enc\<close>)
qed

lemma decode_bounds:
  "unat (RDTHREADID w) < 256" "unat (WRTHREADID w) < 256"
  "unat (READVECTOR w) < 2 ^ 23" "unat (WRITEVECTOR w) < 2 ^ 23"
proof -
  have thr: "unat (x AND THREADMASK) < 256" for x :: uint64
    using take_bit_nat_less_exp [of 8 "unat x"]
    by (simp add: mask_THREADMASK flip: take_bit_eq_mask) (simp add: unsigned_take_bit_eq)
  have clk: "unat (ucast (x AND READMASK) :: 32 word) < 2 ^ 23" for x :: uint64
    using take_bit_nat_less_exp [of 23 "unat x"]
    by (simp add: mask_READMASK flip: take_bit_eq_mask) (simp add: unsigned_ucast_eq unsigned_take_bit_eq)
  show "unat (RDTHREADID w) < 256" "unat (WRTHREADID w) < 256"
    "unat (READVECTOR w) < 2 ^ 23" "unat (WRITEVECTOR w) < 2 ^ 23"
    unfolding RDTHREADID_def WRTHREADID_def READVECTOR_def WRITEVECTOR_def WRITEMASK_def by (rule thr clk)+
qed

section \<open>Histories\<close>

text \<open>
  The abstract content of an entry: the last write and the reads since, as pairs of a thread and
  its clock; a clock of zero stands for no access.
\<close>

type_synonym access = "thread_id_t \<times> modelclock_t"

definition compact_reads :: "access \<Rightarrow> access list" where
  "compact_reads a = (if snd a = 0 then [] else [a])"

definition history :: "shadow \<Rightarrow> access \<times> access list" where
  "history entry =
     (case entry of
        Short w \<Rightarrow> ((unat (WRTHREADID w), WRITEVECTOR w), compact_reads (unat (RDTHREADID w), READVECTOR w))
      | Record r \<Rightarrow> ((rr_writeThread r, rr_writeClock r),
                      take (rr_numReads r) (zip (rr_thread r) (rr_readClock r))))"

definition record_wf :: "RaceRecord \<Rightarrow> bool" where
  "record_wf r \<longleftrightarrow>
     length (rr_readClock r) = rr_capacity r \<and> length (rr_thread r) = rr_capacity r \<and>
     rr_numReads r \<le> rr_capacity r"

definition entry_wf :: "shadow \<Rightarrow> bool" where
  "entry_wf entry = (case entry of Short _ \<Rightarrow> True | Record r \<Rightarrow> record_wf r)"

definition racing :: "ClockVector \<Rightarrow> thread_id_t \<Rightarrow> access \<Rightarrow> bool" where
  "racing cv thread a = clock_may_race cv thread (snd a) (fst a)"

text \<open>What a write and a read do to the history.\<close>

definition spec_write :: "ClockVector \<Rightarrow> thread_id_t \<Rightarrow> access \<times> access list \<Rightarrow> access \<times> access list" where
  "spec_write cv thread h = ((thread, ClockVector_getClock cv thread), [])"

definition spec_read :: "ClockVector \<Rightarrow> thread_id_t \<Rightarrow> access \<times> access list \<Rightarrow> access \<times> access list" where
  "spec_read cv thread h =
     (fst h, filter (racing cv thread) (snd h) @ [(thread, ClockVector_getClock cv thread)])"

text \<open>The accesses that race with a write, reads first, and with a read.\<close>

definition write_races :: "ClockVector \<Rightarrow> thread_id_t \<Rightarrow> access \<times> access list \<Rightarrow> (bool \<times> access) list" where
  "write_races cv thread h =
     map (Pair False) (filter (racing cv thread) (snd h)) @ map (Pair True) (filter (racing cv thread) [fst h])"

definition read_races :: "ClockVector \<Rightarrow> thread_id_t \<Rightarrow> access \<times> access list \<Rightarrow> (bool \<times> access) list" where
  "read_races cv thread h = map (Pair True) (filter (racing cv thread) [fst h])"

definition mk_race :: "race_env \<Rightarrow> thread_id_t \<Rightarrow> addr \<Rightarrow> bool \<Rightarrow> bool \<times> access \<Rightarrow> DataRace" where
  "mk_race env thread location isnewwrite ra =
     \<lparr>dr_oldthread = fst (snd ra), dr_oldclock = snd (snd ra), dr_isoldwrite = fst ra,
      dr_newaction = re_get_parent_action env thread, dr_isnewwrite = isnewwrite, dr_address = location\<rparr>"

section \<open>Reporting\<close>

text \<open>
  The environment is consistent: the clock vector of a thread is that of its last action and counts it, and
  nothing is pending when the execution is a feasible prefix.
\<close>

definition env_ok :: "race_env \<Rightarrow> thread_id_t \<Rightarrow> race_state \<Rightarrow> bool" where
  "env_ok env thread st \<longleftrightarrow>
     ma_cv (re_acts env (re_get_parent_action env thread)) = Some (re_get_cv env thread) \<and>
     ma_tid (re_acts env (re_get_parent_action env thread)) = thread \<and>
     ClockVector_getClock (re_get_cv env thread) thread \<noteq> 0 \<and>
     (re_isfeasibleprefix env \<longrightarrow> rs_unrealizedraces st = [])"

text \<open>
  The outcome for a list of races: on a feasible prefix the first ends the execution, otherwise all
  are kept for later.
\<close>

definition outcome :: "race_env \<Rightarrow> race_state \<Rightarrow> DataRace list \<Rightarrow> 'a \<Rightarrow> race_state + 'a \<times> race_state" where
  "outcome env st races x =
     (if re_isfeasibleprefix env
      then (case races of [] \<Rightarrow> Inr (x, st) | r # _ \<Rightarrow> Inl (assert_race r st))
      else Inr (x, st\<lparr>rs_unrealizedraces := rs_unrealizedraces st @ races\<rparr>))"

lemma outcome_Nil [simp]: "outcome env st [] x = Inr (x, st)"
  by (simp add: outcome_def)

lemma report_race_outcome:
  assumes "env_ok env thread st"
  shows "report_race env thread location (re_get_cv env thread) isold old isnew st =
    Some (outcome env st (map (mk_race env thread location isnew) (map (Pair isold) (filter (racing (re_get_cv env thread) thread) [old]))) ())"
proof (cases "racing (re_get_cv env thread) thread old")
  case True
  then have r: "clock_may_race (re_get_cv env thread) thread (snd old) (fst old)" by (simp add: racing_def)
  show ?thesis
  proof (cases "re_isfeasibleprefix env")
    case feasible: True
    with assms r True show ?thesis
      by (simp add: report_race_def reportDataRace_def checkDataRaces_def outcome_def env_ok_def mk_race_def
          assert_race_def split_beta)
  next
    case False
    with r True show ?thesis
      by (simp add: report_race_def reportDataRace_def checkDataRaces_def outcome_def mk_race_def split_beta)
  qed
next
  case False
  then show ?thesis by (simp add: report_race_def racing_def split_beta)
qed

lemma and_then_simps [simp]:
  "and_then None f = None" "and_then (Some (Inl st)) f = Some (Inl st)" "and_then (Some (Inr (x, st))) f = f x st"
  by (simp_all add: and_then_def)

lemma env_ok_append: "\<not> re_isfeasibleprefix env \<Longrightarrow> env_ok env thread st \<Longrightarrow>
    env_ok env thread (st\<lparr>rs_unrealizedraces := rs\<rparr>)"
  by (simp add: env_ok_def)

text \<open>One report after the other.\<close>

lemma outcome_seq:
  assumes "env_ok env thread st"
    and "\<And>st'. env_ok env thread st' \<Longrightarrow> f x st' = Some (outcome env st' rs' y)"
  shows "and_then (Some (outcome env st rs x)) f = Some (outcome env st (rs @ rs') y)"
proof (cases "re_isfeasibleprefix env")
  case True
  then show ?thesis using assms(2) [OF assms(1)] by (cases rs) (simp_all add: outcome_def)
next
  case False
  then show ?thesis using assms(2) [OF env_ok_append [OF False assms(1)]] by (simp add: outcome_def)
qed

lemma outcome_map:
  "and_then (Some (outcome env st rs x)) (\<lambda>r st. Some (Inr (g r, st))) = Some (outcome env st rs (g x))"
  by (auto simp: outcome_def split: list.splits)

section \<open>Writes\<close>

lemma reads_map: "record_wf r \<Longrightarrow> n \<le> rr_capacity r \<Longrightarrow>
    take n (zip (rr_thread r) (rr_readClock r)) = map (\<lambda>i. (rr_thread r ! i, rr_readClock r ! i)) [0..<n]"
  by (intro nth_equalityI) (auto simp: record_wf_def)

lemma write_vs_reads_outcome:
  assumes "env_ok env thread st" and "record_wf r" and "set is \<subseteq> {..<rr_capacity r}"
  shows "write_vs_reads env thread location (re_get_cv env thread) r is st =
    Some (outcome env st (map (mk_race env thread location True) (map (Pair False)
      (filter (racing (re_get_cv env thread) thread) (map (\<lambda>i. (rr_thread r ! i, rr_readClock r ! i)) is)))) ())"
  using assms(1,3)
proof (induction "is" arbitrary: st)
  case (Cons i "is")
  let ?mk = "mk_race env thread location True" and ?old = "(rr_thread r ! i, rr_readClock r ! i)"
  let ?racing = "racing (re_get_cv env thread) thread"
  have i: "vec_at (rr_readClock r) i = Some (rr_readClock r ! i)" "vec_at (rr_thread r) i = Some (rr_thread r ! i)"
    using Cons.prems(2) assms(2) by (auto simp: record_wf_def)
  have "write_vs_reads env thread location (re_get_cv env thread) r (i # is) st =
    and_then (Some (outcome env st (map ?mk (map (Pair False) (filter ?racing [?old]))) ()))
      (\<lambda>_. write_vs_reads env thread location (re_get_cv env thread) r is)"
    by (simp only: write_vs_reads.simps i bind.bind_lunit report_race_outcome [OF Cons.prems(1)])
  also have "\<dots> = Some (outcome env st (map ?mk (map (Pair False) (filter ?racing [?old])) @
      map ?mk (map (Pair False) (filter ?racing (map (\<lambda>i. (rr_thread r ! i, rr_readClock r ! i)) is)))) ())"
    using Cons.IH Cons.prems(2) by (intro outcome_seq [OF Cons.prems(1)]) simp
  also have "map ?mk (map (Pair False) (filter ?racing [?old])) @
      map ?mk (map (Pair False) (filter ?racing (map (\<lambda>i. (rr_thread r ! i, rr_readClock r ! i)) is))) =
      map ?mk (map (Pair False) (filter ?racing (map (\<lambda>i. (rr_thread r ! i, rr_readClock r ! i)) (i # is))))"
    by simp
  finally show ?case .
qed simp

lemma fullRaceCheckWrite_outcome:
  assumes "env_ok env thread st" and "record_wf r"
  shows "\<exists>r'. fullRaceCheckWrite env thread location r (re_get_cv env thread) st =
      Some (outcome env st (map (mk_race env thread location True)
        (write_races (re_get_cv env thread) thread (history (Record r)))) r') \<and>
    record_wf r' \<and> history (Record r') = spec_write (re_get_cv env thread) thread (history (Record r))"
proof (intro exI conjI)
  let ?cv = "re_get_cv env thread" and ?mk = "mk_race env thread location True"
  let ?r' = "r\<lparr>rr_numReads := 0, rr_writeThread := thread, rr_writeClock := ClockVector_getClock ?cv thread\<rparr>"
  let ?w = "(rr_writeThread r, rr_writeClock r)"
  have n: "rr_numReads r \<le> rr_capacity r" using assms(2) by (simp add: record_wf_def)
  have idx: "set [0..<rr_numReads r] \<subseteq> {..<rr_capacity r}" using n by auto
  have last: "and_then (report_race env thread location ?cv True ?w True st') (\<lambda>_ st. Some (Inr (?r', st))) =
      Some (outcome env st' (map ?mk (map (Pair True) (filter (racing ?cv thread) [?w]))) ?r')"
    if "env_ok env thread st'" for st'
    unfolding report_race_outcome [OF that] by (rule outcome_map [where g = "\<lambda>_. ?r'"])
  have "fullRaceCheckWrite env thread location r ?cv st =
      Some (outcome env st (map ?mk (map (Pair False) (filter (racing ?cv thread)
          (map (\<lambda>i. (rr_thread r ! i, rr_readClock r ! i)) [0..<rr_numReads r]))) @
        map ?mk (map (Pair True) (filter (racing ?cv thread) [?w]))) ?r')"
    unfolding fullRaceCheckWrite_def write_vs_reads_outcome [OF assms(1,2) idx]
    by (rule outcome_seq [OF assms(1)]) (rule last)
  then show "fullRaceCheckWrite env thread location r ?cv st =
      Some (outcome env st (map ?mk (write_races ?cv thread (history (Record r)))) ?r')"
    by (simp add: write_races_def history_def reads_map [OF assms(2) n])
  show "record_wf ?r'" using assms(2) by (simp add: record_wf_def)
  show "history (Record ?r') = spec_write ?cv thread (history (Record r))"
    by (simp add: history_def spec_write_def)
qed

lemma expandRecord_history:
  "record_wf (expandRecord w)" "history (Record (expandRecord w)) = history (Short w)"
  by (simp_all add: expandRecord_def record_wf_def history_def compact_reads_def INITCAPACITY_def int_to_id_def
      numeral_eq_Suc Let_def)

lemma racing_compact: "filter (racing cv thread) (compact_reads a) = filter (racing cv thread) [a]"
  by (simp add: compact_reads_def racing_def clock_may_race_def)

lemma clock_bound: "\<not> c > MAXWRITEVECTOR \<Longrightarrow> unat c < 2 ^ 23"
  by (simp add: MAXWRITEVECTOR_def word_less_nat_alt)

lemma thread_bound: "\<not> t > MAXTHREADID \<Longrightarrow> t < 256"
  by (simp add: MAXTHREADID_def)

lemma unat_of_small [simp]: "t < 256 \<Longrightarrow> unat (of_nat t :: uint64) = t"
  by (simp add: unat_of_nat)

lemma raceCheckWrite_outcome:
  assumes "env_ok env thread st" and "entry_wf e"
  shows "\<exists>e'. raceCheckWrite env thread location e st =
      Some (outcome env st (map (mk_race env thread location True)
        (write_races (re_get_cv env thread) thread (history e))) e') \<and>
    entry_wf e' \<and> history e' = spec_write (re_get_cv env thread) thread (history e)"
proof -
  let ?cv = "re_get_cv env thread" and ?mk = "mk_race env thread location True"
  let ?clk = "ClockVector_getClock ?cv thread"
  have full: "\<exists>e'. and_then (fullRaceCheckWrite env thread location r ?cv st) (\<lambda>r st. Some (Inr (Record r, st))) =
      Some (outcome env st (map ?mk (write_races ?cv thread (history (Record r)))) e') \<and>
      entry_wf e' \<and> history e' = spec_write ?cv thread (history (Record r))" if "record_wf r" for r
    using fullRaceCheckWrite_outcome [OF assms(1) that, of location] outcome_map [where g = Record]
    by (fastforce simp: entry_wf_def)
  show ?thesis
  proof (cases e)
    case (Record r)
    then show ?thesis using full assms(2) by (simp add: raceCheckWrite_def Let_def entry_wf_def)
  next
    case (Short w)
    show ?thesis
    proof (cases "thread > MAXTHREADID \<or> ?clk > MAXWRITEVECTOR")
      case True
      then show ?thesis using full [OF expandRecord_history(1)] Short
        by (simp add: raceCheckWrite_def Let_def id_to_int_def expandRecord_history(2))
    next
      case False
      let ?r = "(unat (RDTHREADID w), READVECTOR w)" and ?w = "(unat (WRTHREADID w), WRITEVECTOR w)"
      let ?e = "Short (ENCODEOP 0 0 thread ?clk)"
      have last: "and_then (report_race env thread location ?cv True ?w True st') (\<lambda>_ st. Some (Inr (?e, st))) =
          Some (outcome env st' (map ?mk (map (Pair True) (filter (racing ?cv thread) [?w]))) ?e)"
        if "env_ok env thread st'" for st'
        unfolding report_race_outcome [OF that] by (rule outcome_map [where g = "\<lambda>_. ?e"])
      have "raceCheckWrite env thread location e st =
        and_then (report_race env thread location ?cv False ?r True st) (\<lambda>_ st.
        and_then (report_race env thread location ?cv True ?w True st) (\<lambda>_ st. Some (Inr (?e, st))))"
        using False Short by (simp add: raceCheckWrite_def Let_def id_to_int_def int_to_id_def)
      also have "\<dots> = Some (outcome env st (map ?mk (map (Pair False) (filter (racing ?cv thread) [?r])) @
          map ?mk (map (Pair True) (filter (racing ?cv thread) [?w]))) ?e)"
        unfolding report_race_outcome [OF assms(1)] by (rule outcome_seq [OF assms(1)]) (rule last)
      also have "map ?mk (map (Pair False) (filter (racing ?cv thread) [?r])) @
          map ?mk (map (Pair True) (filter (racing ?cv thread) [?w])) = map ?mk (write_races ?cv thread (history e))"
        using Short racing_compact [of ?cv thread ?r] by (simp add: write_races_def history_def)
      finally show ?thesis
        using False clock_bound [of ?clk] thread_bound [of thread]
        by (intro exI [of _ ?e]) (simp add: entry_wf_def history_def decode_ENCODEOP compact_reads_def spec_write_def)
    qed
  qed
qed

section \<open>Reads\<close>

text \<open>What the shortening loop has done after \<open>m\<close> steps.\<close>

lemma shorten_loop:
  assumes "record_wf r" and "m \<le> rr_numReads r"
  shows "\<exists>r' c. foldM (shorten_step thread cv) [0..<m] (r, 0) = Some (r', c) \<and>
    record_wf r' \<and> rr_capacity r' = rr_capacity r \<and> rr_numReads r' = rr_numReads r \<and>
    rr_writeThread r' = rr_writeThread r \<and> rr_writeClock r' = rr_writeClock r \<and> c \<le> m \<and>
    take c (zip (rr_thread r') (rr_readClock r')) =
      filter (racing cv thread) (take m (zip (rr_thread r) (rr_readClock r))) \<and>
    (\<forall>j \<ge> m. j < rr_capacity r \<longrightarrow> rr_thread r' ! j = rr_thread r ! j \<and> rr_readClock r' ! j = rr_readClock r ! j)"
  using assms(2)
proof (induction m)
  case 0
  then show ?case using assms(1) by simp
next
  case (Suc m)
  then obtain r' c where IH: "foldM (shorten_step thread cv) [0..<m] (r, 0) = Some (r', c)"
    "record_wf r'" "rr_capacity r' = rr_capacity r" "rr_numReads r' = rr_numReads r"
    "rr_writeThread r' = rr_writeThread r" "rr_writeClock r' = rr_writeClock r" "c \<le> m"
    "take c (zip (rr_thread r') (rr_readClock r')) =
      filter (racing cv thread) (take m (zip (rr_thread r) (rr_readClock r)))"
    "\<forall>j \<ge> m. j < rr_capacity r \<longrightarrow> rr_thread r' ! j = rr_thread r ! j \<and> rr_readClock r' ! j = rr_readClock r ! j"
    by auto
  have m: "m < rr_capacity r" using Suc.prems assms(1) by (simp add: record_wf_def)
  have len: "length (rr_thread r') = rr_capacity r" "length (rr_readClock r') = rr_capacity r"
    "length (rr_thread r) = rr_capacity r" "length (rr_readClock r) = rr_capacity r"
    using IH(2,3) assms(1) by (simp_all add: record_wf_def)
  let ?a = "(rr_thread r ! m, rr_readClock r ! m)"
  have snoc: "take (Suc m) (zip (rr_thread r) (rr_readClock r)) = take m (zip (rr_thread r) (rr_readClock r)) @ [?a]"
    using m len by (simp add: take_Suc_conv_app_nth)
  have at: "rr_thread r' ! m = rr_thread r ! m" "rr_readClock r' ! m = rr_readClock r ! m" using IH(9) m by auto
  show ?case
  proof (cases "racing cv thread ?a")
    case False
    then have "shorten_step thread cv m (r', c) = Some (r', c)"
      using m len at by (simp add: shorten_step_def vec_at_def racing_def)
    then show ?thesis using IH snoc False by (simp add: foldM_append)
  next
    case True
    let ?r = "r'\<lparr>rr_readClock := (rr_readClock r')[c := rr_readClock r ! m],
                  rr_thread := (rr_thread r')[c := rr_thread r ! m]\<rparr>"
    have "shorten_step thread cv m (r', c) = Some (?r, Suc c)"
    proof (cases "c = m")
      case eq: True
      have "?r = r'" using eq at m len by simp (metis list_update_id RaceRecord.surjective RaceRecord.update_convs(1,2))
      then show ?thesis using m len at True eq by (simp add: shorten_step_def vec_at_def racing_def)
    next
      case False
      then show ?thesis using m len at True IH(7) by (simp add: shorten_step_def vec_at_def racing_def)
    qed
    moreover have "take (Suc c) (zip (rr_thread ?r) (rr_readClock ?r)) =
        take c (zip (rr_thread r') (rr_readClock r')) @ [?a]"
      using IH(7) m len by (simp add: take_Suc_conv_app_nth take_zip)
    moreover have "record_wf ?r" using IH(2) by (simp add: record_wf_def)
    ultimately show ?thesis using IH snoc True
      by (intro exI [of _ ?r] exI [of _ "Suc c"]) (simp add: foldM_append)
  qed
qed

lemma grow_record_wf:
  assumes "record_wf r"
  shows "record_wf (grow_record r)"
    "take (rr_capacity r) (zip (rr_thread (grow_record r)) (rr_readClock (grow_record r))) = zip (rr_thread r) (rr_readClock r)"
    "rr_writeThread (grow_record r) = rr_writeThread r" "rr_writeClock (grow_record r) = rr_writeClock r"
    "rr_capacity (grow_record r) = 2 * rr_capacity r"
  using assms by (auto simp: grow_record_def record_wf_def memcpy_def Let_def take_zip)

lemma append_read:
  assumes "record_wf r" and "c < rr_capacity r"
  shows "record_wf (r\<lparr>rr_thread := (rr_thread r)[c := t], rr_readClock := (rr_readClock r)[c := k], rr_numReads := c + 1\<rparr>)"
    and "history (Record (r\<lparr>rr_thread := (rr_thread r)[c := t], rr_readClock := (rr_readClock r)[c := k], rr_numReads := c + 1\<rparr>)) =
      ((rr_writeThread r, rr_writeClock r), take c (zip (rr_thread r) (rr_readClock r)) @ [(t, k)])"
  using assms by (auto simp: record_wf_def history_def take_Suc_conv_app_nth take_zip)

lemma fullRaceCheckRead_outcome:
  assumes "record_wf r" and "0 < rr_capacity r"
  shows "\<exists>r'. record_wf r' \<and> history (Record r') = spec_read (re_get_cv env thread) thread (history (Record r)) \<and>
    (\<forall>st. env_ok env thread st \<longrightarrow>
      fullRaceCheckRead env thread location r (re_get_cv env thread) st =
      Some (outcome env st (map (mk_race env thread location False)
        (read_races (re_get_cv env thread) thread (history (Record r)))) r'))"
proof -
  let ?cv = "re_get_cv env thread"
  from shorten_loop [OF assms(1) order_refl] obtain r1 c where
    loop: "foldM (shorten_step thread ?cv) [0..<rr_numReads r] (r, 0) = Some (r1, c)"
    and r1: "record_wf r1" "rr_capacity r1 = rr_capacity r" "rr_writeThread r1 = rr_writeThread r"
      "rr_writeClock r1 = rr_writeClock r" "c \<le> rr_numReads r"
      "take c (zip (rr_thread r1) (rr_readClock r1)) =
        filter (racing ?cv thread) (take (rr_numReads r) (zip (rr_thread r) (rr_readClock r)))" by blast
  have c: "c \<le> rr_capacity r" using r1(5) assms(1) by (simp add: record_wf_def)
  define r2 where "r2 = (if c \<ge> rr_capacity r1 then grow_record r1 else r1)"
  have r2: "record_wf r2" "c < rr_capacity r2" "rr_writeThread r2 = rr_writeThread r" "rr_writeClock r2 = rr_writeClock r"
    using grow_record_wf [OF r1(1)] r1 c assms(2) by (auto simp: r2_def)
  have reads: "take c (zip (rr_thread r2) (rr_readClock r2)) = take c (zip (rr_thread r1) (rr_readClock r1))"
  proof (cases "c \<ge> rr_capacity r1")
    case True
    with c r1(2) have "c = rr_capacity r1" by simp
    then show ?thesis using grow_record_wf(2) [OF r1(1)] r1(1) by (simp add: r2_def record_wf_def)
  qed (simp add: r2_def)
  define r3 where "r3 = r2\<lparr>rr_thread := (rr_thread r2)[c := thread],
      rr_readClock := (rr_readClock r2)[c := ClockVector_getClock ?cv thread], rr_numReads := c + 1\<rparr>"
  note r3 = append_read [OF r2(1,2), where t = thread and k = "ClockVector_getClock ?cv thread", folded r3_def]
  have lens: "c < length (rr_thread r2)" "c < length (rr_readClock r2)" using r2(1,2) by (auto simp: record_wf_def)
  let ?rs = "map (mk_race env thread location False) (read_races ?cv thread (history (Record r)))"
  have rs: "?rs = map (mk_race env thread location False)
      (map (Pair True) (filter (racing ?cv thread) [(rr_writeThread r, rr_writeClock r)]))"
    by (simp add: read_races_def history_def)
  have "fullRaceCheckRead env thread location r ?cv st = Some (outcome env st ?rs r3)" if "env_ok env thread st" for st
  proof -
    have "fullRaceCheckRead env thread location r ?cv st =
        and_then (Some (outcome env st ?rs ())) (\<lambda>_ st. Some (Inr (r3, st)))"
      unfolding fullRaceCheckRead_def report_race_outcome [OF that] rs loop
      using lens by (simp add: r2_def [symmetric] r3_def Let_def)
    also have "\<dots> = Some (outcome env st ?rs r3)" by (rule outcome_map [where g = "\<lambda>_. r3"])
    finally show ?thesis .
  qed
  then show ?thesis
    using r3 r2(3,4) reads r1(6) by (intro exI [of _ r3]) (simp add: spec_read_def history_def [of "Record r"])
qed

text \<open>The case in which the arrays of the record have no element to write to.\<close>

definition read_overflows :: "ClockVector \<Rightarrow> thread_id_t \<Rightarrow> shadow \<Rightarrow> bool" where
  "read_overflows cv thread e =
     (case e of
        Record r \<Rightarrow> rr_capacity r = 0
      | Short w \<Rightarrow> (thread > MAXTHREADID \<or> ClockVector_getClock cv thread > MAXWRITEVECTOR) \<and> READVECTOR w = 0)"

lemma fullRaceCheckRead_overflow:
  assumes "env_ok env thread st" and "record_wf r" and "rr_capacity r = 0"
  shows "fullRaceCheckRead env thread location r (re_get_cv env thread) st =
    and_then (Some (outcome env st (map (mk_race env thread location False)
        (read_races (re_get_cv env thread) thread (history (Record r)))) ())) (\<lambda>_ _. None)"
proof -
  have "rr_numReads r = 0" "rr_thread r = []" "rr_readClock r = []" using assms(2,3) by (simp_all add: record_wf_def)
  then show ?thesis
    unfolding fullRaceCheckRead_def report_race_outcome [OF assms(1)]
    using assms(3) by (simp add: read_races_def history_def grow_record_def memcpy_def Let_def)
qed

lemma expandRecord_capacity: "rr_capacity (expandRecord w) = 0 \<longleftrightarrow> READVECTOR w = 0"
  by (simp add: expandRecord_def INITCAPACITY_def Let_def)

text \<open>
  What a read may report, in terms of the history: the race with the last write, if there is one, and
  the same race a second time if some earlier read is not covered either. The second report comes
  from a packed entry, which tests the write before and after it is expanded.
\<close>

definition allowed_reports :: "ClockVector \<Rightarrow> thread_id_t \<Rightarrow> access \<times> access list \<Rightarrow> (bool \<times> access) list set" where
  "allowed_reports cv thread h =
     insert (read_races cv thread h)
       (if filter (racing cv thread) (snd h) = [] then {} else {read_races cv thread h @ read_races cv thread h})"

lemma raceCheckRead_outcome:
  assumes "env_ok env thread st" and "entry_wf e" and "\<not> read_overflows (re_get_cv env thread) thread e"
  shows "\<exists>rs \<in> allowed_reports (re_get_cv env thread) thread (history e). \<exists>e'.
    raceCheckRead env thread location e st =
      Some (outcome env st (map (mk_race env thread location False) rs) e') \<and>
    entry_wf e' \<and> history e' = spec_read (re_get_cv env thread) thread (history e)"
proof -
  let ?cv = "re_get_cv env thread" and ?mk = "mk_race env thread location False"
  let ?clk = "ClockVector_getClock ?cv thread"
  let ?full = "\<lambda>record st. and_then (fullRaceCheckRead env thread location record ?cv st) (\<lambda>r st. Some (Inr (Record r, st)))"
  have once: "read_races ?cv thread (history e) \<in> allowed_reports ?cv thread (history e)"
    by (simp add: allowed_reports_def)
  have full: "\<exists>e'. entry_wf e' \<and> history e' = spec_read ?cv thread (history (Record r)) \<and>
      (\<forall>st. env_ok env thread st \<longrightarrow>
        ?full r st = Some (outcome env st (map ?mk (read_races ?cv thread (history (Record r)))) e'))"
    if "record_wf r" "0 < rr_capacity r" for r
  proof -
    from fullRaceCheckRead_outcome [OF that, of env thread location] obtain r' where
      "record_wf r'" "history (Record r') = spec_read ?cv thread (history (Record r))"
      "\<And>st. env_ok env thread st \<Longrightarrow> fullRaceCheckRead env thread location r ?cv st =
        Some (outcome env st (map ?mk (read_races ?cv thread (history (Record r)))) r')" by blast
    then show ?thesis by (intro exI [of _ "Record r'"]) (simp add: entry_wf_def outcome_map [where g = Record])
  qed
  show ?thesis
  proof (cases e)
    case (Record r)
    then have "record_wf r" "0 < rr_capacity r" using assms(2,3) by (simp_all add: entry_wf_def read_overflows_def)
    from full [OF this] show ?thesis using assms(1) Record
      by (intro bexI [OF _ once]) (auto simp: raceCheckRead_def Let_def)
  next
    case (Short w)
    show ?thesis
    proof (cases "thread > MAXTHREADID \<or> ?clk > MAXWRITEVECTOR")
      case True
      with Short assms(3) have "0 < rr_capacity (expandRecord w)"
        using expandRecord_capacity [of w] by (simp add: read_overflows_def)
      from full [OF expandRecord_history(1) this, unfolded expandRecord_history(2)] True Short assms(1)
      show ?thesis by (intro bexI [OF _ once]) (auto simp: raceCheckRead_def Let_def id_to_int_def)
    next
      case False
      let ?r = "(unat (RDTHREADID w), READVECTOR w)" and ?w = "(unat (WRTHREADID w), WRITEVECTOR w)"
      let ?rs = "map ?mk (read_races ?cv thread (history e))"
      let ?e = "Short (ENCODEOP thread ?clk (unat (WRTHREADID w)) (WRITEVECTOR w))"
      have rs: "map ?mk (map (Pair True) (filter (racing ?cv thread) [?w])) = ?rs"
        by (simp add: read_races_def history_def Short)
      have start: "raceCheckRead env thread location e st =
        and_then (Some (outcome env st ?rs ())) (\<lambda>_ st.
          if racing ?cv thread ?r then ?full (expandRecord w) st else Some (Inr (?e, st)))"
        using False Short report_race_outcome [OF assms(1), of location True ?w False] rs
        unfolding raceCheckRead_def Let_def id_to_int_def int_to_id_def by (simp add: racing_def)
      show ?thesis
      proof (cases "racing ?cv thread ?r")
        case True
        then have "READVECTOR w \<noteq> 0" by (simp add: racing_def clock_may_race_def)
        then have cap: "0 < rr_capacity (expandRecord w)" using expandRecord_capacity [of w] by simp
        from full [OF expandRecord_history(1) cap, unfolded expandRecord_history(2), folded Short]
        obtain e' where e': "entry_wf e'" "history e' = spec_read ?cv thread (history e)"
          "\<And>st'. env_ok env thread st' \<Longrightarrow> ?full (expandRecord w) st' = Some (outcome env st' ?rs e')" by blast
        have "raceCheckRead env thread location e st = Some (outcome env st (?rs @ ?rs) e')"
          unfolding start using True by (intro outcome_seq [OF assms(1)]) (simp add: e'(3))
        moreover have "filter (racing ?cv thread) (snd (history e)) \<noteq> []"
          using True racing_compact [of ?cv thread ?r] by (simp add: Short history_def)
        then have "read_races ?cv thread (history e) @ read_races ?cv thread (history e) \<in>
            allowed_reports ?cv thread (history e)" by (simp add: allowed_reports_def)
        ultimately show ?thesis using e'(1,2) by (intro bexI exI [of _ e']) simp_all
      next
        case nr: False
        have "raceCheckRead env thread location e st = Some (outcome env st ?rs ?e)"
          using start nr by (simp add: outcome_map [where g = "\<lambda>_. ?e"])
        then show ?thesis
          using False nr Short clock_bound [of ?clk] thread_bound [of thread] decode_bounds [of w]
            racing_compact [of ?cv thread ?r] assms(1) [unfolded env_ok_def]
          by (intro bexI [OF _ once] exI [of _ ?e])
            (simp add: entry_wf_def history_def decode_ENCODEOP compact_reads_def spec_read_def)
      qed
    qed
  qed
qed

lemma raceCheckRead_overflow:
  assumes "env_ok env thread st" and "entry_wf e" and "read_overflows (re_get_cv env thread) thread e"
  shows "raceCheckRead env thread location e st =
    and_then (Some (outcome env st (map (mk_race env thread location False)
        (read_races (re_get_cv env thread) thread (history e))) ())) (\<lambda>_ _. None)"
proof -
  obtain r where r: "record_wf r" "rr_capacity r = 0" "history (Record r) = history e"
    and run: "raceCheckRead env thread location e st =
      and_then (fullRaceCheckRead env thread location r (re_get_cv env thread) st) (\<lambda>r st. Some (Inr (Record r, st)))"
  proof (cases e)
    case (Record r)
    then show thesis using assms(2,3) by (intro that [of r]) (simp_all add: entry_wf_def read_overflows_def raceCheckRead_def)
  next
    case (Short w)
    then show thesis using assms(3)
      by (intro that [of "expandRecord w"])
        (simp_all add: expandRecord_history expandRecord_capacity read_overflows_def raceCheckRead_def id_to_int_def Let_def)
  qed
  show ?thesis unfolding run fullRaceCheckRead_overflow [OF assms(1) r(1,2)] r(3)
    by (auto simp: outcome_def split: list.splits)
qed

section \<open>The shadow table\<close>

definition shadow_at :: "shadow_root \<Rightarrow> addr \<Rightarrow> shadow" where
  "shadow_at root address =
     (case read_entry root (table_index 32 address, table_index 16 address, table_index 0 address) of
        None \<Rightarrow> Short 0 | Some e \<Rightarrow> e)"

lemma mask_ffff: "(0xffff :: uint64) = mask 16"
  by (simp add: mask_eq_exp_minus_1)

lemma table_index_eq:
  "table_index s a = table_index s b \<longleftrightarrow> (\<forall>n < 16. bit a (s + n) = bit b (s + n))"
proof -
  have *: "bit (table_index s x) n \<longleftrightarrow> n < 16 \<and> bit x (s + n)" for x n
    by (auto simp: table_index_def mask_ffff bit_ucast_iff bit_and_iff bit_mask_iff bit_drop_bit_eq)
  show ?thesis unfolding bit_eq_iff [of "table_index s a"] * by auto
qed

lemma table_indices_eq:
  "table_index 32 a = table_index 32 b \<and> table_index 16 a = table_index 16 b \<and> table_index 0 a = table_index 0 b \<longleftrightarrow>
   take_bit 48 a = take_bit 48 b"
proof -
  have "(\<forall>n < 48. P n) \<longleftrightarrow> (\<forall>n < 16. P (32 + n)) \<and> (\<forall>n < 16. P (16 + n)) \<and> (\<forall>n < 16. P n)" for P :: "nat \<Rightarrow> bool"
  proof (intro iffI allI impI)
    fix n :: nat
    assume *: "(\<forall>n < 16. P (32 + n)) \<and> (\<forall>n < 16. P (16 + n)) \<and> (\<forall>n < 16. P n)" and n: "n < 48"
    consider "n < 16" | "16 \<le> n" "n < 32" | "32 \<le> n" by linarith
    then show "P n"
    proof cases
      case 2
      with * show ?thesis by (auto dest!: spec [of _ "n - 16"])
    next
      case 3
      with * n show ?thesis by (auto dest!: spec [of _ "n - 32"])
    qed (use * in auto)
  qed auto
  moreover have "take_bit 48 a = take_bit 48 b \<longleftrightarrow> (\<forall>n < 48. bit a n = bit b n)"
  proof
    assume *: "take_bit 48 a = take_bit 48 b"
    have "bit (take_bit 48 a) n = bit (take_bit 48 b) n" for n by (simp add: *)
    then show "\<forall>n < 48. bit a n = bit b n" unfolding bit_take_bit_iff by blast
  next
    assume "\<forall>n < 48. bit a n = bit b n"
    then show "take_bit 48 a = take_bit 48 b" by (intro bit_word_eqI) (auto simp: bit_take_bit_iff)
  qed
  ultimately show ?thesis by (simp only: table_index_eq add_0)
qed

lemma shadow_update:
  assumes "lookupAddressEntry root a = (root', p)"
  shows "read_entry root' p = Some (shadow_at root a)" and "shadow_at root' b = shadow_at root b"
    and "\<exists>root''. write_entry root' p e = Some root'' \<and>
      (\<forall>b. shadow_at root'' b = (if take_bit 48 a = take_bit 48 b then e else shadow_at root b))"
proof -
  show "read_entry root' p = Some (shadow_at root a)" "shadow_at root' b = shadow_at root b"
    using assms
    by (auto simp: lookupAddressEntry_def read_entry_def shadow_at_def Let_def split: option.splits if_splits)
  show "\<exists>root''. write_entry root' p e = Some root'' \<and>
      (\<forall>b. shadow_at root'' b = (if take_bit 48 a = take_bit 48 b then e else shadow_at root b))"
    unfolding table_indices_eq [symmetric] using assms
    by (auto simp: lookupAddressEntry_def read_entry_def write_entry_def shadow_at_def Let_def split: option.splits if_splits)
qed

section \<open>Properties\<close>

text \<open>
  (C17) The race checks implement an abstract detector that keeps, per location, the last write and
  the reads since. In both forms of an entry a write reports, in this order, exactly the reads and the
  last write that the clock vector of the thread does not cover, and starts the history anew with
  itself. A read for which the record has room, as every read has but those of the overflow below,
  reports the last write exactly if it is not covered, and keeps of the earlier reads exactly those
  not covered, with itself at the end; the report may come twice if some earlier read is not covered.
  On a feasible prefix the first report ends the execution, otherwise the reports are kept for later.
\<close>

theorem race_checks_refine_history:
  assumes "env_ok env thread st" and "entry_wf e"
  shows "(\<exists>e'. raceCheckWrite env thread location e st =
        Some (outcome env st (map (mk_race env thread location True)
          (write_races (re_get_cv env thread) thread (history e))) e') \<and>
      entry_wf e' \<and> history e' = spec_write (re_get_cv env thread) thread (history e)) \<and>
    (\<not> read_overflows (re_get_cv env thread) thread e \<longrightarrow>
     (\<exists>rs \<in> allowed_reports (re_get_cv env thread) thread (history e). \<exists>e'.
        raceCheckRead env thread location e st =
          Some (outcome env st (map (mk_race env thread location False) rs) e') \<and>
        entry_wf e' \<and> history e' = spec_read (re_get_cv env thread) thread (history e)))"
  using raceCheckWrite_outcome [OF assms] raceCheckRead_outcome [OF assms] by blast

text \<open>
  (C18) The packed word: for thread ids below 256 and clocks below \<open>2 ^ 23\<close>, and every id
  and clock the guards of the checks let through is that small, each of the four components is read
  back as it was encoded and the word is marked as a packed one.
\<close>

theorem race_word_roundtrip:
  assumes "\<not> rdthread > MAXTHREADID" "\<not> rdtime > MAXREADVECTOR" "\<not> wrthread > MAXTHREADID" "\<not> wrtime > MAXWRITEVECTOR"
  shows "ISSHORTRECORD (ENCODEOP rdthread rdtime wrthread wrtime) \<and>
    unat (RDTHREADID (ENCODEOP rdthread rdtime wrthread wrtime)) = rdthread \<and>
    READVECTOR (ENCODEOP rdthread rdtime wrthread wrtime) = rdtime \<and>
    unat (WRTHREADID (ENCODEOP rdthread rdtime wrthread wrtime)) = wrthread \<and>
    WRITEVECTOR (ENCODEOP rdthread rdtime wrthread wrtime) = wrtime"
proof -
  have b: "rdthread < 256" "unat rdtime < 2 ^ 23" "wrthread < 256" "unat wrtime < 2 ^ 23"
    using assms thread_bound clock_bound by (auto simp: MAXREADVECTOR_def MAXWRITEVECTOR_def)
  show ?thesis using b by (simp add: decode_ENCODEOP [OF b] unat_of_nat)
qed

text \<open>
  (C19) The read that the detector does not survive: when the entry is a record without room for
  any read, or is packed without a read and has to be expanded because the thread id or the clock is
  too large, the new capacity is twice zero and the store of the read is out of bounds. Only a race
  with the last write on a feasible prefix, which ends the execution, comes first.
\<close>

theorem race_read_overflow:
  assumes "env_ok env thread st" and "entry_wf e" and "read_overflows (re_get_cv env thread) thread e"
  shows "raceCheckRead env thread location e st =
    (if re_isfeasibleprefix env \<and> read_races (re_get_cv env thread) thread (history e) \<noteq> []
     then Some (Inl (assert_race (mk_race env thread location False
            (hd (read_races (re_get_cv env thread) thread (history e)))) st))
     else None)"
  unfolding raceCheckRead_overflow [OF assms] by (auto simp: outcome_def neq_Nil_conv split: list.splits)

text \<open>
  (C20) The three-level shadow table is a map from the low 48 bits of addresses to entries: a lookup
  changes no entry and gives a position holding the entry of the address, zero if it was never
  written; storing there changes the entry of exactly the addresses with the same low 48 bits.
\<close>

theorem shadow_table_is_map:
  "shadow_at (fst initRaceDetector) = (\<lambda>_. Short 0) \<and>
   (case lookupAddressEntry root a of (root', p) \<Rightarrow>
      read_entry root' p = Some (shadow_at root a) \<and> shadow_at root' = shadow_at root \<and>
      (\<exists>root''. write_entry root' p e = Some root'' \<and>
        (\<forall>b. shadow_at root'' b = (if take_bit 48 a = take_bit 48 b then e else shadow_at root b))))"
proof -
  obtain root' p where look: "lookupAddressEntry root a = (root', p)" by (cases "lookupAddressEntry root a")
  have "shadow_at (fst initRaceDetector) = (\<lambda>_. Short 0)" by (simp add: fun_eq_iff shadow_at_def initRaceDetector_def read_entry_def)
  with shadow_update [OF look] look show ?thesis by (simp add: fun_eq_iff)
qed

section \<open>Concrete cases\<close>

text \<open>Thread 1 wrote the location at time 5; thread 2, at time 9, knows thread 1 up to time 3.\<close>

definition example_env :: "nat \<Rightarrow> bool \<Rightarrow> race_env" where
  "example_env clk feasible =
     (let cv = \<lparr>cv_clock = [0, 3, of_nat clk], cv_num_threads = 3\<rparr> in
      \<lparr>re_isfeasibleprefix = feasible, re_acts = \<lambda>_. (example_action ATOMIC_READ memory_order_relaxed)\<lparr>ma_tid := 2, ma_cv := Some cv\<rparr>,
       re_get_parent_action = \<lambda>_. 7, re_get_cv = \<lambda>_. cv\<rparr>)"

lemma example_clocks:
  "ClockVector_getClock (re_get_cv (example_env clk feasible) t) 2 = of_nat clk"
  "ClockVector_getClock (re_get_cv (example_env clk feasible) t) 1 = 3"
  by (simp_all add: example_env_def ClockVector_getClock_def id_to_int_def Let_def numeral_eq_Suc)

lemma example_env_ok:
  assumes "(of_nat clk :: modelclock_t) \<noteq> 0"
  shows "env_ok (example_env clk feasible) 2 \<lparr>rs_unrealizedraces = [], rs_asserted = []\<rparr>"
  using assms example_clocks(1) [of clk feasible] by (simp add: env_ok_def example_env_def Let_def)

lemma example_history: "history (Short (ENCODEOP 0 0 1 5)) = ((1, 5), [])"
  by (simp add: history_def decode_ENCODEOP compact_reads_def)

theorem race_checks_refine_history_witness:
  "\<exists>e' st'. raceCheckWrite (example_env 9 False) 2 64 (Short (ENCODEOP 0 0 1 5))
      \<lparr>rs_unrealizedraces = [], rs_asserted = []\<rparr> = Some (Inr (e', st')) \<and>
    history e' = ((2, 9), []) \<and> length (rs_unrealizedraces st') = 1"
proof -
  let ?st = "\<lparr>rs_unrealizedraces = [], rs_asserted = []\<rparr>" and ?e = "Short (ENCODEOP 0 0 1 5)"
  have ok: "env_ok (example_env 9 False) 2 ?st" by (rule example_env_ok) simp
  have wf: "entry_wf ?e" by (simp add: entry_wf_def)
  have races: "length (write_races (re_get_cv (example_env 9 False) 2) 2 (history ?e)) = 1"
    unfolding example_history using example_clocks [of 9 False 2]
    by (simp add: write_races_def racing_def clock_may_race_def)
  have nf: "\<not> re_isfeasibleprefix (example_env 9 False)" by (simp add: example_env_def Let_def)
  from race_checks_refine_history [OF ok wf, of 64] show ?thesis
    using races nf example_clocks(1) [of 9 False 2] by (auto simp: outcome_def spec_write_def)
qed

theorem race_word_roundtrip_witness:
  "WRITEVECTOR (ENCODEOP 3 100 254 8388606) = 8388606"
  using race_word_roundtrip [of 3 100 254 8388606]
  by (simp add: MAXTHREADID_def MAXREADVECTOR_def MAXWRITEVECTOR_def THREADMASK_def READMASK_def WRITEMASK_def word_less_nat_alt)

theorem race_read_overflow_witness:
  "raceCheckRead (example_env 9000000 False) 2 64 (Short (ENCODEOP 0 0 1 5))
     \<lparr>rs_unrealizedraces = [], rs_asserted = []\<rparr> = None"
proof -
  let ?st = "\<lparr>rs_unrealizedraces = [], rs_asserted = []\<rparr>" and ?e = "Short (ENCODEOP 0 0 1 5)"
  have ok: "env_ok (example_env 9000000 False) 2 ?st" by (rule example_env_ok) simp
  have wf: "entry_wf ?e" by (simp add: entry_wf_def)
  have ov: "read_overflows (re_get_cv (example_env 9000000 False) 2) 2 ?e"
    using example_clocks(1) [of 9000000 False 2] by (simp add: read_overflows_def decode_ENCODEOP MAXWRITEVECTOR_def)
  have nf: "\<not> re_isfeasibleprefix (example_env 9000000 False)" by (simp add: example_env_def Let_def)
  from race_read_overflow [OF ok wf ov, of 64] nf show ?thesis by simp
qed

end
