(* ===== verification/ExecState.thy ===== *)
theory ExecState
  imports Selection CycleGraph DataRace
begin

text \<open>
  \<open>execution.h\<close> and the first part of \<open>execution.cc\<close>: the state of one execution. The
  components it owns are those of the other theories; a \<open>ModelAction *\<close>, \<open>Promise *\<close> or
  \<open>Thread *\<close> is a reference into the heap of the state. The hash tables from objects to action
  lists are maps, with the check for a null key that \<open>HashTable\<close> makes. The heap also holds what
  the checker reads of the memory of the program under test: its mutexes and its \<open>thrd_t\<close>
  variables. A list walked from its end is written as a function on the reversed list.
\<close>

section \<open>State\<close>

record mutex_state =
  mx_locked :: "thread_id_t option"
  mx_alloc_tid :: thread_id_t
  mx_alloc_clock :: modelclock_t

text \<open>A bug message, with what its text is made from.\<close>

datatype bug_message = BugText string | BugUninit act_ref | BugRace DataRace

record model_snapshot_members =
  ms_next_thread_id :: nat
  ms_used_sequence_numbers :: modelclock_t
  ms_next_backtrack :: "act_ref option"
  ms_bugs :: "bug_message list"
  ms_failed_promise :: bool
  ms_hard_failed_promise :: bool
  ms_too_many_reads :: bool
  ms_no_valid_reads :: bool
  ms_bad_synchronization :: bool
  ms_bad_sc_read :: bool
  ms_asserted :: bool

definition new_model_snapshot_members :: model_snapshot_members where
  "new_model_snapshot_members =
     \<lparr>ms_next_thread_id = 0, ms_used_sequence_numbers = 0, ms_next_backtrack = None, ms_bugs = [],
      ms_failed_promise = False, ms_hard_failed_promise = False, ms_too_many_reads = False,
      ms_no_valid_reads = False, ms_bad_synchronization = False, ms_bad_sc_read = False,
      ms_asserted = False\<rparr>"

record PendingFutureValue =
  pf_writer :: act_ref
  pf_reader :: act_ref

record release_seq =
  rq_acquire :: act_ref
  rq_read :: act_ref
  rq_rf :: "act_ref option"
  rq_release :: "act_ref option"
  rq_writes :: "act_ref list"

record exec_heap =
  ex_acts :: act_store
  ex_next_act :: act_ref
  ex_proms :: promise_store
  ex_next_prom :: promise_ref
  ex_threads :: thread_store
  ex_thrd_priv :: "addr \<rightharpoonup> thread_id_t"
  ex_thread_at :: "addr \<rightharpoonup> thread_id_t"
  ex_mutexes :: "addr \<Rightarrow> mutex_state"
  ex_races :: race_state

record ModelExecution = exec_heap +
  ex_params :: model_params
  ex_scheduler :: Scheduler
  ex_action_trace :: "act_ref list"
  ex_thread_map :: "thread_id_t option list"
  ex_obj_map :: "addr \<rightharpoonup> act_ref list"
  ex_condvar_waiters_map :: "addr \<rightharpoonup> act_ref list"
  ex_obj_thrd_map :: "addr \<rightharpoonup> act_ref list list"
  ex_promises :: "promise_ref list"
  ex_futurevalues :: "PendingFutureValue list"
  ex_pending_rel_seqs :: "release_seq list"
  ex_thrd_last_action :: "act_ref option list"
  ex_thrd_last_fence_release :: "act_ref option list"
  ex_node_stack :: NodeStack
  ex_model_thread :: thread_id_t
  ex_priv :: model_snapshot_members
  ex_mo_graph :: CycleGraph

section \<open>Threads\<close>

definition get_next_id :: "ModelExecution \<Rightarrow> thread_id_t \<times> ModelExecution" where
  "get_next_id ex =
     (ms_next_thread_id (ex_priv ex),
      ex\<lparr>ex_priv := (ex_priv ex)\<lparr>ms_next_thread_id := ms_next_thread_id (ex_priv ex) + 1\<rparr>\<rparr>)"

definition get_num_threads :: "ModelExecution \<Rightarrow> nat" where
  "get_num_threads ex = ms_next_thread_id (ex_priv ex)"

definition get_thread :: "ModelExecution \<Rightarrow> thread_id_t \<Rightarrow> thread_id_t option" where
  "get_thread ex tid =
     (let i = id_to_int tid
      in if i < length (ex_thread_map ex) then ex_thread_map ex ! i else None)"

definition get_thread_of :: "ModelExecution \<Rightarrow> act_ref \<Rightarrow> thread_id_t option" where
  "get_thread_of ex act = get_thread ex (ma_tid (ex_acts ex act))"

text \<open>
  The scheduler calls \<open>check_promises_thread_disabled\<close> when it disables a thread: its operations
  return a flag for it.
\<close>

definition set_failed_promise :: "ModelExecution \<Rightarrow> ModelExecution" where
  "set_failed_promise ex = ex\<lparr>ex_priv := (ex_priv ex)\<lparr>ms_failed_promise := True\<rparr>\<rparr>"

definition set_hard_failed_promise :: "ModelExecution \<Rightarrow> ModelExecution" where
  "set_hard_failed_promise ex = ex\<lparr>ex_priv := (ex_priv ex)\<lparr>ms_hard_failed_promise := True\<rparr>\<rparr>"

definition check_promises_thread_disabled :: "ModelExecution \<Rightarrow> ModelExecution" where
  "check_promises_thread_disabled ex =
     (if \<exists>p \<in> set (ex_promises ex). has_failed (ex_proms ex p) then set_failed_promise ex else ex)"

definition with_scheduler :: "ModelExecution \<Rightarrow> bool \<times> Scheduler \<Rightarrow> ModelExecution" where
  "with_scheduler ex r =
     (let ex1 = ex\<lparr>ex_scheduler := snd r\<rparr>
      in if fst r then check_promises_thread_disabled ex1 else ex1)"

definition Execution_add_thread :: "ModelExecution \<Rightarrow> thread_id_t \<Rightarrow> ModelExecution option" where
  "Execution_add_thread ex t =
     (let i = id_to_int t;
          m = (if i \<ge> length (ex_thread_map ex) then resize (ex_thread_map ex) (i + 1) None
               else ex_thread_map ex);
          ex1 = ex\<lparr>ex_thread_map := m[i := Some t]\<rparr>
      in if \<not> th_model_thread (ex_threads ex t)
         then do {
           r \<leftarrow> Scheduler_add_thread (ex_threads ex1) (ex_scheduler ex1) t;
           Some (with_scheduler ex1 r)
         }
         else Some ex1)"

definition Execution_is_enabled :: "ModelExecution \<Rightarrow> thread_id_t \<Rightarrow> bool" where
  "Execution_is_enabled ex tid = Scheduler_is_enabled (ex_scheduler ex) tid"

text \<open>The constructor; the heap is what the memory holds when it runs.\<close>

definition new_ModelExecution ::
    "exec_heap \<Rightarrow> model_params \<Rightarrow> Scheduler \<Rightarrow> NodeStack \<Rightarrow> ModelExecution option" where
  "new_ModelExecution h params scheduler node_stack =
     (let ex0 = \<lparr>ex_acts = ex_acts h, ex_next_act = ex_next_act h, ex_proms = ex_proms h,
                 ex_next_prom = ex_next_prom h, ex_threads = ex_threads h,
                 ex_thrd_priv = ex_thrd_priv h, ex_thread_at = ex_thread_at h,
                 ex_mutexes = ex_mutexes h, ex_races = ex_races h,
                 ex_params = params, ex_scheduler = scheduler, ex_action_trace = [],
                 ex_thread_map = replicate 2 None, ex_obj_map = Map.empty,
                 ex_condvar_waiters_map = Map.empty, ex_obj_thrd_map = Map.empty,
                 ex_promises = [], ex_futurevalues = [], ex_pending_rel_seqs = [],
                 ex_thrd_last_action = replicate 1 None, ex_thrd_last_fence_release = [],
                 ex_node_stack = node_stack, ex_model_thread = 0,
                 ex_priv = new_model_snapshot_members, ex_mo_graph = new_CycleGraph\<rparr>;
          (tid, ex1) = get_next_id ex0
      in Execution_add_thread
           (ex1\<lparr>ex_model_thread := tid, ex_threads := (ex_threads ex1)(tid := new_model_Thread tid)\<rparr>) tid)"

section \<open>Sequence numbers, flags and bugs\<close>

definition get_next_seq_num :: "ModelExecution \<Rightarrow> modelclock_t \<times> ModelExecution" where
  "get_next_seq_num ex =
     (let n = ms_used_sequence_numbers (ex_priv ex) + 1
      in (n, ex\<lparr>ex_priv := (ex_priv ex)\<lparr>ms_used_sequence_numbers := n\<rparr>\<rparr>))"

definition set_bad_synchronization :: "ModelExecution \<Rightarrow> ModelExecution" where
  "set_bad_synchronization ex = ex\<lparr>ex_priv := (ex_priv ex)\<lparr>ms_bad_synchronization := True\<rparr>\<rparr>"

definition set_bad_sc_read :: "ModelExecution \<Rightarrow> ModelExecution" where
  "set_bad_sc_read ex = ex\<lparr>ex_priv := (ex_priv ex)\<lparr>ms_bad_sc_read := True\<rparr>\<rparr>"

definition set_too_many_reads :: "ModelExecution \<Rightarrow> ModelExecution" where
  "set_too_many_reads ex = ex\<lparr>ex_priv := (ex_priv ex)\<lparr>ms_too_many_reads := True\<rparr>\<rparr>"

definition has_asserted :: "ModelExecution \<Rightarrow> bool" where
  "has_asserted ex = ms_asserted (ex_priv ex)"

definition set_assert :: "ModelExecution \<Rightarrow> ModelExecution" where
  "set_assert ex = ex\<lparr>ex_priv := (ex_priv ex)\<lparr>ms_asserted := True\<rparr>\<rparr>"

definition promises_expired :: "ModelExecution \<Rightarrow> bool" where
  "promises_expired ex \<longleftrightarrow>
     (\<exists>p \<in> set (ex_promises ex).
        fv_expiration (pr_fv (ex_proms ex p)) < ms_used_sequence_numbers (ex_priv ex))"

definition is_infeasible :: "ModelExecution \<Rightarrow> bool" where
  "is_infeasible ex \<longleftrightarrow>
     checkForCycles (ex_mo_graph ex) \<or> ms_no_valid_reads (ex_priv ex) \<or>
     ms_too_many_reads (ex_priv ex) \<or> ms_bad_synchronization (ex_priv ex) \<or>
     ms_bad_sc_read (ex_priv ex) \<or> ms_hard_failed_promise (ex_priv ex) \<or> promises_expired ex"

definition is_feasible_prefix_ignore_relseq :: "ModelExecution \<Rightarrow> bool" where
  "is_feasible_prefix_ignore_relseq ex \<longleftrightarrow>
     \<not> is_infeasible ex \<and> length (ex_promises ex) = 0 \<and> \<not> ms_failed_promise (ex_priv ex)"

definition isfeasibleprefix :: "ModelExecution \<Rightarrow> bool" where
  "isfeasibleprefix ex \<longleftrightarrow>
     length (ex_pending_rel_seqs ex) = 0 \<and> is_feasible_prefix_ignore_relseq ex"

definition assert_bug :: "ModelExecution \<Rightarrow> bug_message \<Rightarrow> bool \<times> ModelExecution" where
  "assert_bug ex msg =
     (let ex1 = ex\<lparr>ex_priv := (ex_priv ex)\<lparr>ms_bugs := ms_bugs (ex_priv ex) @ [msg]\<rparr>\<rparr>
      in if isfeasibleprefix ex1 then (True, set_assert ex1) else (False, ex1))"

definition have_bug_reports :: "ModelExecution \<Rightarrow> bool" where
  "have_bug_reports ex \<longleftrightarrow> length (ms_bugs (ex_priv ex)) \<noteq> 0"

definition too_many_steps :: "ModelExecution \<Rightarrow> bool" where
  "too_many_steps ex \<longleftrightarrow>
     mp_bound (ex_params ex) \<noteq> 0 \<and> ms_used_sequence_numbers (ex_priv ex) > mp_bound (ex_params ex)"

section \<open>End of an execution\<close>

text \<open>The loop of \<open>is_deadlocked\<close>, over the thread ids, with its flag as an accumulator.\<close>

fun deadlock_loop :: "ModelExecution \<Rightarrow> thread_id_t list \<Rightarrow> bool \<Rightarrow> bool option" where
  "deadlock_loop ex [] blocking_threads = Some blocking_threads"
| "deadlock_loop ex (i # is) blocking_threads =
     (let tid = int_to_id i
      in if Execution_is_enabled ex tid then Some False
         else do {
           t \<leftarrow> get_thread ex tid;
           deadlock_loop ex is
             (blocking_threads \<or>
              (\<not> th_model_thread (ex_threads ex t) \<and> th_pending (ex_threads ex t) \<noteq> None))
         })"

definition is_deadlocked :: "ModelExecution \<Rightarrow> bool option" where
  "is_deadlocked ex = deadlock_loop ex [0..<get_num_threads ex] False"

fun yield_pending_loop :: "ModelExecution \<Rightarrow> thread_id_t list \<Rightarrow> bool option" where
  "yield_pending_loop ex [] = Some False"
| "yield_pending_loop ex (i # is) = do {
     t \<leftarrow> get_thread ex (int_to_id i);
     (case th_pending (ex_threads ex t) of
        Some p \<Rightarrow> if is_yield (ex_acts ex p) then Some True else yield_pending_loop ex is
      | None \<Rightarrow> yield_pending_loop ex is)
   }"

definition is_yieldblocked :: "ModelExecution \<Rightarrow> bool option" where
  "is_yieldblocked ex =
     (if \<not> mp_yieldblock (ex_params ex) then Some False
      else yield_pending_loop ex [0..<get_num_threads ex])"

definition is_complete_execution :: "ModelExecution \<Rightarrow> bool option" where
  "is_complete_execution ex = do {
     yb \<leftarrow> is_yieldblocked ex;
     if yb then Some False
     else Some (\<forall>i \<in> set [0..<get_num_threads ex]. \<not> Execution_is_enabled ex (int_to_id i))
   }"

section \<open>Lists of actions\<close>

definition hash_get :: "(addr \<rightharpoonup> 'v) \<Rightarrow> addr \<Rightarrow> 'v option option" where
  "hash_get m key = do { ASSERT (key \<noteq> 0); Some (m key) }"

text \<open>The list of an object, an empty one if there is none; the caller stores the changed list.\<close>

definition get_safe_ptr_action :: "(addr \<rightharpoonup> act_ref list) \<Rightarrow> addr \<Rightarrow> act_ref list option" where
  "get_safe_ptr_action hash ptr = do {
     tmp \<leftarrow> hash_get hash ptr;
     Some (case tmp of None \<Rightarrow> [] | Some l \<Rightarrow> l)
   }"

definition get_safe_ptr_vect_action :: "(addr \<rightharpoonup> act_ref list list) \<Rightarrow> addr \<Rightarrow> act_ref list list option" where
  "get_safe_ptr_vect_action hash ptr = do {
     tmp \<leftarrow> hash_get hash ptr;
     Some (case tmp of None \<Rightarrow> [] | Some v \<Rightarrow> v)
   }"

definition get_actions_on_obj :: "ModelExecution \<Rightarrow> addr \<Rightarrow> thread_id_t \<Rightarrow> act_ref list option option" where
  "get_actions_on_obj ex obj tid = do {
     wrv \<leftarrow> hash_get (ex_obj_thrd_map ex) obj;
     Some (case wrv of
             None \<Rightarrow> None
           | Some v \<Rightarrow> if id_to_int tid < length v then Some (v ! id_to_int tid) else None)
   }"

definition get_last_action :: "ModelExecution \<Rightarrow> thread_id_t \<Rightarrow> act_ref option" where
  "get_last_action ex tid =
     (let threadid = id_to_int tid
      in if threadid < length (ex_thrd_last_action ex) then ex_thrd_last_action ex ! threadid else None)"

definition get_last_fence_release :: "ModelExecution \<Rightarrow> thread_id_t \<Rightarrow> act_ref option" where
  "get_last_fence_release ex tid =
     (let threadid = id_to_int tid
      in if threadid < length (ex_thrd_last_fence_release ex)
         then ex_thrd_last_fence_release ex ! threadid else None)"

definition get_parent_action :: "ModelExecution \<Rightarrow> thread_id_t \<Rightarrow> act_ref option option" where
  "get_parent_action ex tid =
     (case get_last_action ex tid of
        Some parent \<Rightarrow> Some (Some parent)
      | None \<Rightarrow> do { t \<leftarrow> get_thread ex tid; Some (th_creation (ex_threads ex t)) })"

definition get_cv :: "ModelExecution \<Rightarrow> thread_id_t \<Rightarrow> ClockVector option option" where
  "get_cv ex tid = do {
     p \<leftarrow> get_parent_action ex tid;
     a \<leftarrow> p;
     Some (ma_cv (ex_acts ex a))
   }"

text \<open>The list of an object, dereferenced by the searches.\<close>

definition obj_list :: "ModelExecution \<Rightarrow> addr \<Rightarrow> act_ref list option" where
  "obj_list ex location = do { l \<leftarrow> hash_get (ex_obj_map ex) location; l }"

definition obj_thrd_lists :: "ModelExecution \<Rightarrow> addr \<Rightarrow> act_ref list list option" where
  "obj_thrd_lists ex location = do { v \<leftarrow> hash_get (ex_obj_thrd_map ex) location; v }"

text \<open>Skipping to an element: the rest behind it, \<open>None\<close> if the end is passed.\<close>

fun skip_past :: "act_ref \<Rightarrow> act_ref list \<Rightarrow> act_ref list option" where
  "skip_past x [] = None"
| "skip_past x (y # ys) = (if y = x then Some ys else skip_past x ys)"

definition get_last_seq_cst_write :: "ModelExecution \<Rightarrow> act_ref \<Rightarrow> act_ref option option" where
  "get_last_seq_cst_write ex cur = do {
     list \<leftarrow> obj_list ex (ma_location (ex_acts ex cur));
     rest \<leftarrow> skip_past cur (rev list);
     Some (List.find (\<lambda>a. is_write (ex_acts ex a) \<and> is_seqcst (ex_acts ex a)) rest)
   }"

definition get_last_seq_cst_fence ::
    "ModelExecution \<Rightarrow> thread_id_t \<Rightarrow> act_ref option \<Rightarrow> act_ref option option" where
  "get_last_seq_cst_fence ex tid before_fence = do {
     l \<leftarrow> hash_get (ex_obj_map ex) FENCE_LOCATION;
     (case l of
        None \<Rightarrow> Some None
      | Some list \<Rightarrow> do {
          rest \<leftarrow> (case before_fence of None \<Rightarrow> Some (rev list) | Some f \<Rightarrow> skip_past f (rev list));
          Some (List.find (\<lambda>a. is_fence (ex_acts ex a) \<and> tid = ma_tid (ex_acts ex a) \<and> is_seqcst (ex_acts ex a)) rest)
        })
   }"

definition get_last_unlock :: "ModelExecution \<Rightarrow> act_ref \<Rightarrow> act_ref option option" where
  "get_last_unlock ex cur = do {
     list \<leftarrow> obj_list ex (ma_location (ex_acts ex cur));
     Some (List.find (\<lambda>a. is_unlock (ex_acts ex a) \<or> is_wait (ex_acts ex a)) (rev list))
   }"

section \<open>Nodes\<close>

text \<open>\<open>act->get_node()\<close>, dereferenced, and the store of a changed node.\<close>

definition node_at :: "ModelExecution \<Rightarrow> node_ref \<Rightarrow> Node option" where
  "node_at ex n = vec_at (ns_node_list (ex_node_stack ex)) n"

definition node_of :: "ModelExecution \<Rightarrow> act_ref \<Rightarrow> (node_ref \<times> Node) option" where
  "node_of ex act = do {
     r \<leftarrow> get_node (ex_acts ex act);
     n \<leftarrow> r;
     node \<leftarrow> node_at ex n;
     Some (n, node)
   }"

definition put_node :: "ModelExecution \<Rightarrow> node_ref \<Rightarrow> Node \<Rightarrow> ModelExecution" where
  "put_node ex n node =
     ex\<lparr>ex_node_stack := (ex_node_stack ex)\<lparr>ns_node_list := (ns_node_list (ex_node_stack ex))[n := node]\<rparr>\<rparr>"

definition update_node :: "ModelExecution \<Rightarrow> act_ref \<Rightarrow> (Node \<Rightarrow> Node) \<Rightarrow> ModelExecution option" where
  "update_node ex act f = do { (n, node) \<leftarrow> node_of ex act; Some (put_node ex n (f node)) }"

definition put_act :: "ModelExecution \<Rightarrow> act_ref \<Rightarrow> ModelAction \<Rightarrow> ModelExecution" where
  "put_act ex act a = ex\<lparr>ex_acts := (ex_acts ex)(act := a)\<rparr>"

text \<open>\<open>new ModelAction(...)\<close>: the next free reference.\<close>

definition alloc_act :: "ModelExecution \<Rightarrow> ModelAction \<Rightarrow> act_ref \<times> ModelExecution" where
  "alloc_act ex a =
     (ex_next_act ex, ex\<lparr>ex_acts := (ex_acts ex)(ex_next_act ex := a), ex_next_act := Suc (ex_next_act ex)\<rparr>)"

definition get_uninitialized_action :: "ModelExecution \<Rightarrow> act_ref \<Rightarrow> (act_ref \<times> ModelExecution) option" where
  "get_uninitialized_action ex cur = do {
     (n, node) \<leftarrow> node_of ex cur;
     (act, ex1) \<leftarrow> (case nd_uninit_action node of
         Some act \<Rightarrow> Some (act, ex)
       | None \<Rightarrow> do {
           a \<leftarrow> new_ModelAction ATOMIC_UNINIT memory_order_relaxed (ma_location (ex_acts ex cur))
                  (ucast (mp_uninitvalue (ex_params ex))) (ex_model_thread ex);
           let (act, ex1) = alloc_act ex a;
           Some (act, put_node ex1 n (node\<lparr>nd_uninit_action := Some act\<rparr>))
         });
     Some (act, put_act ex1 act (create_cv (ex_acts ex1 act) None))
   }"

section \<open>Adding an action to the lists\<close>

text \<open>The per-thread lists of an object, with the action appended to that of its thread.\<close>

definition push_thrd_list :: "nat \<Rightarrow> act_ref list list \<Rightarrow> nat \<Rightarrow> act_ref \<Rightarrow> act_ref list list option" where
  "push_thrd_list num vec tid act = do {
     let vec = (if tid \<ge> length vec then resize vec num [] else vec);
     ASSERT (tid < length vec);
     Some (vec[tid := vec ! tid @ [act]])
   }"

definition set_last :: "nat \<Rightarrow> act_ref option list \<Rightarrow> nat \<Rightarrow> act_ref \<Rightarrow> act_ref option list option" where
  "set_last num xs tid act = do {
     let xs = (if length xs \<le> tid then resize xs num None else xs);
     ASSERT (tid < length xs);
     Some (xs[tid := Some act])
   }"

text \<open>The part for a new atomic object: the uninitialised store goes to the front of the lists.\<close>

definition add_uninit :: "ModelExecution \<Rightarrow> addr \<Rightarrow> act_ref \<Rightarrow> ModelExecution option" where
  "add_uninit ex location uninit = do {
     let uninit_id = id_to_int (ma_tid (ex_acts ex uninit));
     vec \<leftarrow> ex_obj_thrd_map ex location;
     ASSERT (uninit_id < length vec);
     ASSERT (uninit_id < length (ex_thrd_last_action ex));
     Some (ex\<lparr>ex_action_trace := uninit # ex_action_trace ex,
              ex_obj_thrd_map := (ex_obj_thrd_map ex)(location \<mapsto> vec[uninit_id := uninit # vec ! uninit_id]),
              ex_thrd_last_action := (ex_thrd_last_action ex)[uninit_id := Some uninit]\<rparr>)
   }"

text \<open>A wait is also recorded for its mutex.\<close>

definition add_wait :: "ModelExecution \<Rightarrow> act_ref \<Rightarrow> ModelExecution option" where
  "add_wait ex act = do {
     let mutex_loc = ma_value (ex_acts ex act);
     list \<leftarrow> get_safe_ptr_action (ex_obj_map ex) mutex_loc;
     vec0 \<leftarrow> get_safe_ptr_vect_action (ex_obj_thrd_map ex) mutex_loc;
     vec \<leftarrow> push_thrd_list (get_num_threads ex) vec0 (id_to_int (ma_tid (ex_acts ex act))) act;
     Some (ex\<lparr>ex_obj_map := (ex_obj_map ex)(mutex_loc \<mapsto> list @ [act]),
              ex_obj_thrd_map := (ex_obj_thrd_map ex)(mutex_loc \<mapsto> vec)\<rparr>)
   }"

definition add_action_to_lists :: "ModelExecution \<Rightarrow> act_ref \<Rightarrow> ModelExecution option" where
  "add_action_to_lists ex act = do {
     let location = ma_location (ex_acts ex act);
     let tid = id_to_int (ma_tid (ex_acts ex act));
     list \<leftarrow> get_safe_ptr_action (ex_obj_map ex) location;
     (uninit, ex1) \<leftarrow> (if list = [] \<and> is_atomic_var (ex_acts ex act)
         then do { (u, ex1) \<leftarrow> get_uninitialized_action ex act; Some ([u], ex1) }
         else Some ([], ex));
     vec0 \<leftarrow> get_safe_ptr_vect_action (ex_obj_thrd_map ex1) location;
     vec \<leftarrow> push_thrd_list (get_num_threads ex1) vec0 tid act;
     last \<leftarrow> set_last (get_num_threads ex1) (ex_thrd_last_action ex1) tid act;
     let ex2 = ex1\<lparr>ex_obj_map := (ex_obj_map ex1)(location \<mapsto> uninit @ list @ [act]),
                   ex_action_trace := ex_action_trace ex1 @ [act],
                   ex_obj_thrd_map := (ex_obj_thrd_map ex1)(location \<mapsto> vec),
                   ex_thrd_last_action := last\<rparr>;
     ex3 \<leftarrow> foldM (\<lambda>u ex. add_uninit ex location u) uninit ex2;
     ex4 \<leftarrow> (if is_fence (ex_acts ex3 act) \<and> is_release (ex_acts ex3 act)
             then do {
               fr \<leftarrow> set_last (get_num_threads ex3) (ex_thrd_last_fence_release ex3) tid act;
               Some (ex3\<lparr>ex_thrd_last_fence_release := fr\<rparr>)
             }
             else Some ex3);
     if is_wait (ex_acts ex4 act) then add_wait ex4 act else Some ex4
   }"

end
