(* ===== verification/ExecPromise.thy ===== *)
theory ExecPromise
  imports ExecState
begin

text \<open>
  The part of \<open>execution.cc\<close> about synchronization and pending promises: what a change of a
  clock vector, of the modification order or of the set of waiting threads does to the threads that
  may still resolve a promise, and the promises a store may resolve. The loops over the promises
  return early in places; each is a recursion over the list of promises.
\<close>

definition put_prom :: "ModelExecution \<Rightarrow> promise_ref \<Rightarrow> Promise \<Rightarrow> ModelExecution" where
  "put_prom ex p pr = ex\<lparr>ex_proms := (ex_proms ex)(p := pr)\<rparr>"

section \<open>Changed clock vectors\<close>

text \<open>The loop over the readers of one promise; it ends when the promise has failed.\<close>

fun check_readers ::
    "act_store \<Rightarrow> thread_id_t \<Rightarrow> ClockVector option \<Rightarrow> ClockVector \<Rightarrow> act_ref list \<Rightarrow> Promise \<Rightarrow> bool \<times> Promise" where
  "check_readers acts tid old_cv merge_cv [] pr = (False, pr)"
| "check_readers acts tid old_cv merge_cv (act # readers) pr =
     (if (case old_cv of None \<Rightarrow> True | Some cv \<Rightarrow> \<not> ClockVector_synchronized_since cv (acts act)) \<and>
         ClockVector_synchronized_since merge_cv (acts act)
      then let (failed, pr') = eliminate_thread pr tid
           in if failed then (True, pr') else check_readers acts tid old_cv merge_cv readers pr'
      else check_readers acts tid old_cv merge_cv readers pr)"

fun check_promises_loop ::
    "thread_id_t \<Rightarrow> ClockVector option \<Rightarrow> ClockVector \<Rightarrow> promise_ref list \<Rightarrow> ModelExecution \<Rightarrow> ModelExecution" where
  "check_promises_loop tid old_cv merge_cv [] ex = ex"
| "check_promises_loop tid old_cv merge_cv (p # ps) ex =
     (if \<not> thread_is_available (ex_proms ex p) tid then check_promises_loop tid old_cv merge_cv ps ex
      else let (failed, pr) = check_readers (ex_acts ex) tid old_cv merge_cv
                                (pr_readers (ex_proms ex p)) (ex_proms ex p);
               ex1 = put_prom ex p pr
           in if failed then set_failed_promise ex1
              else check_promises_loop tid old_cv merge_cv ps ex1)"

definition check_promises ::
    "ModelExecution \<Rightarrow> thread_id_t \<Rightarrow> ClockVector option \<Rightarrow> ClockVector \<Rightarrow> ModelExecution" where
  "check_promises ex tid old_cv merge_cv = check_promises_loop tid old_cv merge_cv (ex_promises ex) ex"

definition synchronize :: "ModelExecution \<Rightarrow> act_ref \<Rightarrow> act_ref \<Rightarrow> (bool \<times> ModelExecution) option" where
  "synchronize ex first second =
     (if act_less (ex_acts ex second) (ex_acts ex first)
      then Some (False, set_bad_synchronization ex)
      else do {
        cv \<leftarrow> ma_cv (ex_acts ex first);
        let ex1 = check_promises ex (ma_tid (ex_acts ex first)) (ma_cv (ex_acts ex second)) cv;
        (r, a) \<leftarrow> synchronize_with (ex_acts ex1 second) (ex_acts ex1 first);
        Some (r, put_act ex1 second a)
      })"

section \<open>Blocked threads\<close>

text \<open>
  The loop over the readers for one promise: whether the function returns from it, whether the
  promise has failed on the way, and the changed promise.
\<close>

fun blocking_readers ::
    "act_store \<Rightarrow> thread_id_t \<Rightarrow> thread_id_t \<Rightarrow> act_ref list \<Rightarrow> Promise \<Rightarrow> bool \<Rightarrow> bool \<times> bool \<times> Promise" where
  "blocking_readers acts blocker waiting [] pr failed = (False, failed, pr)"
| "blocking_readers acts blocker waiting (reader # readers) pr failed =
     (if ma_tid (acts reader) \<noteq> blocker
      then blocking_readers acts blocker waiting readers pr failed
      else let (f, pr') = eliminate_thread pr waiting
           in if f then blocking_readers acts blocker waiting readers pr' True
              else (True, failed, pr'))"

fun blocking_loop :: "thread_id_t \<Rightarrow> thread_id_t \<Rightarrow> promise_ref list \<Rightarrow> ModelExecution \<Rightarrow> ModelExecution" where
  "blocking_loop blocker waiting [] ex = ex"
| "blocking_loop blocker waiting (p # ps) ex =
     (if \<not> thread_is_available (ex_proms ex p) waiting then blocking_loop blocker waiting ps ex
      else let (returned, failed, pr) = blocking_readers (ex_acts ex) blocker waiting
                                          (pr_readers (ex_proms ex p)) (ex_proms ex p) False;
               ex1 = put_prom ex p pr;
               ex2 = (if failed then set_failed_promise ex1 else ex1)
           in if returned then ex2 else blocking_loop blocker waiting ps ex2)"

definition thread_blocking_check_promises ::
    "ModelExecution \<Rightarrow> thread_id_t \<Rightarrow> thread_id_t \<Rightarrow> ModelExecution" where
  "thread_blocking_check_promises ex blocker waiting = blocking_loop blocker waiting (ex_promises ex) ex"

definition exec_wait_env :: "ModelExecution \<Rightarrow> wait_env" where
  "exec_wait_env ex =
     \<lparr>we_acts = ex_acts ex, we_thrd_priv = ex_thrd_priv ex, we_thread_at = ex_thread_at ex,
      we_locked = (\<lambda>a. mx_locked (ex_mutexes ex a))\<rparr>"

definition thread_operand :: "ModelExecution \<Rightarrow> act_ref \<Rightarrow> thread_id_t option" where
  "thread_operand ex act = get_thread_operand (ex_thrd_priv ex) (ex_thread_at ex) (ex_acts ex act)"

definition check_action_enabled :: "ModelExecution \<Rightarrow> act_ref \<Rightarrow> (bool \<times> ModelExecution) option" where
  "check_action_enabled ex cur =
     (if is_lock (ex_acts ex cur)
      then do {
        lock \<leftarrow> get_mutex (ex_acts ex cur);
        Some (mx_locked (ex_mutexes ex lock) = None, ex)
      }
      else if is_thread_join (ex_acts ex cur)
      then do {
        blocking \<leftarrow> thread_operand ex cur;
        if \<not> is_complete (ex_threads ex blocking)
        then do {
          t \<leftarrow> get_thread_of ex cur;
          Some (False, thread_blocking_check_promises ex blocking t)
        }
        else Some (True, ex)
      }
      else Some (\<not> (mp_yieldblock (ex_params ex) \<and> is_yield (ex_acts ex cur)), ex))"

section \<open>Changed modification order\<close>

text \<open>\<open>checkPromise\<close> on the graph of the execution, with the changed promise stored.\<close>

definition run_checkPromise :: "ModelExecution \<Rightarrow> act_ref \<Rightarrow> promise_ref \<Rightarrow> (bool \<times> ModelExecution) option" where
  "run_checkPromise ex write p = do {
     (found, pr) \<leftarrow> checkPromise (ex_acts ex) (ex_mo_graph ex) write p (ex_proms ex p);
     Some (found, put_prom ex p pr)
   }"

fun mo_check_loop ::
    "act_ref \<Rightarrow> act_ref option \<Rightarrow> promise_ref list \<Rightarrow> ModelExecution \<Rightarrow> ModelExecution option" where
  "mo_check_loop act write [] ex = Some ex"
| "mo_check_loop act write (p # ps) ex = do {
     w \<leftarrow> write;
     if \<not> same_location (ex_acts ex) (ex_proms ex p) (ex_acts ex w) then mo_check_loop act write ps ex
     else do {
       (failed, ex1) \<leftarrow> (if \<exists>pread \<in> set (pr_readers (ex_proms ex p)).
                              happens_before (ex_acts ex pread) (ex_acts ex act)
                         then run_checkPromise ex w p else Some (False, ex));
       if failed then Some (set_hard_failed_promise ex1)
       else if \<not> thread_is_available (ex_proms ex1 p) (ma_tid (ex_acts ex1 act))
       then mo_check_loop act write ps ex1
       else do {
         reach \<leftarrow> checkReachable (ex_mo_graph ex1) (MoPromise p) (MoAction w);
         (failed2, ex2) \<leftarrow> (if reach then run_checkPromise ex1 w p else Some (False, ex1));
         if failed2 then Some (set_hard_failed_promise ex2) else mo_check_loop act write ps ex2
       }
     }
   }"

definition mo_check_promises :: "ModelExecution \<Rightarrow> act_ref \<Rightarrow> bool \<Rightarrow> ModelExecution option" where
  "mo_check_promises ex act is_read_check =
     mo_check_loop act (if is_read_check then ma_reads_from (ex_acts ex act) else Some act)
       (ex_promises ex) ex"

section \<open>Promises a store may resolve\<close>

text \<open>Whether the store \<open>cur\<close> may resolve the promise.\<close>

definition may_satisfy :: "ModelExecution \<Rightarrow> act_ref \<Rightarrow> promise_ref \<Rightarrow> bool option" where
  "may_satisfy ex cur p =
     (if \<not> is_compatible (ex_acts ex) (ex_proms ex p) (ex_acts ex cur) then Some False
      else do {
        same \<leftarrow> same_value (ex_proms ex p) (ex_acts ex cur);
        Some (same \<and> (\<forall>act \<in> set (pr_readers (ex_proms ex p)).
                        \<not> (happens_before (ex_acts ex act) (ex_acts ex cur) \<or>
                           could_synchronize_with (ex_acts ex act) (ex_acts ex cur))))
      })"

definition compute_promises :: "ModelExecution \<Rightarrow> act_ref \<Rightarrow> ModelExecution option" where
  "compute_promises ex cur =
     foldM (\<lambda>i ex. do {
              satisfy \<leftarrow> may_satisfy ex cur (ex_promises ex ! i);
              if satisfy then update_node ex cur (\<lambda>n. set_promise n i) else Some ex
            }) [0..<length (ex_promises ex)] ex"

text \<open>The index of the promise the node has chosen.\<close>

definition pop_promise_to_resolve :: "ModelExecution \<Rightarrow> act_ref \<Rightarrow> (promise_ref option \<times> ModelExecution) option" where
  "pop_promise_to_resolve ex cur =
     (if ex_promises ex = [] then Some (None, ex)
      else do {
        (n, node) \<leftarrow> node_of ex cur;
        Some (case List.find (\<lambda>i. NodeStack.get_promise node i) [0..<length (ex_promises ex)] of
                None \<Rightarrow> (None, ex)
              | Some i \<Rightarrow> (Some (ex_promises ex ! i),
                           ex\<lparr>ex_promises := take i (ex_promises ex) @ drop (Suc i) (ex_promises ex)\<rparr>))
      })"

fun may_allow_loop :: "ModelExecution \<Rightarrow> act_ref \<Rightarrow> act_ref \<Rightarrow> promise_ref list \<Rightarrow> bool option" where
  "may_allow_loop ex writer reader [] = Some True"
| "may_allow_loop ex writer reader (p # ps) = do {
     pr \<leftarrow> get_reader (ex_proms ex p) 0;
     if act_greater (ex_acts ex reader) (ex_acts ex pr) then Some True
     else if act_greater (ex_acts ex writer) (ex_acts ex pr) then Some False
     else may_allow_loop ex writer reader ps
   }"

definition promises_may_allow :: "ModelExecution \<Rightarrow> act_ref \<Rightarrow> act_ref \<Rightarrow> bool option" where
  "promises_may_allow ex writer reader = may_allow_loop ex writer reader (rev (ex_promises ex))"

definition get_promise_number :: "ModelExecution \<Rightarrow> promise_ref \<Rightarrow> int" where
  "get_promise_number ex promise =
     (case List.find (\<lambda>i. ex_promises ex ! i = promise) [0..<length (ex_promises ex)] of
        Some i \<Rightarrow> int i | None \<Rightarrow> -1)"

section \<open>Data races\<close>

text \<open>
  What the race detector asks of the execution. A thread without a last action or clock vector has
  no race checks; for it the two functions are not called.
\<close>

definition exec_race_env :: "ModelExecution \<Rightarrow> race_env" where
  "exec_race_env ex =
     \<lparr>re_isfeasibleprefix = isfeasibleprefix ex, re_acts = ex_acts ex,
      re_get_parent_action = (\<lambda>t. the (the (get_parent_action ex t))),
      re_get_cv = (\<lambda>t. the (the (get_cv ex t)))\<rparr>"

text \<open>\<open>checkDataRaces\<close> on the execution: every asserted race is a bug of it.\<close>

definition exec_checkDataRaces :: "ModelExecution \<Rightarrow> (bool \<times> ModelExecution) option" where
  "exec_checkDataRaces ex = do {
     (r, rs) \<leftarrow> checkDataRaces (exec_race_env ex) (ex_races ex);
     let new = drop (length (rs_asserted (ex_races ex))) (rs_asserted rs);
     Some (r, fold (\<lambda>race ex. snd (assert_bug ex (BugRace race))) new (ex\<lparr>ex_races := rs\<rparr>))
   }"

section \<open>The latest backtracking point\<close>

definition set_latest_backtrack :: "ModelExecution \<Rightarrow> act_ref \<Rightarrow> bool \<times> ModelExecution" where
  "set_latest_backtrack ex act =
     (if (case ms_next_backtrack (ex_priv ex) of
            None \<Rightarrow> True | Some b \<Rightarrow> act_greater (ex_acts ex act) (ex_acts ex b))
      then (True, ex\<lparr>ex_priv := (ex_priv ex)\<lparr>ms_next_backtrack := Some act\<rparr>\<rparr>)
      else (False, ex))"

definition Execution_get_next_backtrack :: "ModelExecution \<Rightarrow> act_ref option \<times> ModelExecution" where
  "Execution_get_next_backtrack ex =
     (ms_next_backtrack (ex_priv ex), ex\<lparr>ex_priv := (ex_priv ex)\<lparr>ms_next_backtrack := None\<rparr>\<rparr>)"

end
