(* ===== verification/ExecOrder.thy ===== *)
theory ExecOrder
  imports ExecPromise
begin

text \<open>
  The part of \<open>execution.cc\<close> that derives modification-order edges from reads and writes, decides
  which future values may be sent, and limits how often an old store may be read again. The inner
  loops walk the actions of one thread from the most recent one; each adds at most one edge before
  it stops, and is a search for the source of that edge.
\<close>

section \<open>Reads\<close>

text \<open>
  The constant surroundings of a thread's loop: the last seq-cst fence of the current thread, that
  of the thread, and that of the thread before the one of the current thread.
\<close>

record sc_fences =
  sf_local :: "act_ref option"
  sf_thread_local :: "act_ref option"
  sf_thread_before :: "act_ref option"

definition before_fence :: "act_store \<Rightarrow> act_ref \<Rightarrow> act_ref option \<Rightarrow> bool" where
  "before_fence acts act fence = (case fence of None \<Rightarrow> False | Some f \<Rightarrow> act_less (acts act) (acts f))"

text \<open>\<open>None\<close>: a null pointer is followed; \<open>Some None\<close>: no edge from this thread.\<close>

fun r_mo_source ::
    "act_store \<Rightarrow> act_ref \<Rightarrow> mo_obj \<Rightarrow> sc_fences \<Rightarrow> act_ref list \<Rightarrow> mo_obj option option" where
  "r_mo_source acts cur rf sf [] = Some None"
| "r_mo_source acts cur rf sf (act # rest) =
     (if act = cur then r_mo_source acts cur rf sf rest
      else if MoAction act = rf
      then if happens_before (acts act) (acts cur) then Some None else r_mo_source acts cur rf sf rest
      else if is_write (acts act) \<and>
              (is_seqcst (acts cur) \<and> before_fence acts act (sf_thread_local sf) \<or>
               is_seqcst (acts act) \<and> before_fence acts act (sf_local sf) \<or>
               before_fence acts act (sf_thread_before sf))
      then Some (Some (MoAction act))
      else if happens_before (acts act) (acts cur)
      then if is_write (acts act) then Some (Some (MoAction act))
           else (case ma_reads_from (acts act) of
                   Some prevrf \<Rightarrow> Some (if MoAction prevrf \<noteq> rf then Some (MoAction prevrf) else None)
                 | None \<Rightarrow>
                     (case ma_reads_from_promise (acts act) of
                        Some p \<Rightarrow> Some (if MoPromise p \<noteq> rf then Some (MoPromise p) else None)
                      | None \<Rightarrow> None))
      else r_mo_source acts cur rf sf rest)"

text \<open>\<open>added = mo_graph->addEdge(from, to) || added\<close>\<close>

definition add_mo_edge :: "mo_obj \<Rightarrow> mo_obj \<Rightarrow> bool \<times> CycleGraph \<Rightarrow> (bool \<times> CycleGraph) option" where
  "add_mo_edge from to st = do {
     (r, g) \<leftarrow> CycleGraph_addEdge (snd st) from to;
     Some (r \<or> fst st, g)
   }"

definition r_mo_thread ::
    "ModelExecution \<Rightarrow> act_ref \<Rightarrow> mo_obj \<Rightarrow> act_ref option \<Rightarrow> act_ref list list \<Rightarrow> nat \<Rightarrow>
     bool \<times> CycleGraph \<Rightarrow> (bool \<times> CycleGraph) option" where
  "r_mo_thread ex cur rf last_sc_fence_local thrd_lists i st = do {
     thread_local \<leftarrow> (if int_to_id i \<noteq> ma_tid (ex_acts ex cur)
                       then get_last_seq_cst_fence ex (int_to_id i) None else Some None);
     thread_before \<leftarrow> (if last_sc_fence_local \<noteq> None
                        then get_last_seq_cst_fence ex (int_to_id i) last_sc_fence_local else Some None);
     source \<leftarrow> r_mo_source (ex_acts ex) cur rf
                 \<lparr>sf_local = last_sc_fence_local, sf_thread_local = thread_local, sf_thread_before = thread_before\<rparr>
                 (rev (thrd_lists ! i));
     (case source of None \<Rightarrow> Some st | Some src \<Rightarrow> add_mo_edge src rf st)
   }"

text \<open>Thread-exclusive promises come after the object.\<close>

definition exclusive_edges ::
    "ModelExecution \<Rightarrow> act_ref \<Rightarrow> mo_obj \<Rightarrow> bool \<times> CycleGraph \<Rightarrow> (bool \<times> CycleGraph) option" where
  "exclusive_edges ex cur from st =
     foldM (\<lambda>p st. if is_compatible_exclusive (ex_acts ex) (ex_proms ex p) (ex_acts ex cur)
                   then add_mo_edge from (MoPromise p) st else Some st) (ex_promises ex) st"

definition r_modification_order ::
    "ModelExecution \<Rightarrow> act_ref \<Rightarrow> mo_obj \<Rightarrow> (bool \<times> ModelExecution) option" where
  "r_modification_order ex cur rf = do {
     thrd_lists \<leftarrow> obj_thrd_lists ex (ma_location (ex_acts ex cur));
     ASSERT (is_read (ex_acts ex cur));
     last_sc_fence_local \<leftarrow> get_last_seq_cst_fence ex (ma_tid (ex_acts ex cur)) None;
     _ \<leftarrow> (if is_seqcst (ex_acts ex cur) then get_last_seq_cst_write ex cur else Some None);
     st \<leftarrow> foldM (r_mo_thread ex cur rf last_sc_fence_local thrd_lists) [0..<length thrd_lists]
             (False, ex_mo_graph ex);
     (added, g) \<leftarrow> exclusive_edges ex cur rf st;
     Some (added, ex\<lparr>ex_mo_graph := g\<rparr>)
   }"

section \<open>Future values\<close>

partial_function (option) thin_air_loop :: "act_store \<Rightarrow> act_ref \<Rightarrow> act_ref option \<Rightarrow> bool option" where
  "thin_air_loop acts reader search =
     (case search of
        None \<Rightarrow> Some True
      | Some s \<Rightarrow>
          if s = reader then Some False
          else if ma_tid (acts s) = ma_tid (acts reader) \<and> happens_before (acts s) (acts reader)
          then Some True
          else thin_air_loop acts reader (ma_reads_from (acts s)))"

declare thin_air_loop.simps [code]

definition thin_air_constraint_may_allow :: "ModelExecution \<Rightarrow> act_ref \<Rightarrow> act_ref \<Rightarrow> bool option" where
  "thin_air_constraint_may_allow ex writer reader =
     (if \<not> is_rmw (ex_acts ex writer) then Some True
      else if \<not> is_rmw (ex_acts ex reader) then Some True
      else thin_air_loop (ex_acts ex) reader (ma_reads_from (ex_acts ex writer)))"

text \<open>The loop of \<open>mo_may_allow\<close> over the actions of one thread.\<close>

fun write_after_read :: "act_store \<Rightarrow> act_ref \<Rightarrow> act_ref list \<Rightarrow> act_ref option \<Rightarrow> act_ref option" where
  "write_after_read acts reader [] war = war"
| "write_after_read acts reader (act # rest) war =
     (if \<not> happens_before (acts reader) (acts act) \<or> reader = act then war
      else write_after_read acts reader rest
             (if is_write (acts act) then Some act
              else if is_read (acts act) \<and> ma_reads_from (acts act) \<noteq> None then ma_reads_from (acts act)
              else war))"

fun mo_may_allow_loop :: "ModelExecution \<Rightarrow> act_ref \<Rightarrow> act_ref \<Rightarrow> act_ref list list \<Rightarrow> bool option" where
  "mo_may_allow_loop ex writer reader [] = Some True"
| "mo_may_allow_loop ex writer reader (list # ls) =
     (case write_after_read (ex_acts ex) reader (rev list) None of
        None \<Rightarrow> mo_may_allow_loop ex writer reader ls
      | Some w \<Rightarrow>
          if w = writer then mo_may_allow_loop ex writer reader ls
          else do {
            reach \<leftarrow> checkReachable (ex_mo_graph ex) (MoAction w) (MoAction writer);
            if reach then Some False else mo_may_allow_loop ex writer reader ls
          })"

definition mo_may_allow :: "ModelExecution \<Rightarrow> act_ref \<Rightarrow> act_ref \<Rightarrow> bool option" where
  "mo_may_allow ex writer reader = do {
     thrd_lists \<leftarrow> obj_thrd_lists ex (ma_location (ex_acts ex reader));
     mo_may_allow_loop ex writer reader thrd_lists
   }"

text \<open>The first ancestor of a thread, or the thread itself, that exists at a node.\<close>

partial_function (option) existing_ancestor :: "thread_store \<Rightarrow> nat \<Rightarrow> thread_id_t \<Rightarrow> thread_id_t option" where
  "existing_ancestor threads num t =
     (if id_to_int (th_id (threads t)) \<ge> num
      then Option.bind (th_parent (threads t)) (existing_ancestor threads num)
      else Some t)"

declare existing_ancestor.simps [code]

definition Execution_add_future_value :: "ModelExecution \<Rightarrow> act_ref \<Rightarrow> act_ref \<Rightarrow> ModelExecution option" where
  "Execution_add_future_value ex writer reader = do {
     allow \<leftarrow> mo_may_allow ex writer reader;
     if \<not> allow then Some ex
     else do {
       (n, node) \<leftarrow> node_of ex reader;
       t \<leftarrow> get_thread_of ex writer;
       write_thread \<leftarrow> existing_ancestor (ex_threads ex) (nd_num_threads node) t;
       v \<leftarrow> get_write_value (ex_acts ex writer);
       let fv = \<lparr>fv_value = v,
                 fv_expiration = ma_seq_number (ex_acts ex writer) + word_of_int (mp_maxfuturedelay (ex_params ex)),
                 fv_tid = th_id (ex_threads ex write_thread)\<rparr>;
       let (added, node') = NodeStack.add_future_value (ex_params ex) node fv;
       let ex1 = put_node ex n node';
       Some (if added then snd (set_latest_backtrack ex1 reader) else ex1)
     }
   }"

text \<open>
  The walk of \<open>check_coherence_promise\<close> from the read back to the reader of the promise, along the
  parents of the nodes: whether it meets a read of the same thread.
\<close>

partial_function (option) read_between :: "ModelExecution \<Rightarrow> act_ref \<Rightarrow> act_ref \<Rightarrow> act_ref \<Rightarrow> bool option" where
  "read_between ex read prreader tmp =
     (if tmp = prreader then Some False
      else Option.bind (node_of ex tmp) (\<lambda>r.
           Option.bind (nd_parent (snd r)) (\<lambda>p.
           Option.bind (node_at ex p) (\<lambda>parent.
             if is_read (ex_acts ex (nd_action parent)) \<and>
                same_thread (ex_acts ex (nd_action parent)) (ex_acts ex read)
             then Some True
             else read_between ex read prreader (nd_action parent)))))"

declare read_between.simps [code]

fun coherence_readers :: "ModelExecution \<Rightarrow> act_ref \<Rightarrow> act_ref \<Rightarrow> act_ref list \<Rightarrow> bool option" where
  "coherence_readers ex write read [] = Some True"
| "coherence_readers ex write read (prreader # rs) =
     (if ma_tid (ex_acts ex prreader) = ma_tid (ex_acts ex write) \<and>
         act_less (ex_acts ex prreader) (ex_acts ex write)
      then do {
        okay \<leftarrow> (if act_greater (ex_acts ex read) (ex_acts ex prreader)
                  then read_between ex read prreader read else Some False);
        if okay then coherence_readers ex write read rs else Some False
      }
      else coherence_readers ex write read rs)"

fun coherence_loop :: "ModelExecution \<Rightarrow> act_ref \<Rightarrow> act_ref \<Rightarrow> promise_ref list \<Rightarrow> bool option" where
  "coherence_loop ex write read [] = Some True"
| "coherence_loop ex write read (p # ps) =
     (let pr = ex_proms ex p
      in if \<not> same_location (ex_acts ex) pr (ex_acts ex write) then coherence_loop ex write read ps
         else if pr_num_was_available_threads pr = 1 \<and> thread_was_available pr (ma_tid (ex_acts ex read))
         then do {
           ok \<leftarrow> coherence_readers ex write read (pr_readers pr);
           if ok then coherence_loop ex write read ps else Some False
         }
         else coherence_loop ex write read ps)"

definition check_coherence_promise :: "ModelExecution \<Rightarrow> act_ref \<Rightarrow> act_ref \<Rightarrow> bool option" where
  "check_coherence_promise ex write read = coherence_loop ex write read (rev (ex_promises ex))"

section \<open>Writes\<close>

text \<open>
  A read that did not happen before the write, is in another thread and cannot synchronize with it
  may read the value: it is noted in \<open>send_fv\<close>, when the caller asks for that (\<open>collect\<close>).
\<close>

definition offer_value ::
    "bool \<Rightarrow> act_ref \<Rightarrow> act_ref \<Rightarrow> act_ref list \<times> ModelExecution \<Rightarrow> (act_ref list \<times> ModelExecution) option" where
  "offer_value collect cur act st =
     (case st of (send_fv, ex) \<Rightarrow>
        if \<not> collect then Some (send_fv, ex)
        else do {
          thin \<leftarrow> thin_air_constraint_may_allow ex cur act;
          ok \<leftarrow> (if thin then check_coherence_promise ex cur act else Some False);
          if \<not> ok then Some (send_fv, ex)
          else if \<not> is_infeasible ex then Some (send_fv @ [act], ex)
          else if is_rmw (ex_acts ex cur) \<and> is_rmw (ex_acts ex act) \<and>
                  ma_reads_from (ex_acts ex cur) \<noteq> None \<and>
                  ma_reads_from (ex_acts ex cur) = ma_reads_from (ex_acts ex act)
          then do { ex' \<leftarrow> Execution_add_future_value ex cur act; Some (send_fv, ex') }
          else Some (send_fv, ex)
        })"

text \<open>The loop over one thread: the source of the edge to the write, and the collected reads.\<close>

fun w_mo_source ::
    "bool \<Rightarrow> act_ref \<Rightarrow> act_ref option \<Rightarrow> act_ref list \<Rightarrow> act_ref list \<times> ModelExecution \<Rightarrow>
     (mo_obj option \<times> act_ref list \<times> ModelExecution) option" where
  "w_mo_source collect cur fence [] st = Some (None, st)"
| "w_mo_source collect cur fence (act # rest) st =
     (let acts = ex_acts (snd st)
      in if act = cur
         then if is_rmw (acts cur) \<and> ma_reads_from (acts cur) \<noteq> None then Some (None, st)
              else w_mo_source collect cur fence rest st
         else if is_write (acts act) \<and> before_fence acts act fence then Some (Some (MoAction act), st)
         else if happens_before (acts act) (acts cur)
         then if is_write (acts act) then Some (Some (MoAction act), st)
              else if is_read (acts act)
              then (case ma_reads_from (acts act) of
                      Some rf \<Rightarrow> Some (Some (MoAction rf), st)
                    | None \<Rightarrow> do { p \<leftarrow> ma_reads_from_promise (acts act); Some (Some (MoPromise p), st) })
              else Some (None, st)
         else if is_read (acts act) \<and> \<not> could_synchronize_with (acts act) (acts cur) \<and>
                 \<not> same_thread (acts act) (acts cur)
         then do { st' \<leftarrow> offer_value collect cur act st; w_mo_source collect cur fence rest st' }
         else w_mo_source collect cur fence rest st)"

text \<open>\<open>addEdge\<close> on the graph of the execution.\<close>

definition exec_addEdge :: "mo_obj \<Rightarrow> mo_obj \<Rightarrow> bool \<times> ModelExecution \<Rightarrow> (bool \<times> ModelExecution) option" where
  "exec_addEdge from to st = do {
     (added, g) \<leftarrow> add_mo_edge from to (fst st, ex_mo_graph (snd st));
     Some (added, (snd st)\<lparr>ex_mo_graph := g\<rparr>)
   }"

definition w_mo_thread ::
    "bool \<Rightarrow> act_ref \<Rightarrow> act_ref option \<Rightarrow> act_ref list list \<Rightarrow> nat \<Rightarrow>
     bool \<times> act_ref list \<times> ModelExecution \<Rightarrow> (bool \<times> act_ref list \<times> ModelExecution) option" where
  "w_mo_thread collect cur last_sc_fence_local thrd_lists i st =
     (case st of (added, send_fv, ex) \<Rightarrow> do {
        fence \<leftarrow> (if last_sc_fence_local \<noteq> None \<and> int_to_id i \<noteq> ma_tid (ex_acts ex cur)
                   then get_last_seq_cst_fence ex (int_to_id i) last_sc_fence_local else Some None);
        (source, send_fv', ex1) \<leftarrow> w_mo_source collect cur fence (rev (thrd_lists ! i)) (send_fv, ex);
        (case source of
           None \<Rightarrow> Some (added, send_fv', ex1)
         | Some src \<Rightarrow> do {
             (added', ex2) \<leftarrow> exec_addEdge src (MoAction cur) (added, ex1);
             Some (added', send_fv', ex2)
           })
      })"

definition w_modification_order ::
    "ModelExecution \<Rightarrow> act_ref \<Rightarrow> bool \<Rightarrow> (bool \<times> act_ref list \<times> ModelExecution) option" where
  "w_modification_order ex cur collect = do {
     thrd_lists \<leftarrow> obj_thrd_lists ex (ma_location (ex_acts ex cur));
     ASSERT (is_write (ex_acts ex cur));
     last_seq_cst \<leftarrow> (if is_seqcst (ex_acts ex cur) then get_last_seq_cst_write ex cur else Some None);
     (added, ex1) \<leftarrow> (case last_seq_cst of
                         None \<Rightarrow> Some (False, ex)
                       | Some w \<Rightarrow> exec_addEdge (MoAction w) (MoAction cur) (False, ex));
     last_sc_fence_local \<leftarrow> get_last_seq_cst_fence ex1 (ma_tid (ex_acts ex1 cur)) None;
     (added, send_fv, ex2) \<leftarrow> foldM (w_mo_thread collect cur last_sc_fence_local thrd_lists)
                                [0..<length thrd_lists] (added, [], ex1);
     (added, g) \<leftarrow> exclusive_edges ex2 cur (MoAction cur) (added, ex_mo_graph ex2);
     Some (added, send_fv, ex2\<lparr>ex_mo_graph := g\<rparr>)
   }"

section \<open>Recency of reads\<close>

definition act_may_read_from :: "ModelExecution \<Rightarrow> act_ref \<Rightarrow> mo_obj \<Rightarrow> bool option" where
  "act_may_read_from ex act other_rf = do {
     n \<leftarrow> ma_node (ex_acts ex act);
     node \<leftarrow> node_at ex n;
     Some (case other_rf of
             MoAction w \<Rightarrow> may_read_from node w
           | MoPromise p \<Rightarrow> may_read_from_promise (ex_acts ex) node p)
   }"

text \<open>The thread's list from \<open>curr\<close> backwards, without \<open>curr\<close>, which is its last element.\<close>

definition before_curr :: "ModelExecution \<Rightarrow> act_ref \<Rightarrow> act_ref list option" where
  "before_curr ex cur = do {
     thrd_lists \<leftarrow> obj_thrd_lists ex (ma_location (ex_acts ex cur));
     list \<leftarrow> vec_at thrd_lists (id_to_int (ma_tid (ex_acts ex cur)));
     (case rev list of [] \<Rightarrow> None | c # rest \<Rightarrow> do { ASSERT (c = cur); Some rest })
   }"

fun works_for_all :: "ModelExecution \<Rightarrow> mo_obj \<Rightarrow> nat \<Rightarrow> act_ref list \<Rightarrow> bool option" where
  "works_for_all ex other_rf 0 rest = Some True"
| "works_for_all ex other_rf (Suc n) [] = None"
| "works_for_all ex other_rf (Suc n) (act # rest) = do {
     ok \<leftarrow> act_may_read_from ex act other_rf;
     if ok then works_for_all ex other_rf n rest else Some False
   }"

definition should_read_instead :: "ModelExecution \<Rightarrow> act_ref \<Rightarrow> mo_obj \<Rightarrow> mo_obj \<Rightarrow> bool option" where
  "should_read_instead ex cur rf other_rf =
     (if other_rf = rf then Some False
      else do {
        reach \<leftarrow> checkReachable (ex_mo_graph ex) rf other_rf;
        if \<not> reach then Some False
        else do {
          rest \<leftarrow> before_curr ex cur;
          works_for_all ex other_rf (nat (mp_maxreads (ex_params ex))) rest
        }
      })"

definition num_choices :: "ModelExecution \<Rightarrow> act_ref \<Rightarrow> nat option" where
  "num_choices ex act = do {
     (_, node) \<leftarrow> node_of ex act;
     Some (get_read_from_past_size node + get_read_from_promise_size node)
   }"

text \<open>
  Whether the previous \<open>n\<close> actions all read from the same object with a choice: \<open>False\<close> where
  the code returns because one did not.
\<close>

fun same_reads :: "ModelExecution \<Rightarrow> mo_obj \<Rightarrow> nat \<Rightarrow> act_ref list \<Rightarrow> bool option" where
  "same_reads ex rf 0 rest = Some True"
| "same_reads ex rf (Suc n) [] = Some False"
| "same_reads ex rf (Suc n) (act # rest) =
     (let a = ex_acts ex act
      in if \<not> is_read a then Some False
         else if (case ma_reads_from_promise a of None \<Rightarrow> False | Some p \<Rightarrow> MoPromise p \<noteq> rf) then Some False
         else if (case ma_reads_from a of None \<Rightarrow> False | Some w \<Rightarrow> MoAction w \<noteq> rf) then Some False
         else do {
           k \<leftarrow> num_choices ex act;
           if k \<le> 1 then Some False else same_reads ex rf n rest
         })"

fun any_instead :: "ModelExecution \<Rightarrow> act_ref \<Rightarrow> mo_obj \<Rightarrow> mo_obj option list \<Rightarrow> bool option" where
  "any_instead ex cur rf [] = Some False"
| "any_instead ex cur rf (other # os) = do {
     o' \<leftarrow> other;
     b \<leftarrow> should_read_instead ex cur rf o';
     if b then Some True else any_instead ex cur rf os
   }"

definition check_recency :: "ModelExecution \<Rightarrow> act_ref \<Rightarrow> mo_obj \<Rightarrow> bool option" where
  "check_recency ex cur rf =
     (if mp_maxreads (ex_params ex) = 0 then Some True
      else do {
        k \<leftarrow> num_choices ex cur;
        if k \<le> 1 then Some True
        else do {
          rest \<leftarrow> before_curr ex cur;
          enough \<leftarrow> same_reads ex rf (nat (mp_maxreads (ex_params ex))) rest;
          if \<not> enough then Some True
          else do {
            (_, node) \<leftarrow> node_of ex cur;
            b \<leftarrow> any_instead ex cur rf
                   (map (\<lambda>w. Some (MoAction w)) (nd_read_from_past node) @
                    map (\<lambda>r. map_option MoPromise (ma_reads_from_promise (ex_acts ex r))) (nd_read_from_promises node));
            Some (\<not> b)
          }
        }
      })"

end
