(* ===== verification/ExecRelSeq.thy ===== *)
theory ExecRelSeq
  imports ExecOrder
begin

text \<open>
  \<open>workqueue.h\<close> and the release sequences of \<open>execution.cc\<close>: finding the heads of the release
  sequences a read takes part in, keeping the undecided ones, and propagating the clock vector of a
  late synchronization. A work queue is a list of entries with the next one in front.
\<close>

section \<open>Work queue\<close>

datatype model_work_t =
    WORK_NONE
  | WORK_CHECK_CURR_ACTION
  | WORK_CHECK_RELEASE_SEQ
  | WORK_CHECK_MO_EDGES

record WorkQueueEntry =
  wq_type :: model_work_t
  wq_location :: addr
  wq_action :: "act_ref option"

type_synonym work_queue_t = "WorkQueueEntry list"

definition CheckCurrWorkEntry :: "act_ref \<Rightarrow> WorkQueueEntry" where
  "CheckCurrWorkEntry cur = \<lparr>wq_type = WORK_CHECK_CURR_ACTION, wq_location = 0, wq_action = Some cur\<rparr>"

definition CheckRelSeqWorkEntry :: "addr \<Rightarrow> WorkQueueEntry" where
  "CheckRelSeqWorkEntry l = \<lparr>wq_type = WORK_CHECK_RELEASE_SEQ, wq_location = l, wq_action = None\<rparr>"

definition MOEdgeWorkEntry :: "act_ref \<Rightarrow> WorkQueueEntry" where
  "MOEdgeWorkEntry updated = \<lparr>wq_type = WORK_CHECK_MO_EDGES, wq_location = 0, wq_action = Some updated\<rparr>"

section \<open>Heads of release sequences\<close>

text \<open>
  The walk along the chain of read-modify-writes. It returns at an acquire-release one, or leaves
  the loop with the store that ends the chain or with a null pointer.
\<close>

datatype chain_end = ChainComplete | ChainEnd "act_ref option"

definition chain_head :: "act_store \<Rightarrow> act_ref \<Rightarrow> act_ref list" where
  "chain_head acts rf =
     (if is_release (acts rf) then [rf]
      else case ma_last_fence_release (acts rf) of Some f \<Rightarrow> [f] | None \<Rightarrow> [])"

partial_function (option) rel_chain ::
    "act_store \<Rightarrow> act_ref option \<Rightarrow> act_ref list \<Rightarrow> (chain_end \<times> act_ref list) option" where
  "rel_chain acts rf heads =
     (case rf of
        None \<Rightarrow> Some (ChainEnd None, heads)
      | Some r \<Rightarrow>
          if \<not> is_write (acts r) then None
          else if \<not> is_rmw (acts r) then Some (ChainEnd (Some r), heads @ chain_head acts r)
          else if is_acquire (acts r) \<and> is_release (acts r)
          then Some (ChainComplete, heads @ chain_head acts r)
          else rel_chain acts (ma_reads_from (acts r)) (heads @ chain_head acts r))"

declare rel_chain.simps [code]

text \<open>
  The loop over the actions of another thread, for a release and a later store \<open>rf\<close> of one
  thread: \<open>None\<close> inside if a store is ordered between them, otherwise whether later stores of the
  thread are ordered, whether all is certain, and the stores that may break the sequence.
\<close>

type_synonym scan = "bool \<times> bool \<times> act_ref list"

fun scan_thread ::
    "ModelExecution \<Rightarrow> act_ref \<Rightarrow> act_ref \<Rightarrow> act_ref list \<Rightarrow> scan \<Rightarrow> scan option option" where
  "scan_thread ex rf release [] st = Some (Some st)"
| "scan_thread ex rf release (act # rest) st =
     (case st of (future_ordered, certain, writes) \<Rightarrow>
        if happens_before (ex_acts ex act) (ex_acts ex release) then Some (Some st)
        else if happens_before (ex_acts ex rf) (ex_acts ex act)
        then scan_thread ex rf release rest (True, certain, writes)
        else if \<not> is_write (ex_acts ex act) \<or> is_rmw (ex_acts ex act)
        then scan_thread ex rf release rest st
        else do {
          rf_act \<leftarrow> checkReachable (ex_mo_graph ex) (MoAction rf) (MoAction act);
          if rf_act then scan_thread ex rf release rest (True, certain, writes)
          else do {
            act_rel \<leftarrow> checkReachable (ex_mo_graph ex) (MoAction act) (MoAction release);
            if act_rel then Some (Some st)
            else do {
              rel_act \<leftarrow> checkReachable (ex_mo_graph ex) (MoAction release) (MoAction act);
              act_rf \<leftarrow> (if rel_act then checkReachable (ex_mo_graph ex) (MoAction act) (MoAction rf)
                          else Some False);
              if act_rf then Some None
              else scan_thread ex rf release rest (future_ordered, False, writes @ [act])
            }
          }
        })"

text \<open>Whether the thread can no longer break the sequence with a later store.\<close>

definition thread_ordered :: "ModelExecution \<Rightarrow> act_ref \<Rightarrow> nat \<Rightarrow> bool option" where
  "thread_ordered ex rf i = do {
     th \<leftarrow> get_thread ex (int_to_id i);
     let future_ordered =
       ((case get_last_action ex (int_to_id i) of
           None \<Rightarrow> False | Some l \<Rightarrow> happens_before (ex_acts ex rf) (ex_acts ex l)) \<or>
        \<not> Scheduler_is_enabled (ex_scheduler ex) (th_id (ex_threads ex th)) \<or>
        is_complete (ex_threads ex th));
     ASSERT (\<not> th_model_thread (ex_threads ex th) \<or> future_ordered);
     Some future_ordered
   }"

fun scan_threads ::
    "ModelExecution \<Rightarrow> act_ref \<Rightarrow> act_ref \<Rightarrow> act_ref list list \<Rightarrow> nat list \<Rightarrow> bool \<times> act_ref list \<Rightarrow>
     (bool \<times> act_ref list) option option" where
  "scan_threads ex rf release thrd_lists [] st = Some (Some st)"
| "scan_threads ex rf release thrd_lists (i # is) st =
     (if id_to_int (ma_tid (ex_acts ex rf)) = i then scan_threads ex rf release thrd_lists is st
      else do {
        future_ordered \<leftarrow> thread_ordered ex rf i;
        r \<leftarrow> scan_thread ex rf release (rev (thrd_lists ! i)) (future_ordered, fst st, snd st);
        (case r of
           None \<Rightarrow> Some None
         | Some (future_ordered, certain, writes) \<Rightarrow>
             scan_threads ex rf release thrd_lists is (certain \<and> future_ordered, writes))
      })"

text \<open>The last release in the list of the thread from \<open>rf\<close> backwards, unless the fence is later.\<close>

fun find_release :: "act_store \<Rightarrow> act_ref option \<Rightarrow> act_ref list \<Rightarrow> act_ref option" where
  "find_release acts fence_release [] = None"
| "find_release acts fence_release (act # rest) =
     (if before_fence acts act fence_release then None
      else if is_release (acts act) then Some act
      else find_release acts fence_release rest)"

definition relaxed_heads ::
    "ModelExecution \<Rightarrow> act_ref \<Rightarrow> act_ref list \<Rightarrow> release_seq \<Rightarrow> (bool \<times> act_ref list \<times> release_seq) option" where
  "relaxed_heads ex rf heads pending = do {
     let fence_release = ma_last_fence_release (ex_acts ex rf);
     let heads = heads @ (case fence_release of Some f \<Rightarrow> [f] | None \<Rightarrow> []);
     thrd_lists \<leftarrow> obj_thrd_lists ex (ma_location (ex_acts ex rf));
     list \<leftarrow> vec_at thrd_lists (id_to_int (ma_tid (ex_acts ex rf)));
     let rest = dropWhile (\<lambda>a. a \<noteq> rf) (rev list);
     ASSERT (rest \<noteq> []);
     (case find_release (ex_acts ex) fence_release rest of
        None \<Rightarrow> Some (True, heads, pending)
      | Some release \<Rightarrow> do {
          ASSERT (same_thread (ex_acts ex rf) (ex_acts ex release));
          r \<leftarrow> scan_threads ex rf release thrd_lists [0..<length thrd_lists] (True, []);
          Some (case r of
                  None \<Rightarrow> (True, heads, pending\<lparr>rq_writes := []\<rparr>)
                | Some (certain, writes) \<Rightarrow>
                    if certain then (True, heads @ [release], pending\<lparr>rq_writes := []\<rparr>)
                    else (False, heads, pending\<lparr>rq_writes := writes, rq_release := Some release, rq_rf := Some rf\<rparr>))
        })
   }"

definition release_seq_heads ::
    "ModelExecution \<Rightarrow> act_ref option \<Rightarrow> release_seq \<Rightarrow> (bool \<times> act_ref list \<times> release_seq) option" where
  "release_seq_heads ex rf pending =
     (if checkForCycles (ex_mo_graph ex) then Some (False, [], pending)
      else do {
        (chain, heads) \<leftarrow> rel_chain (ex_acts ex) rf [];
        (case chain of
           ChainComplete \<Rightarrow> Some (True, heads, pending)
         | ChainEnd None \<Rightarrow> Some (False, heads, pending\<lparr>rq_rf := None\<rparr>)
         | ChainEnd (Some r) \<Rightarrow>
             if is_release (ex_acts ex r) then Some (True, heads, pending)
             else relaxed_heads ex r heads pending)
      })"

definition get_release_seq_heads ::
    "ModelExecution \<Rightarrow> act_ref \<Rightarrow> act_ref \<Rightarrow> (act_ref list \<times> ModelExecution) option" where
  "get_release_seq_heads ex acquire read = do {
     let sequence = \<lparr>rq_acquire = acquire, rq_read = read, rq_rf = None, rq_release = None, rq_writes = []\<rparr>;
     (complete, heads, sequence) \<leftarrow> release_seq_heads ex (ma_reads_from (ex_acts ex read)) sequence;
     Some (heads, if complete then ex
                  else ex\<lparr>ex_pending_rel_seqs := ex_pending_rel_seqs ex @ [sequence]\<rparr>)
   }"

section \<open>Late synchronization\<close>

text \<open>The walk from the end of the trace down to the acquire action, which must be in it.\<close>

fun propagate_loop ::
    "act_ref \<Rightarrow> act_ref list \<Rightarrow> work_queue_t \<times> ModelExecution \<Rightarrow> (work_queue_t \<times> ModelExecution) option" where
  "propagate_loop acquire [] st = None"
| "propagate_loop acquire (propagate # rest) st =
     (if propagate = acquire then Some st
      else if happens_before (ex_acts (snd st) acquire) (ex_acts (snd st) propagate)
      then do {
        (_, ex1) \<leftarrow> synchronize (snd st) acquire propagate;
        propagate_loop acquire rest (fst st @ [MOEdgeWorkEntry propagate], ex1)
      }
      else propagate_loop acquire rest st)"

definition propagate_clockvector ::
    "ModelExecution \<Rightarrow> act_ref \<Rightarrow> work_queue_t \<Rightarrow> (work_queue_t \<times> ModelExecution) option" where
  "propagate_clockvector ex acquire work =
     propagate_loop acquire (rev (ex_action_trace ex))
       (work @ [CheckRelSeqWorkEntry 0, MOEdgeWorkEntry acquire], ex)"

text \<open>Synchronization with the heads not yet synchronized with; the flag says whether any succeeded.\<close>

fun sync_heads :: "act_ref \<Rightarrow> act_ref list \<Rightarrow> bool \<times> ModelExecution \<Rightarrow> (bool \<times> ModelExecution) option" where
  "sync_heads acquire [] st = Some st"
| "sync_heads acquire (h # hs) st =
     (if has_synchronized_with (ex_acts (snd st) acquire) (ex_acts (snd st) h)
      then sync_heads acquire hs st
      else do {
        (ok, ex1) \<leftarrow> synchronize (snd st) h acquire;
        sync_heads acquire hs (ok \<or> fst st, ex1)
      })"

text \<open>The loop over the pending sequences; the first component is the list that is kept.\<close>

fun resolve_loop ::
    "addr \<Rightarrow> release_seq list \<Rightarrow> bool \<times> work_queue_t \<times> ModelExecution \<Rightarrow>
     (release_seq list \<times> bool \<times> work_queue_t \<times> ModelExecution) option" where
  "resolve_loop location [] st = Some ([], st)"
| "resolve_loop location (pending # seqs) st =
     (case st of (updated, work, ex) \<Rightarrow>
        if location \<noteq> 0 \<and> ma_location (ex_acts ex (rq_read pending)) \<noteq> location
        then do {
          (kept, st') \<leftarrow> resolve_loop location seqs st;
          Some (pending # kept, st')
        }
        else do {
          (complete, heads, pending') \<leftarrow>
             release_seq_heads ex (ma_reads_from (ex_acts ex (rq_read pending))) pending;
          (updated, ex1) \<leftarrow> sync_heads (rq_acquire pending) heads (updated, ex);
          (work, ex2) \<leftarrow> (if updated then propagate_clockvector ex1 (rq_acquire pending) work
                           else Some (work, ex1));
          (kept, st') \<leftarrow> resolve_loop location seqs (updated, work, ex2);
          Some (if complete then kept else pending' # kept, st')
        })"

definition resolve_release_sequences ::
    "ModelExecution \<Rightarrow> addr \<Rightarrow> work_queue_t \<Rightarrow> (bool \<times> work_queue_t \<times> ModelExecution) option" where
  "resolve_release_sequences ex location work = do {
     (kept, updated, work, ex1) \<leftarrow> resolve_loop location (ex_pending_rel_seqs ex) (False, work, ex);
     (_, ex2) \<leftarrow> exec_checkDataRaces (ex1\<lparr>ex_pending_rel_seqs := kept\<rparr>);
     Some (updated, work, ex2)
   }"

section \<open>Reads-from\<close>

text \<open>\<open>set_read_from\<close> on the execution: reading an uninitialised object is a bug.\<close>

definition exec_set_read_from :: "ModelExecution \<Rightarrow> act_ref \<Rightarrow> act_ref \<Rightarrow> ModelExecution" where
  "exec_set_read_from ex act rf =
     (let (a, bug) = set_read_from (ex_acts ex act) rf (ex_acts ex rf);
          ex1 = put_act ex act a
      in if bug then snd (assert_bug ex1 (BugUninit act)) else ex1)"

text \<open>Synchronization with all heads, counting those that fail.\<close>

fun sync_all :: "act_ref \<Rightarrow> act_ref list \<Rightarrow> int \<Rightarrow> ModelExecution \<Rightarrow> (int \<times> ModelExecution) option" where
  "sync_all act [] num_heads ex = Some (num_heads, ex)"
| "sync_all act (h # hs) num_heads ex = do {
     (ok, ex1) \<leftarrow> synchronize ex h act;
     sync_all act hs (if ok then num_heads else num_heads - 1) ex1
   }"

definition read_from :: "ModelExecution \<Rightarrow> act_ref \<Rightarrow> act_ref \<Rightarrow> (bool \<times> ModelExecution) option" where
  "read_from ex act rf = do {
     ASSERT (is_write (ex_acts ex rf));
     let ex1 = exec_set_read_from ex act rf;
     if is_acquire (ex_acts ex1 act)
     then do {
       (release_heads, ex2) \<leftarrow> get_release_seq_heads ex1 act act;
       (num_heads, ex3) \<leftarrow> sync_all act release_heads (int (length release_heads)) ex2;
       Some (num_heads > 0, ex3)
     }
     else Some (False, ex1)
   }"

end
