(* ===== verification/ExecConflict.thy ===== *)
theory ExecConflict
  imports ExecPromise
begin

text \<open>
  The part of \<open>execution.cc\<close> that decides where the search has to backtrack: the last action that
  conflicts with the current one, the threads to be tried at the node before it, and the sleeping
  threads an action wakes up.
\<close>

section \<open>Sleeping threads\<close>

definition should_wake_up :: "ModelExecution \<Rightarrow> act_ref \<Rightarrow> thread_id_t \<Rightarrow> bool option" where
  "should_wake_up ex cur thread =
     (if is_rmwr (ex_acts ex cur) then Some False
      else do {
        p \<leftarrow> th_pending (ex_threads ex thread);
        let asleep = ex_acts ex p;
        let c = ex_acts ex cur;
        if could_synchronize_with asleep c then Some True
        else if is_fence asleep \<and> is_acquire asleep \<and> is_release c then Some True
        else if is_read asleep \<and> is_acquire asleep \<and> same_var c asleep \<and> is_write c
        then (case get_last_fence_release ex (ma_tid c) of
                None \<Rightarrow> Some False
              | Some f \<Rightarrow> do {
                  l \<leftarrow> get_last_action ex (th_id (ex_threads ex thread));
                  Some (act_less (ex_acts ex l) (ex_acts ex f))
                })
        else Some False
      })"

definition wake_up_sleeping_actions :: "ModelExecution \<Rightarrow> act_ref \<Rightarrow> ModelExecution option" where
  "wake_up_sleeping_actions ex cur =
     foldM (\<lambda>i ex. do {
              thr \<leftarrow> get_thread ex (int_to_id i);
              asleep \<leftarrow> is_sleep_set (ex_scheduler ex) thr;
              if \<not> asleep then Some ex
              else do {
                w \<leftarrow> should_wake_up ex cur thr;
                Some (if w then with_scheduler ex (remove_sleep (ex_scheduler ex) thr) else ex)
              }
            }) [0..<get_num_threads ex] ex"

section \<open>The last conflict\<close>

text \<open>
  The loop of \<open>get_last_fence_conflict\<close> backwards from the release, over the arrays
  \<open>acquire_fences\<close> and \<open>prior_loads\<close> and the flag \<open>found_acquire_fences\<close>: \<open>Some None\<close>
  where it returns early.
\<close>

type_synonym fence_scan = "act_ref option list \<times> act_ref option list \<times> bool"

definition note_load :: "ModelAction \<Rightarrow> ModelAction \<Rightarrow> act_ref \<Rightarrow> act_ref option list \<Rightarrow> act_ref option list option" where
  "note_load act p prev prior_loads =
     (if is_read p \<and> same_var act p \<and> \<not> is_acquire p
      then do {
        ASSERT (id_to_int (ma_tid p) < length prior_loads);
        Some (prior_loads[id_to_int (ma_tid p) := Some prev])
      }
      else Some prior_loads)"

definition note_fence ::
    "ModelAction \<Rightarrow> act_ref \<Rightarrow> act_ref option list \<times> bool \<Rightarrow> (act_ref option list \<times> bool) option" where
  "note_fence p prev st =
     (if is_acquire p \<and> is_fence p
      then do {
        f \<leftarrow> vec_at (fst st) (id_to_int (ma_tid p));
        Some (if f = None then ((fst st)[id_to_int (ma_tid p) := Some prev], True) else st)
      }
      else Some st)"

definition fence_conflict_step ::
    "act_store \<Rightarrow> ModelAction \<Rightarrow> act_ref \<Rightarrow> fence_scan \<Rightarrow> fence_scan option option" where
  "fence_conflict_step acts act prev st =
     (case st of (acquire_fences, prior_loads, found) \<Rightarrow>
        if same_thread act (acts prev) then Some (Some st)
        else if is_read (acts prev) \<and> same_var act (acts prev) \<and> is_acquire (acts prev) \<and> \<not> found
        then Some None
        else do {
          prior_loads \<leftarrow> note_load act (acts prev) prev prior_loads;
          (acquire_fences, found) \<leftarrow> note_fence (acts prev) prev (acquire_fences, found);
          Some (Some (acquire_fences, prior_loads, found))
        })"

fun fence_conflict_loop ::
    "act_store \<Rightarrow> ModelAction \<Rightarrow> act_ref list \<Rightarrow> fence_scan \<Rightarrow> fence_scan option option" where
  "fence_conflict_loop acts act [] st = Some (Some st)"
| "fence_conflict_loop acts act (prev # rest) st = do {
     r \<leftarrow> fence_conflict_step acts act prev st;
     (case r of None \<Rightarrow> Some None | Some st' \<Rightarrow> fence_conflict_loop acts act rest st')
   }"

definition latest_fence :: "act_store \<Rightarrow> (act_ref option \<times> act_ref option) list \<Rightarrow> act_ref option" where
  "latest_fence acts pairs =
     fold (\<lambda>(fence, load) latest.
             case (fence, load) of
               (Some f, Some _) \<Rightarrow> (case latest of
                                     None \<Rightarrow> Some f
                                   | Some l \<Rightarrow> if act_less (acts l) (acts f) then Some f else latest)
             | _ \<Rightarrow> latest) pairs None"

definition get_last_fence_conflict :: "ModelExecution \<Rightarrow> act_ref \<Rightarrow> act_ref option option" where
  "get_last_fence_conflict ex act =
     (let a = ex_acts ex act
      in if \<not> is_write a then Some None
         else case (if is_release a then Some act else get_last_fence_release ex (ma_tid a)) of
                None \<Rightarrow> Some None
              | Some last_release \<Rightarrow> do {
                  let rest = dropWhile (\<lambda>x. x \<noteq> last_release) (rev (ex_action_trace ex));
                  ASSERT (rest \<noteq> []);
                  let nulls = replicate (get_num_threads ex) None;
                  r \<leftarrow> fence_conflict_loop (ex_acts ex) a rest (nulls, nulls, False);
                  Some (case r of
                          None \<Rightarrow> None
                        | Some (acquire_fences, prior_loads, _) \<Rightarrow>
                            latest_fence (ex_acts ex) (zip acquire_fences prior_loads))
                })"

text \<open>A linear search from the most recent action on the object to the oldest.\<close>

definition last_on_obj :: "ModelExecution \<Rightarrow> act_ref \<Rightarrow> (act_ref \<Rightarrow> bool) \<Rightarrow> act_ref option option" where
  "last_on_obj ex act P = do {
     list \<leftarrow> obj_list ex (ma_location (ex_acts ex act));
     Some (List.find P (rev list))
   }"

definition memory_conflict :: "ModelExecution \<Rightarrow> act_ref \<Rightarrow> act_ref option option" where
  "memory_conflict ex act = do {
     ret \<leftarrow> last_on_obj ex act
              (\<lambda>prev. prev \<noteq> act \<and> could_synchronize_with (ex_acts ex prev) (ex_acts ex act));
     ret2 \<leftarrow> get_last_fence_conflict ex act;
     Some (case (ret, ret2) of
             (_, None) \<Rightarrow> ret
           | (None, Some _) \<Rightarrow> ret2
           | (Some r, Some r2) \<Rightarrow> if act_less (ex_acts ex r) (ex_acts ex r2) then ret2 else ret)
   }"

definition get_last_conflict :: "ModelExecution \<Rightarrow> act_ref \<Rightarrow> act_ref option option" where
  "get_last_conflict ex act =
     (let a = ex_acts ex act; acts = ex_acts ex
      in case ma_type a of
           ATOMIC_FENCE \<Rightarrow> if \<not> is_seqcst a then Some None else memory_conflict ex act
         | ATOMIC_READ \<Rightarrow> memory_conflict ex act
         | ATOMIC_WRITE \<Rightarrow> memory_conflict ex act
         | ATOMIC_RMW \<Rightarrow> memory_conflict ex act
         | ATOMIC_LOCK \<Rightarrow> last_on_obj ex act (\<lambda>prev. is_conflicting_lock a (acts prev))
         | ATOMIC_TRYLOCK \<Rightarrow> last_on_obj ex act (\<lambda>prev. is_conflicting_lock a (acts prev))
         | ATOMIC_UNLOCK \<Rightarrow>
             last_on_obj ex act (\<lambda>prev. \<not> same_thread a (acts prev) \<and> is_failed_trylock (acts prev))
         | ATOMIC_WAIT \<Rightarrow>
             last_on_obj ex act (\<lambda>prev. \<not> same_thread a (acts prev) \<and>
                                         (is_failed_trylock (acts prev) \<or> is_notify (acts prev)))
         | ATOMIC_NOTIFY_ALL \<Rightarrow>
             last_on_obj ex act (\<lambda>prev. \<not> same_thread a (acts prev) \<and> is_wait (acts prev))
         | ATOMIC_NOTIFY_ONE \<Rightarrow>
             last_on_obj ex act (\<lambda>prev. \<not> same_thread a (acts prev) \<and> is_wait (acts prev))
         | _ \<Rightarrow> Some None)"

section \<open>Setting backtracking points\<close>

text \<open>Whether some enabled thread of the node satisfies a test: the two fairness loops.\<close>

fun some_enabled :: "Node \<Rightarrow> (thread_id_t \<Rightarrow> bool option) \<Rightarrow> nat list \<Rightarrow> bool option" where
  "some_enabled node test [] = Some False"
| "some_enabled node test (t # ts) = do {
     en \<leftarrow> Node_is_enabled node (int_to_id t);
     b \<leftarrow> (if en then test (int_to_id t) else Some False);
     if b then Some True else some_enabled node test ts
   }"

definition unfair_window :: "model_params \<Rightarrow> Node \<Rightarrow> thread_id_t \<Rightarrow> bool option" where
  "unfair_window params node tid =
     (if mp_fairwindow params = 0 then Some False
      else do {
        own \<leftarrow> has_priority node tid;
        if own then Some False
        else some_enabled node (has_priority node) [0..<nd_num_threads node]
      })"

definition unfair_yield :: "model_params \<Rightarrow> Node \<Rightarrow> thread_id_t \<Rightarrow> bool option" where
  "unfair_yield params node tid =
     (if \<not> mp_yieldon params then Some False
      else some_enabled node (has_priority_over node tid) [0..<nd_num_threads node])"

text \<open>Whether thread \<open>i\<close> may be tried at the node: the guards of the loop body.\<close>

definition backtrack_allowed :: "model_params \<Rightarrow> Node \<Rightarrow> nat \<Rightarrow> bool option" where
  "backtrack_allowed params node i = do {
     st \<leftarrow> enabled_status node (int_to_id i);
     if st \<noteq> THREAD_ENABLED then Some False
     else do {
       explored \<leftarrow> has_been_explored node (int_to_id i);
       if explored then Some False
       else do {
         unfair \<leftarrow> unfair_window params node (int_to_id i);
         if unfair then Some False
         else do { unfair \<leftarrow> unfair_yield params node (int_to_id i); Some (\<not> unfair) }
       }
     }
   }"

fun backtrack_loop :: "act_ref \<Rightarrow> node_ref \<Rightarrow> nat list \<Rightarrow> ModelExecution \<Rightarrow> ModelExecution option" where
  "backtrack_loop prev n [] ex = Some ex"
| "backtrack_loop prev n (i # is) ex = do {
     node \<leftarrow> node_at ex n;
     if i \<ge> nd_num_threads node then Some ex
     else do {
       allowed \<leftarrow> backtrack_allowed (ex_params ex) node i;
       if \<not> allowed then backtrack_loop prev n is ex
       else do {
         let ex1 = snd (set_latest_backtrack ex prev);
         (_, node') \<leftarrow> set_backtrack node (int_to_id i);
         backtrack_loop prev n is (put_node ex1 n node')
       }
     }
   }"

definition set_backtracking :: "ModelExecution \<Rightarrow> act_ref \<Rightarrow> ModelExecution option" where
  "set_backtracking ex act = do {
     t \<leftarrow> get_thread_of ex act;
     r \<leftarrow> get_last_conflict ex act;
     (case r of
        None \<Rightarrow> Some ex
      | Some prev \<Rightarrow> do {
          (_, prevnode) \<leftarrow> node_of ex prev;
          n \<leftarrow> nd_parent prevnode;
          node \<leftarrow> node_at ex n;
          st \<leftarrow> enabled_status node (th_id (ex_threads ex t));
          if st = THREAD_ENABLED
          then backtrack_loop prev n [id_to_int (ma_tid (ex_acts ex act))] ex
          else backtrack_loop prev n [0..<get_num_threads ex] ex
        })
   }"

definition check_curr_backtracking :: "ModelExecution \<Rightarrow> act_ref \<Rightarrow> ModelExecution option" where
  "check_curr_backtracking ex cur = do {
     (_, currnode) \<leftarrow> node_of ex cur;
     par \<leftarrow> (case nd_parent currnode of
                None \<Rightarrow> Some False
              | Some p \<Rightarrow> do { parnode \<leftarrow> node_at ex p; Some (\<not> backtrack_empty parnode) });
     Some (if par \<or> \<not> misc_empty currnode \<or> \<not> read_from_empty currnode \<or>
              \<not> promise_empty currnode \<or> \<not> relseq_break_empty currnode
           then snd (set_latest_backtrack ex cur) else ex)
   }"

end
