(* ===== verification/ExecStep.thy ===== *)
theory ExecStep
  imports ExecRelSeq ExecConflict
begin

text \<open>
  The rest of \<open>execution.cc\<close>: the processing of one action by its kind, the work queue that follows
  from it, and the step of the execution. Loops whose end depends on the data (retrying a read,
  emptying the work queue, following chains of reads) are partial functions: not returning is
  \<open>None\<close>.
\<close>

section \<open>Thread objects\<close>

definition put_thread :: "ModelExecution \<Rightarrow> thread_id_t \<Rightarrow> Thread \<Rightarrow> ModelExecution" where
  "put_thread ex t th = ex\<lparr>ex_threads := (ex_threads ex)(t := th)\<rparr>"

definition set_return_value :: "ModelExecution \<Rightarrow> act_ref \<Rightarrow> uint64 \<Rightarrow> ModelExecution option" where
  "set_return_value ex act v = do {
     t \<leftarrow> get_thread_of ex act;
     Some (put_thread ex t ((ex_threads ex t)\<lparr>th_last_action_val := v\<rparr>))
   }"

definition wake_thread :: "ModelExecution \<Rightarrow> thread_id_t \<Rightarrow> ModelExecution option" where
  "wake_thread ex t = do {
     (check, s, threads) \<leftarrow> wake (ex_threads ex) (ex_scheduler ex) t;
     Some (with_scheduler (ex\<lparr>ex_threads := threads\<rparr>) (check, s))
   }"

definition sleep_thread :: "ModelExecution \<Rightarrow> thread_id_t \<Rightarrow> ModelExecution option" where
  "sleep_thread ex t = do {
     (check, s, threads) \<leftarrow> Scheduler_sleep (ex_threads ex) (ex_scheduler ex) t;
     Some (with_scheduler (ex\<lparr>ex_threads := threads\<rparr>) (check, s))
   }"

section \<open>Reads\<close>

definition graph_startChanges :: "ModelExecution \<Rightarrow> ModelExecution option" where
  "graph_startChanges ex = do { g \<leftarrow> startChanges (ex_mo_graph ex); Some (ex\<lparr>ex_mo_graph := g\<rparr>) }"

definition graph_commitChanges :: "ModelExecution \<Rightarrow> ModelExecution" where
  "graph_commitChanges ex = ex\<lparr>ex_mo_graph := commitChanges (ex_mo_graph ex)\<rparr>"

definition graph_rollbackChanges :: "ModelExecution \<Rightarrow> ModelExecution" where
  "graph_rollbackChanges ex = ex\<lparr>ex_mo_graph := rollbackChanges (ex_mo_graph ex)\<rparr>"

text \<open>The three cases of \<open>process_read\<close>; \<open>Inl\<close> is the retry with the next choice.\<close>

definition read_past :: "ModelExecution \<Rightarrow> act_ref \<Rightarrow> act_ref \<Rightarrow> (bool \<times> ModelExecution) option" where
  "read_past ex cur rf = do {
     (updated, ex1) \<leftarrow> r_modification_order ex cur (MoAction rf);
     (_, ex2) \<leftarrow> read_from ex1 cur rf;
     ex3 \<leftarrow> mo_check_promises (graph_commitChanges ex2) cur True;
     Some (updated, ex3)
   }"

definition process_read_past ::
    "ModelExecution \<Rightarrow> act_ref \<Rightarrow> node_ref \<Rightarrow> Node \<Rightarrow> (ModelExecution + bool \<times> ModelExecution) option" where
  "process_read_past ex cur n node = do {
     rf \<leftarrow> get_read_from_past node;
     ex1 \<leftarrow> graph_startChanges ex;
     ASSERT (\<not> is_infeasible ex1);
     recent \<leftarrow> check_recency ex1 cur (MoAction rf);
     if recent then map_option Inr (read_past ex1 cur rf)
     else do {
       let (more, node') = increment_read_from node;
       let ex2 = put_node ex1 n node';
       if more then Some (Inl (graph_rollbackChanges ex2))
       else map_option Inr (read_past (set_too_many_reads ex2) cur rf)
     }
   }"

definition process_read_promise ::
    "ModelExecution \<Rightarrow> act_ref \<Rightarrow> Node \<Rightarrow> (bool \<times> ModelExecution) option" where
  "process_read_promise ex cur node = do {
     r \<leftarrow> get_read_from_promise (ex_acts ex) node;
     promise \<leftarrow> r;
     let (failed, pr) = add_reader (ex_proms ex promise) cur (ex_acts ex cur);
     let ex1 = put_prom ex promise pr;
     let ex2 = (if failed then set_failed_promise ex1 else ex1);
     a \<leftarrow> set_read_from_promise (ex_acts ex2 cur) promise;
     ex3 \<leftarrow> graph_startChanges (put_act ex2 cur a);
     recent \<leftarrow> check_recency ex3 cur (MoPromise promise);
     let ex4 = (if recent then ex3 else set_too_many_reads ex3);
     (updated, ex5) \<leftarrow> r_modification_order ex4 cur (MoPromise promise);
     Some (updated, graph_commitChanges ex5)
   }"

definition process_read_future ::
    "ModelExecution \<Rightarrow> act_ref \<Rightarrow> Node \<Rightarrow> (bool \<times> ModelExecution) option" where
  "process_read_future ex cur node = do {
     fv \<leftarrow> get_future_value node;
     let promise = ex_next_prom ex;
     let ex1 = ex\<lparr>ex_proms := (ex_proms ex)(promise := new_Promise cur (ex_acts ex cur) fv),
                  ex_next_prom := Suc promise\<rparr>;
     a \<leftarrow> set_read_from_promise (ex_acts ex1 cur) promise;
     let ex2 = (put_act ex1 cur a)\<lparr>ex_promises := ex_promises ex1 @ [promise]\<rparr>;
     ex3 \<leftarrow> graph_startChanges ex2;
     (updated, ex4) \<leftarrow> r_modification_order ex3 cur (MoPromise promise);
     Some (updated, graph_commitChanges ex4)
   }"

definition process_read_step ::
    "ModelExecution \<Rightarrow> act_ref \<Rightarrow> (ModelExecution + bool \<times> ModelExecution) option" where
  "process_read_step ex cur = do {
     (n, node0) \<leftarrow> node_of ex cur;
     let (status, node) = get_read_from_status node0;
     let ex0 = put_node ex n node;
     (case status of
        READ_FROM_PAST \<Rightarrow> process_read_past ex0 cur n node
      | READ_FROM_PROMISE \<Rightarrow> map_option Inr (process_read_promise ex0 cur node)
      | READ_FROM_FUTURE \<Rightarrow> map_option Inr (process_read_future ex0 cur node)
      | READ_FROM_NONE \<Rightarrow> None)
   }"

partial_function (option) process_read_loop :: "ModelExecution \<Rightarrow> act_ref \<Rightarrow> (bool \<times> ModelExecution) option" where
  "process_read_loop ex cur =
     Option.bind (process_read_step ex cur) (\<lambda>r.
       case r of Inl ex' \<Rightarrow> process_read_loop ex' cur | Inr res \<Rightarrow> Some res)"

declare process_read_loop.simps [code]

definition process_read :: "ModelExecution \<Rightarrow> act_ref \<Rightarrow> (bool \<times> ModelExecution) option" where
  "process_read ex cur = do {
     (updated, ex1) \<leftarrow> process_read_loop ex cur;
     v \<leftarrow> get_return_value (ex_acts ex1) (ex_proms ex1) (ex_acts ex1 cur);
     ex2 \<leftarrow> set_return_value ex1 cur v;
     Some (updated, ex2)
   }"

section \<open>Mutexes and condition variables\<close>

definition put_mutex :: "ModelExecution \<Rightarrow> addr \<Rightarrow> mutex_state \<Rightarrow> ModelExecution" where
  "put_mutex ex m st = ex\<lparr>ex_mutexes := (ex_mutexes ex)(m := st)\<rparr>"

definition take_lock :: "ModelExecution \<Rightarrow> act_ref \<Rightarrow> addr \<Rightarrow> (bool \<times> ModelExecution) option" where
  "take_lock ex cur mutex = do {
     let state = ex_mutexes ex mutex;
     cv \<leftarrow> ma_cv (ex_acts ex cur);
     let ex1 = (if ClockVector_getClock cv (mx_alloc_tid state) \<le> mx_alloc_clock state
                then snd (assert_bug ex (BugText ''Lock access before initialization'')) else ex);
     let ex2 = put_mutex ex1 mutex (state\<lparr>mx_locked := get_thread_of ex1 cur\<rparr>);
     unlock \<leftarrow> get_last_unlock ex2 cur;
     (case unlock of
        None \<Rightarrow> Some (False, ex2)
      | Some u \<Rightarrow> do { (_, ex3) \<leftarrow> synchronize ex2 u cur; Some (True, ex3) })
   }"

text \<open>The threads that wait for a lock of the current thread are woken up.\<close>

definition wake_waiting :: "(ModelAction \<Rightarrow> bool) \<Rightarrow> thread_id_t \<Rightarrow> nat \<Rightarrow> ModelExecution \<Rightarrow> ModelExecution option" where
  "wake_waiting kind th i ex = do {
     t \<leftarrow> get_thread ex (int_to_id i);
     if waiting_on (exec_wait_env ex) (ex_threads ex t) = Some th
     then do {
       p \<leftarrow> th_pending (ex_threads ex t);
       if kind (ex_acts ex p) then wake_thread ex t else Some ex
     }
     else Some ex
   }"

definition release_lock :: "ModelExecution \<Rightarrow> act_ref \<Rightarrow> addr \<Rightarrow> ModelExecution option" where
  "release_lock ex cur mutex = do {
     curr_thrd \<leftarrow> get_thread_of ex cur;
     ex1 \<leftarrow> foldM (wake_waiting is_lock curr_thrd) [0..<get_num_threads ex] ex;
     let ex2 = put_mutex ex1 mutex ((ex_mutexes ex1 mutex)\<lparr>mx_locked := None\<rparr>);
     if \<not> is_wait (ex_acts ex2 cur) then Some ex2
     else do {
       (_, node) \<leftarrow> node_of ex2 cur;
       if get_misc node = 0
       then do {
         let location = ma_location (ex_acts ex2 cur);
         waiters \<leftarrow> get_safe_ptr_action (ex_condvar_waiters_map ex2) location;
         sleep_thread (ex2\<lparr>ex_condvar_waiters_map := (ex_condvar_waiters_map ex2)(location \<mapsto> waiters @ [cur])\<rparr>)
           curr_thrd
       }
       else Some ex2
     }
   }"

definition notify_all :: "ModelExecution \<Rightarrow> act_ref \<Rightarrow> ModelExecution option" where
  "notify_all ex cur = do {
     let location = ma_location (ex_acts ex cur);
     waiters \<leftarrow> get_safe_ptr_action (ex_condvar_waiters_map ex) location;
     ex1 \<leftarrow> foldM (\<lambda>w ex. do { t \<leftarrow> get_thread_of ex w; wake_thread ex t }) waiters ex;
     Some (ex1\<lparr>ex_condvar_waiters_map := (ex_condvar_waiters_map ex1)(location \<mapsto> [])\<rparr>)
   }"

text \<open>The waiter chosen by the node is dereferenced: there must be one at its index.\<close>

definition notify_one :: "ModelExecution \<Rightarrow> act_ref \<Rightarrow> ModelExecution option" where
  "notify_one ex cur = do {
     let location = ma_location (ex_acts ex cur);
     waiters \<leftarrow> get_safe_ptr_action (ex_condvar_waiters_map ex) location;
     (_, node) \<leftarrow> node_of ex cur;
     let wakeupthread = nat (get_misc node);
     w \<leftarrow> vec_at waiters wakeupthread;
     t \<leftarrow> get_thread_of ex w;
     ex1 \<leftarrow> wake_thread ex t;
     Some (ex1\<lparr>ex_condvar_waiters_map := (ex_condvar_waiters_map ex1)
                 (location \<mapsto> take wakeupthread waiters @ drop (Suc wakeupthread) waiters)\<rparr>)
   }"

definition process_mutex :: "ModelExecution \<Rightarrow> act_ref \<Rightarrow> (bool \<times> ModelExecution) option" where
  "process_mutex ex cur =
     (case ma_type (ex_acts ex cur) of
        ATOMIC_TRYLOCK \<Rightarrow> do {
          mutex \<leftarrow> get_mutex (ex_acts ex cur);
          let success = (mx_locked (ex_mutexes ex mutex) = None);
          let ex1 = put_act ex cur (set_try_lock (ex_acts ex cur) success);
          ex2 \<leftarrow> set_return_value ex1 cur (if success then 1 else 0);
          if success then take_lock ex2 cur mutex else Some (False, ex2)
        }
      | ATOMIC_LOCK \<Rightarrow> do { mutex \<leftarrow> get_mutex (ex_acts ex cur); take_lock ex cur mutex }
      | ATOMIC_WAIT \<Rightarrow> do {
          mutex \<leftarrow> get_mutex (ex_acts ex cur);
          ex1 \<leftarrow> release_lock ex cur mutex;
          Some (False, ex1)
        }
      | ATOMIC_UNLOCK \<Rightarrow> do {
          mutex \<leftarrow> get_mutex (ex_acts ex cur);
          ex1 \<leftarrow> release_lock ex cur mutex;
          Some (False, ex1)
        }
      | ATOMIC_NOTIFY_ALL \<Rightarrow> do { ex1 \<leftarrow> notify_all ex cur; Some (False, ex1) }
      | ATOMIC_NOTIFY_ONE \<Rightarrow> do { ex1 \<leftarrow> notify_one ex cur; Some (False, ex1) }
      | _ \<Rightarrow> None)"

end
