(* ===== verification/ExecRun.thy ===== *)
theory ExecRun
  imports ExecStep
begin

text \<open>
  The second half of the processing in \<open>execution.cc\<close>: stores, fences, thread operations and
  release-sequence fixups, the set of stores a read may read from, and the step of an execution that
  puts all of it together.
\<close>

section \<open>Stores\<close>

text \<open>All readers of a resolved promise now read from the store.\<close>

fun resolve_readers ::
    "act_ref \<Rightarrow> act_ref list \<Rightarrow> work_queue_t \<times> ModelExecution \<Rightarrow> (work_queue_t \<times> ModelExecution) option" where
  "resolve_readers write [] st = Some st"
| "resolve_readers write (read # reads) st = do {
     (sync, ex1) \<leftarrow> read_from (snd st) read write;
     st' \<leftarrow> (if sync then propagate_clockvector ex1 read (fst st) else Some (fst st, ex1));
     resolve_readers write reads st'
   }"

definition resolve_promise ::
    "ModelExecution \<Rightarrow> act_ref \<Rightarrow> promise_ref \<Rightarrow> work_queue_t \<Rightarrow> (work_queue_t \<times> ModelExecution) option" where
  "resolve_promise ex write promise work = do {
     let readers = pr_readers (ex_proms ex promise);
     (work, ex1) \<leftarrow> resolve_readers write readers (work, ex);
     same \<leftarrow> same_value (ex_proms ex1 promise) (ex_acts ex1 write);
     ASSERT (is_compatible (ex_acts ex1) (ex_proms ex1 promise) (ex_acts ex1 write) \<and> same);
     (ok, g) \<leftarrow> CycleGraph_resolvePromise (ex_acts ex1) (ex_proms ex1) (ex_mo_graph ex1) promise write;
     let ex2 = ex1\<lparr>ex_mo_graph := g\<rparr>;
     let ex3 = (if ok then ex2 else set_hard_failed_promise ex2);
     ex4 \<leftarrow> foldM (\<lambda>read ex. mo_check_promises ex read True) readers ex3;
     Some (work, ex4)
   }"

text \<open>The reads collected for the new value get it now or later.\<close>

definition send_value :: "act_ref \<Rightarrow> act_ref option \<Rightarrow> act_ref \<Rightarrow> ModelExecution \<Rightarrow> ModelExecution option" where
  "send_value cur earliest_promise_reader read ex =
     (if (case earliest_promise_reader of
            None \<Rightarrow> True | Some e \<Rightarrow> act_less (ex_acts ex read) (ex_acts ex e))
      then do {
        allow \<leftarrow> promises_may_allow ex cur read;
        if allow then Execution_add_future_value ex cur read
        else Some (ex\<lparr>ex_futurevalues := ex_futurevalues ex @ [\<lparr>pf_writer = cur, pf_reader = read\<rparr>]\<rparr>)
      }
      else Some ex)"

text \<open>The pending values, from the last to the first; those that are sent are erased.\<close>

fun pending_values ::
    "PendingFutureValue list \<Rightarrow> PendingFutureValue list \<Rightarrow> ModelExecution \<Rightarrow>
     (PendingFutureValue list \<times> ModelExecution) option" where
  "pending_values [] kept ex = Some (kept, ex)"
| "pending_values (pfv # rest) kept ex = do {
     allow \<leftarrow> promises_may_allow ex (pf_writer pfv) (pf_reader pfv);
     if allow
     then do {
       ex1 \<leftarrow> Execution_add_future_value ex (pf_writer pfv) (pf_reader pfv);
       pending_values rest kept ex1
     }
     else pending_values rest (pfv # kept) ex
   }"

definition process_write ::
    "ModelExecution \<Rightarrow> act_ref \<Rightarrow> work_queue_t \<Rightarrow> (bool \<times> work_queue_t \<times> ModelExecution) option" where
  "process_write ex cur work = do {
     (updated_mod_order, send_fv, ex1) \<leftarrow> w_modification_order ex cur True;
     (promise, ex2) \<leftarrow> pop_promise_to_resolve ex1 cur;
     (earliest_promise_reader, updated_promises, work, ex3) \<leftarrow>
       (case promise of
          None \<Rightarrow> Some (None, False, work, ex2)
        | Some p \<Rightarrow> do {
            (work, ex3) \<leftarrow> resolve_promise ex2 cur p work;
            Some (get_reader (ex_proms ex2 p) 0, True, work, ex3)
          });
     ex4 \<leftarrow> foldM (send_value cur earliest_promise_reader) send_fv ex3;
     (kept, ex5) \<leftarrow> pending_values (rev (ex_futurevalues ex4)) [] ex4;
     ex6 \<leftarrow> mo_check_promises (graph_commitChanges (ex5\<lparr>ex_futurevalues := kept\<rparr>)) cur False;
     ex7 \<leftarrow> set_return_value ex6 cur VALUE_NONE;
     Some (updated_mod_order \<or> updated_promises, work, ex7)
   }"

section \<open>Fences\<close>

fun fence_sync :: "act_ref \<Rightarrow> act_ref list \<Rightarrow> ModelExecution \<Rightarrow> ModelExecution option" where
  "fence_sync cur [] ex = Some ex"
| "fence_sync cur (h # hs) ex = do { (_, ex1) \<leftarrow> synchronize ex h cur; fence_sync cur hs ex1 }"

text \<open>The walk backwards through the reads of the thread since its last acquire fence.\<close>

fun fence_loop :: "act_ref \<Rightarrow> act_ref list \<Rightarrow> bool \<times> ModelExecution \<Rightarrow> (bool \<times> ModelExecution) option" where
  "fence_loop cur [] st = Some st"
| "fence_loop cur (act # rest) st =
     (let a = ex_acts (snd st) act
      in if act = cur \<or> ma_tid a \<noteq> ma_tid (ex_acts (snd st) cur) then fence_loop cur rest st
         else if is_thread_start a \<or> (is_fence a \<and> is_acquire a) then Some st
         else if \<not> is_read a \<or> is_acquire a then fence_loop cur rest st
         else do {
           (release_heads, ex1) \<leftarrow> get_release_seq_heads (snd st) cur act;
           ex2 \<leftarrow> fence_sync cur release_heads ex1;
           fence_loop cur rest (fst st \<or> release_heads \<noteq> [], ex2)
         })"

definition process_fence :: "ModelExecution \<Rightarrow> act_ref \<Rightarrow> (bool \<times> ModelExecution) option" where
  "process_fence ex cur =
     (if is_acquire (ex_acts ex cur) then fence_loop cur (rev (ex_action_trace ex)) (False, ex)
      else Some (False, ex))"

section \<open>Threads\<close>

definition thread_create :: "ModelExecution \<Rightarrow> act_ref \<Rightarrow> ModelExecution option" where
  "thread_create ex cur = do {
     let (tid, ex1) = get_next_id ex;
     let (th, priv) = new_Thread (ex_thrd_priv ex1) tid (ma_location (ex_acts ex1 cur)) (get_thread_of ex1 cur);
     ex2 \<leftarrow> Execution_add_thread ((put_thread ex1 tid th)\<lparr>ex_thrd_priv := priv\<rparr>) tid;
     let ex3 = put_thread ex2 tid ((ex_threads ex2 tid)\<lparr>th_creation := Some cur\<rparr>);
     Some (fold (\<lambda>p ex. if thread_is_available (ex_proms ex p) (ma_tid (ex_acts ex cur))
                        then put_prom ex p (Promise_add_thread (ex_proms ex p) tid) else ex)
                (ex_promises ex3) ex3)
   }"

definition drop_thread :: "thread_id_t \<Rightarrow> promise_ref \<Rightarrow> ModelExecution \<Rightarrow> ModelExecution" where
  "drop_thread tid p ex =
     (if thread_is_available (ex_proms ex p) tid
      then let (failed, pr) = eliminate_thread (ex_proms ex p) tid;
               ex1 = put_prom ex p pr
           in if failed then set_failed_promise ex1 else ex1
      else ex)"

definition thread_finish :: "ModelExecution \<Rightarrow> act_ref \<Rightarrow> ModelExecution option" where
  "thread_finish ex cur = do {
     th \<leftarrow> get_thread_of ex cur;
     ex1 \<leftarrow> foldM (wake_waiting is_thread_join th) [0..<get_num_threads ex] ex;
     t \<leftarrow> Thread_complete (ex_threads ex1 th);
     let ex2 = put_thread ex1 th t;
     Some (fold (drop_thread (th_id (ex_threads ex2 th))) (ex_promises ex2) ex2)
   }"

definition process_thread_action :: "ModelExecution \<Rightarrow> act_ref \<Rightarrow> (bool \<times> ModelExecution) option" where
  "process_thread_action ex cur =
     (case ma_type (ex_acts ex cur) of
        THREAD_CREATE \<Rightarrow> do { ex1 \<leftarrow> thread_create ex cur; Some (False, ex1) }
      | THREAD_JOIN \<Rightarrow> do {
          blocking \<leftarrow> thread_operand ex cur;
          act \<leftarrow> get_last_action ex (th_id (ex_threads ex blocking));
          (_, ex1) \<leftarrow> synchronize ex act cur;
          Some (True, ex1)
        }
      | THREAD_FINISH \<Rightarrow> do { ex1 \<leftarrow> thread_finish ex cur; Some (True, ex1) }
      | THREAD_START \<Rightarrow> do {
          cv \<leftarrow> ma_cv (ex_acts ex cur);
          Some (False, check_promises ex (ma_tid (ex_acts ex cur)) None cv)
        }
      | _ \<Rightarrow> Some (False, ex))"

section \<open>Release sequence fixups\<close>

definition compute_relseq_breakwrites :: "ModelExecution \<Rightarrow> act_ref \<Rightarrow> ModelExecution option" where
  "compute_relseq_breakwrites ex cur =
     (if ex_pending_rel_seqs ex = [] then Some ex
      else let pending = last (ex_pending_rel_seqs ex)
           in update_node ex cur (\<lambda>n. add_relseq_break
                (fold (\<lambda>write n. add_relseq_break n (Some write)) (rq_writes pending) n) None))"

definition process_relseq_fixup ::
    "ModelExecution \<Rightarrow> act_ref \<Rightarrow> work_queue_t \<Rightarrow> (work_queue_t \<times> ModelExecution) option" where
  "process_relseq_fixup ex cur work = do {
     (_, node) \<leftarrow> node_of ex cur;
     let write = get_relseq_break node;
     ASSERT (ex_pending_rel_seqs ex \<noteq> []);
     let sequence = last (ex_pending_rel_seqs ex);
     let ex1 = ex\<lparr>ex_pending_rel_seqs := butlast (ex_pending_rel_seqs ex)\<rparr>;
     let acquire = rq_acquire sequence;
     release \<leftarrow> rq_release sequence;
     rf \<leftarrow> rq_rf sequence;
     ASSERT (same_thread (ex_acts ex1 release) (ex_acts ex1 rf));
     (case write of
        None \<Rightarrow> do {
          (ok, ex2) \<leftarrow> synchronize ex1 release acquire;
          if \<not> ok then Some (work, ex2)
          else do {
            (work, ex3) \<leftarrow> propagate_clockvector ex2 acquire work;
            (_, ex4) \<leftarrow> exec_checkDataRaces ex3;
            Some (work, ex4)
          }
        }
      | Some w \<Rightarrow> do {
          (_, ex2) \<leftarrow> exec_addEdge (MoAction release) (MoAction w) (False, ex1);
          (_, ex3) \<leftarrow> exec_addEdge (MoAction w) (MoAction rf) (False, ex2);
          (_, ex4) \<leftarrow> exec_checkDataRaces ex3;
          Some (work, ex4)
        })
   }"

section \<open>Preparing the current action\<close>

definition process_rmw :: "ModelExecution \<Rightarrow> act_ref \<Rightarrow> (act_ref \<times> ModelExecution) option" where
  "process_rmw ex act = do {
     lastread \<leftarrow> get_last_action ex (ma_tid (ex_acts ex act));
     let ex1 = put_act ex lastread (ModelAction_process_rmw (ex_acts ex lastread) (ex_acts ex act));
     if is_rmw (ex_acts ex1 act)
     then do {
       from \<leftarrow> (case ma_reads_from (ex_acts ex1 lastread) of
                   Some rf \<Rightarrow> Some (MoAction rf)
                 | None \<Rightarrow> map_option MoPromise (ma_reads_from_promise (ex_acts ex1 lastread)));
       g \<leftarrow> addRMWEdge (ex_mo_graph ex1) from lastread;
       Some (lastread, graph_commitChanges (ex1\<lparr>ex_mo_graph := g\<rparr>))
     }
     else Some (lastread, ex1)
   }"

definition get_enabled_array :: "Scheduler \<Rightarrow> enabled_type list option" where
  "get_enabled_array s = (if sc_enabled s = [] then None else Some (sc_enabled s))"

text \<open>\<open>create_cv\<close> with the clock vector of the parent action of the thread.\<close>

definition exec_create_cv :: "ModelExecution \<Rightarrow> act_ref \<Rightarrow> ModelExecution option" where
  "exec_create_cv ex act = do {
     parent \<leftarrow> get_parent_action ex (ma_tid (ex_acts ex act));
     Some (put_act ex act (create_cv (ex_acts ex act) (map_option (ex_acts ex) parent)))
   }"

text \<open>The action is met again in the node stack.\<close>

definition reuse_action :: "ModelExecution \<Rightarrow> act_ref \<Rightarrow> act_ref \<Rightarrow> ModelExecution option" where
  "reuse_action ex cur newcurr = do {
     let c = ex_acts ex cur;
     let a = (if is_rmwr c then copy_typeandorder (ex_acts ex newcurr) c else ex_acts ex newcurr);
     ASSERT (ma_location c = ma_location a);
     exec_create_cv (put_act ex newcurr (copy_from_new a c)) newcurr
   }"

text \<open>The action is new: choices are computed once.\<close>

definition new_action :: "ModelExecution \<Rightarrow> act_ref \<Rightarrow> ModelExecution option" where
  "new_action ex cur = do {
     ex1 \<leftarrow> exec_create_cv ex cur;
     let ex2 = put_act ex1 cur ((ex_acts ex1 cur)\<lparr>ma_last_fence_release :=
                 get_last_fence_release ex1 (ma_tid (ex_acts ex1 cur))\<rparr>);
     let c = ex_acts ex2 cur;
     if is_write c then compute_promises ex2 cur
     else if is_relseq_fixup c then compute_relseq_breakwrites ex2 cur
     else if is_wait c then update_node ex2 cur (\<lambda>n. set_misc_max n 2)
     else if is_notify_one c
     then do {
       waiters \<leftarrow> get_safe_ptr_action (ex_condvar_waiters_map ex2) (ma_location c);
       update_node ex2 cur (\<lambda>n. set_misc_max n (int (length waiters)))
     }
     else Some ex2
   }"

definition initialize_curr_action ::
    "ModelExecution \<Rightarrow> act_ref \<Rightarrow> (bool \<times> act_ref \<times> ModelExecution) option" where
  "initialize_curr_action ex cur =
     (if is_rmwc (ex_acts ex cur) \<or> is_rmw (ex_acts ex cur)
      then do {
        (newcurr, ex1) \<leftarrow> process_rmw ex cur;
        ex2 \<leftarrow> (if is_rmw (ex_acts ex1 newcurr) then compute_promises ex1 newcurr else Some ex1);
        Some (False, newcurr, ex2)
      }
      else do {
        let (num, ex1) = get_next_seq_num ex;
        a \<leftarrow> set_seq_number (ex_acts ex1 cur) num;
        let ex2 = put_act ex1 cur a;
        (found, ns, acts) \<leftarrow> explore_action (ex_params ex2) (get_num_threads ex2) (ex_acts ex2)
                               (ex_node_stack ex2) cur (get_enabled_array (ex_scheduler ex2));
        let ex3 = ex2\<lparr>ex_node_stack := ns, ex_acts := acts\<rparr>;
        (case found of
           Some newcurr \<Rightarrow> do { ex4 \<leftarrow> reuse_action ex3 cur newcurr; Some (False, newcurr, ex4) }
         | None \<Rightarrow> do { ex4 \<leftarrow> new_action ex3 cur; Some (True, cur, ex4) })
      })"

section \<open>The may-read-from set\<close>

partial_function (option) sleep_can_read_from :: "ModelExecution \<Rightarrow> act_ref \<Rightarrow> act_ref option \<Rightarrow> bool option" where
  "sleep_can_read_from ex cur write =
     (case write of
        None \<Rightarrow> Some True
      | Some w \<Rightarrow>
          if is_uninitialized (ex_acts ex w) then Some True
          else Option.bind (node_of ex w) (\<lambda>r.
               Option.bind (nd_parent (snd r)) (\<lambda>p.
               Option.bind (node_at ex p) (\<lambda>prevnode.
               Option.bind (enabled_status prevnode (ma_tid (ex_acts ex cur))) (\<lambda>st.
                 if is_release (ex_acts ex w) \<and> st = THREAD_SLEEP_SET then Some True
                 else if \<not> is_rmw (ex_acts ex w) then Some False
                 else sleep_can_read_from ex cur (ma_reads_from (ex_acts ex w)))))))"

declare sleep_can_read_from.simps [code]

text \<open>Trying a choice: its edges are added and rolled back; it stays if it is feasible.\<close>

definition try_read :: "ModelExecution \<Rightarrow> act_ref \<Rightarrow> mo_obj \<Rightarrow> (Node \<Rightarrow> Node) \<Rightarrow> ModelExecution option" where
  "try_read ex cur rf add = do {
     ex1 \<leftarrow> graph_startChanges ex;
     (_, ex2) \<leftarrow> r_modification_order ex1 cur rf;
     ex3 \<leftarrow> (if \<not> is_infeasible ex2 then update_node ex2 cur add else Some ex2);
     Some (graph_rollbackChanges ex3)
   }"

definition allow_read :: "ModelExecution \<Rightarrow> act_ref \<Rightarrow> act_ref option \<Rightarrow> act_ref \<Rightarrow> bool option" where
  "allow_read ex cur last_sc_write act =
     (let c = ex_acts ex cur; a = ex_acts ex act
      in if is_seqcst c \<and>
            (is_seqcst a \<or> (case last_sc_write of None \<Rightarrow> False | Some w \<Rightarrow> happens_before a (ex_acts ex w))) \<and>
            Some act \<noteq> last_sc_write
         then Some False
         else if ma_sleep_flag c \<and> \<not> is_seqcst c then sleep_can_read_from ex cur (Some act)
         else Some True)"

text \<open>The loop over the stores of one thread, from the most recent one.\<close>

fun may_read_thread :: "act_ref \<Rightarrow> act_ref option \<Rightarrow> act_ref list \<Rightarrow> ModelExecution \<Rightarrow> ModelExecution option" where
  "may_read_thread cur last_sc_write [] ex = Some ex"
| "may_read_thread cur last_sc_write (act # rest) ex =
     (if \<not> is_write (ex_acts ex act) \<or> act = cur then may_read_thread cur last_sc_write rest ex
      else do {
        allow \<leftarrow> allow_read ex cur last_sc_write act;
        ex1 \<leftarrow> (if allow then try_read ex cur (MoAction act) (\<lambda>n. add_read_from_past n act) else Some ex);
        if happens_before (ex_acts ex1 act) (ex_acts ex1 cur) then Some ex1
        else may_read_thread cur last_sc_write rest ex1
      })"

definition may_read_promise :: "act_ref \<Rightarrow> promise_ref \<Rightarrow> ModelExecution \<Rightarrow> ModelExecution option" where
  "may_read_promise cur p ex = do {
     promise_read \<leftarrow> get_reader (ex_proms ex p) 0;
     if same_var (ex_acts ex promise_read) (ex_acts ex cur)
     then try_read ex cur (MoPromise p) (\<lambda>n. add_read_from_promise n promise_read)
     else Some ex
   }"

definition build_may_read_from :: "ModelExecution \<Rightarrow> act_ref \<Rightarrow> ModelExecution option" where
  "build_may_read_from ex cur = do {
     thrd_lists \<leftarrow> obj_thrd_lists ex (ma_location (ex_acts ex cur));
     ASSERT (is_read (ex_acts ex cur));
     last_sc_write \<leftarrow> (if is_seqcst (ex_acts ex cur) then get_last_seq_cst_write ex cur else Some None);
     ex1 \<leftarrow> foldM (\<lambda>list ex. may_read_thread cur last_sc_write (rev list) ex) thrd_lists ex;
     ex2 \<leftarrow> foldM (may_read_promise cur) (ex_promises ex1) ex1;
     (_, node) \<leftarrow> node_of ex2 cur;
     Some (if read_from_size node = 0
           then set_assert (ex2\<lparr>ex_priv := (ex_priv ex2)\<lparr>ms_no_valid_reads := True\<rparr>\<rparr>)
           else ex2)
   }"

section \<open>The current action\<close>

text \<open>One kind of processing if it applies; the flag collects the updates.\<close>

definition apply_if ::
    "bool \<Rightarrow> (ModelExecution \<Rightarrow> (bool \<times> ModelExecution) option) \<Rightarrow> bool \<times> ModelExecution \<Rightarrow> (bool \<times> ModelExecution) option" where
  "apply_if b f st = (if b then do { (u, ex) \<leftarrow> f (snd st); Some (u \<or> fst st, ex) } else Some st)"

definition work_curr_action ::
    "act_ref \<Rightarrow> bool \<Rightarrow> act_ref \<Rightarrow> work_queue_t \<times> ModelExecution \<Rightarrow> (work_queue_t \<times> ModelExecution) option" where
  "work_curr_action cur second_part_of_rmw act st = do {
     (all1, ex1) \<leftarrow> process_thread_action (snd st) cur;
     (upd1, ex2) \<leftarrow> apply_if (is_read (ex_acts ex1 act) \<and> \<not> second_part_of_rmw)
                       (\<lambda>ex. process_read ex act) (False, ex1);
     (upd2, work, ex3) \<leftarrow> (if is_write (ex_acts ex2 act) then process_write ex2 act (fst st)
                            else Some (False, fst st, ex2));
     (all2, ex4) \<leftarrow> apply_if (is_fence (ex_acts ex3 act)) (\<lambda>ex. process_fence ex act) (all1, ex3);
     (all3, ex5) \<leftarrow> apply_if (is_mutex_op (ex_acts ex4 act)) (\<lambda>ex. process_mutex ex act) (all2, ex4);
     (work, ex6) \<leftarrow> (if is_relseq_fixup (ex_acts ex5 act) then process_relseq_fixup ex5 cur work
                      else Some (work, ex5));
     Some (if all3 then work @ [CheckRelSeqWorkEntry 0]
           else if upd1 \<or> upd2 then work @ [CheckRelSeqWorkEntry (ma_location (ex_acts ex6 act))]
           else work, ex6)
   }"

definition work_mo_edges ::
    "act_ref \<Rightarrow> work_queue_t \<times> ModelExecution \<Rightarrow> (work_queue_t \<times> ModelExecution) option" where
  "work_mo_edges act st = do {
     let ex = snd st;
     let a = ex_acts ex act;
     (upd1, ex1) \<leftarrow>
       (if \<not> is_read a then Some (False, ex)
        else case (ma_reads_from a, ma_reads_from_promise a) of
               (Some rf, _) \<Rightarrow> do {
                 (u, ex1) \<leftarrow> r_modification_order ex act (MoAction rf);
                 ex2 \<leftarrow> (if is_seqcst a
                          then do {
                            w \<leftarrow> get_last_seq_cst_write ex1 act;
                            Some (case w of
                                    Some l \<Rightarrow> if happens_before (ex_acts ex1 rf) (ex_acts ex1 l)
                                              then set_bad_sc_read ex1 else ex1
                                  | None \<Rightarrow> ex1)
                          }
                          else Some ex1);
                 Some (u, ex2)
               }
             | (None, Some p) \<Rightarrow> r_modification_order ex act (MoPromise p)
             | (None, None) \<Rightarrow> Some (False, ex));
     (upd2, _, ex2) \<leftarrow> (if is_write a then w_modification_order ex1 act False else Some (False, [], ex1));
     let ex3 = graph_commitChanges ex2;
     Some (if upd1 \<or> upd2 then fst st @ [CheckRelSeqWorkEntry (ma_location a)] else fst st, ex3)
   }"

definition work_step ::
    "act_ref \<Rightarrow> bool \<Rightarrow> WorkQueueEntry \<Rightarrow> work_queue_t \<times> ModelExecution \<Rightarrow> (work_queue_t \<times> ModelExecution) option" where
  "work_step cur second_part_of_rmw work st =
     (case wq_type work of
        WORK_CHECK_CURR_ACTION \<Rightarrow> do { act \<leftarrow> wq_action work; work_curr_action cur second_part_of_rmw act st }
      | WORK_CHECK_RELEASE_SEQ \<Rightarrow> do {
          (_, queue, ex) \<leftarrow> resolve_release_sequences (snd st) (wq_location work) (fst st);
          Some (queue, ex)
        }
      | WORK_CHECK_MO_EDGES \<Rightarrow> do { act \<leftarrow> wq_action work; work_mo_edges act st }
      | WORK_NONE \<Rightarrow> None)"

partial_function (option) work_loop ::
    "act_ref \<Rightarrow> bool \<Rightarrow> work_queue_t \<Rightarrow> ModelExecution \<Rightarrow> ModelExecution option" where
  "work_loop cur second_part_of_rmw queue ex =
     (case queue of
        [] \<Rightarrow> Some ex
      | work # rest \<Rightarrow>
          if has_asserted ex then Some ex
          else Option.bind (work_step cur second_part_of_rmw work (rest, ex)) (\<lambda>st.
                 work_loop cur second_part_of_rmw (fst st) (snd st)))"

declare work_loop.simps [code]

definition exec_update_yield :: "ModelExecution \<Rightarrow> act_ref \<Rightarrow> ModelExecution option" where
  "exec_update_yield ex cur = do {
     (n, node) \<leftarrow> node_of ex cur;
     node' \<leftarrow> update_yield (ex_acts ex) (ns_node_list (ex_node_stack ex)) (ex_scheduler ex) node;
     Some (put_node ex n node')
   }"

definition check_current_action :: "ModelExecution \<Rightarrow> act_ref \<Rightarrow> (act_ref \<times> ModelExecution) option" where
  "check_current_action ex cur = do {
     let second_part_of_rmw = (is_rmwc (ex_acts ex cur) \<or> is_rmw (ex_acts ex cur));
     (newly_explored, cur, ex1) \<leftarrow> initialize_curr_action ex cur;
     ex2 \<leftarrow> wake_up_sleeping_actions ex1 cur;
     ex3 \<leftarrow> (if mp_yieldon (ex_params ex2) then exec_update_yield ex2 cur else Some ex2);
     ex4 \<leftarrow> (if \<not> second_part_of_rmw then add_action_to_lists ex3 cur else Some ex3);
     ex5 \<leftarrow> (if newly_explored \<and> is_read (ex_acts ex4 cur) then build_may_read_from ex4 cur else Some ex4);
     ex6 \<leftarrow> work_loop cur second_part_of_rmw [CheckCurrWorkEntry cur] ex5;
     ex7 \<leftarrow> check_curr_backtracking ex6 cur;
     ex8 \<leftarrow> set_backtracking ex7 cur;
     Some (cur, ex8)
   }"

section \<open>Steps\<close>

definition action_select_next_thread :: "ModelExecution \<Rightarrow> act_ref \<Rightarrow> thread_id_t option" where
  "action_select_next_thread ex cur =
     (if is_rmwr (ex_acts ex cur) then get_thread_of ex cur
      else if ma_type (ex_acts ex cur) = THREAD_CREATE then thread_operand ex cur
      else None)"

definition take_step :: "ModelExecution \<Rightarrow> act_ref \<Rightarrow> (thread_id_t option \<times> ModelExecution) option" where
  "take_step ex cur = do {
     curr_thrd \<leftarrow> get_thread_of ex cur;
     ASSERT (th_state (ex_threads ex curr_thrd) = THREAD_READY);
     (enabled, ex1) \<leftarrow> check_action_enabled ex cur;
     ASSERT enabled;
     (cur, ex2) \<leftarrow> check_current_action ex1 cur;
     let ex3 = (if is_blocked (ex_threads ex2 curr_thrd) \<or> is_complete (ex_threads ex2 curr_thrd)
                then with_scheduler ex2 (remove_thread (ex_scheduler ex2) curr_thrd) else ex2);
     Some (action_select_next_thread ex3 cur, ex3)
   }"

definition fixup_action :: "ModelExecution \<Rightarrow> (act_ref \<times> ModelExecution) option" where
  "fixup_action ex = do {
     a \<leftarrow> new_ModelAction MODEL_FIXUP_RELSEQ memory_order_seq_cst 0 VALUE_NONE (ex_model_thread ex);
     Some (alloc_act ex a)
   }"

partial_function (option) fixup_release_sequences :: "ModelExecution \<Rightarrow> ModelExecution option" where
  "fixup_release_sequences ex =
     (if ex_pending_rel_seqs ex \<noteq> [] \<and> is_feasible_prefix_ignore_relseq ex \<and> haveUnrealizedRaces (ex_races ex)
      then Option.bind (fixup_action ex) (\<lambda>r.
           Option.bind (take_step (snd r) (fst r)) (\<lambda>s. fixup_release_sequences (snd s)))
      else Some ex)"

declare fixup_release_sequences.simps [code]

end
