(* ===== verification/ExecLists.thy ===== *)
theory ExecLists
  imports ExecState
begin

text \<open>
  The action lists of an execution. The lists per object and per object and thread, the last action
  and the last release fence of each thread are all determined by the trace; the invariant says how,
  and \<open>add_action_to_lists\<close> keeps it. With it the searches for the last seq-cst store, fence and
  unlock are searches of the trace.
\<close>

section \<open>The latest action with a property\<close>

definition latest :: "('a \<Rightarrow> bool) \<Rightarrow> 'a list \<Rightarrow> 'a option" where
  "latest P xs = (if \<exists>x \<in> set xs. P x then Some (last (filter P xs)) else None)"

lemma find_rev_latest: "List.find P (rev xs) = latest P xs"
  by (induction xs rule: rev_induct) (auto simp: latest_def)

lemma latest_append_single: "latest P (xs @ [x]) = (if P x then Some x else latest P xs)"
  by (auto simp: latest_def)

lemma latest_Cons_no: "\<not> P x \<Longrightarrow> latest P (x # xs) = latest P xs"
  by (auto simp: latest_def)

lemma latest_cong: "(\<And>x. x \<in> set xs \<Longrightarrow> P x = Q x) \<Longrightarrow> latest P xs = latest Q xs"
  unfolding latest_def by (auto cong: filter_cong)

lemma find_append: "\<not> P x \<Longrightarrow> List.find P (xs @ [x]) = List.find P xs"
  by (induction xs) auto

lemma latest_filter: "latest P (filter Q xs) = latest (\<lambda>x. Q x \<and> P x) xs"
  by (auto simp: latest_def)

section \<open>Vectors with default\<close>

definition list_at :: "'a list list \<Rightarrow> nat \<Rightarrow> 'a list" where
  "list_at v t = (if t < length v then v ! t else [])"

definition opt_at :: "'a option list \<Rightarrow> nat \<Rightarrow> 'a option" where
  "opt_at v t = (if t < length v then v ! t else None)"

lemma push_thrd_list_spec:
  assumes "tid < num"
  shows "\<exists>v. push_thrd_list num vec tid act = Some v \<and> tid < length v \<and> length vec \<le> length v \<and>
    (\<forall>t. list_at v t = list_at vec t @ (if t = tid then [act] else []))"
proof (cases "tid < length vec")
  case True
  then show ?thesis by (auto simp: push_thrd_list_def list_at_def nth_list_update)
next
  case False
  with assms show ?thesis
    by (auto simp: push_thrd_list_def list_at_def nth_list_update nth_resize)
qed

lemma set_last_spec:
  assumes "tid < num"
  shows "\<exists>v. set_last num xs tid act = Some v \<and> tid < length v \<and> length xs \<le> length v \<and>
    (\<forall>t. opt_at v t = (if t = tid then Some act else opt_at xs t))"
proof (cases "tid < length xs")
  case True
  then show ?thesis by (auto simp: set_last_def opt_at_def nth_list_update)
next
  case False
  with assms show ?thesis by (auto simp: set_last_def opt_at_def nth_list_update nth_resize)
qed

section \<open>The invariant\<close>

definition obj_actions :: "ModelExecution \<Rightarrow> addr \<Rightarrow> act_ref list" where
  "obj_actions ex loc = (case ex_obj_map ex loc of None \<Rightarrow> [] | Some l \<Rightarrow> l)"

definition thrd_actions :: "ModelExecution \<Rightarrow> addr \<Rightarrow> thread_id_t \<Rightarrow> act_ref list" where
  "thrd_actions ex loc t = (case ex_obj_thrd_map ex loc of None \<Rightarrow> [] | Some v \<Rightarrow> list_at v t)"

text \<open>An action is on its location; a wait is also on its mutex.\<close>

definition on_object :: "act_store \<Rightarrow> addr \<Rightarrow> act_ref \<Rightarrow> bool" where
  "on_object acts loc a \<longleftrightarrow>
     ma_location (acts a) = loc \<or> (is_wait (acts a) \<and> ma_value (acts a) = loc)"

definition release_fence_of :: "act_store \<Rightarrow> thread_id_t \<Rightarrow> act_ref \<Rightarrow> bool" where
  "release_fence_of acts t a \<longleftrightarrow> ma_tid (acts a) = t \<and> is_fence (acts a) \<and> is_release (acts a)"

text \<open>
  The only actions of the model thread are uninitialised stores. They are put in front of the trace,
  so its last action is the first one there.
\<close>

definition lists_inv :: "ModelExecution \<Rightarrow> bool" where
  "lists_inv ex \<longleftrightarrow>
     (\<forall>loc. obj_actions ex loc = filter (on_object (ex_acts ex) loc) (ex_action_trace ex)) \<and>
     (\<forall>loc t. thrd_actions ex loc t = filter (\<lambda>a. ma_tid (ex_acts ex a) = t) (obj_actions ex loc)) \<and>
     (\<forall>t. t \<noteq> ex_model_thread ex \<longrightarrow>
        get_last_action ex t = latest (\<lambda>a. ma_tid (ex_acts ex a) = t) (ex_action_trace ex)) \<and>
     get_last_action ex (ex_model_thread ex) =
       List.find (\<lambda>a. ma_tid (ex_acts ex a) = ex_model_thread ex) (ex_action_trace ex) \<and>
     (\<forall>t. get_last_fence_release ex t = latest (release_fence_of (ex_acts ex) t) (ex_action_trace ex)) \<and>
     (\<forall>a \<in> set (ex_action_trace ex). a < ex_next_act ex) \<and>
     ex_model_thread ex = 0 \<and> ex_thrd_last_action ex \<noteq> []"

lemma get_last_action_opt: "get_last_action ex t = opt_at (ex_thrd_last_action ex) t"
  by (simp add: get_last_action_def opt_at_def id_to_int_def)

lemma get_last_fence_release_opt: "get_last_fence_release ex t = opt_at (ex_thrd_last_fence_release ex) t"
  by (simp add: get_last_fence_release_def opt_at_def id_to_int_def)

text \<open>The lists of a new execution are empty.\<close>

lemma new_ModelExecution_lists:
  assumes "new_ModelExecution h params s ns = Some ex"
  shows "lists_inv ex"
proof -
  have "ex_action_trace ex = []" "ex_obj_map ex = Map.empty" "ex_obj_thrd_map ex = Map.empty"
    "ex_thrd_last_action ex = [None]" "ex_thrd_last_fence_release ex = []" "ex_model_thread ex = 0"
    using assms
    by (auto simp: new_ModelExecution_def Execution_add_thread_def get_next_id_def Let_def new_model_Thread_def
        new_model_snapshot_members_def)
  then show ?thesis
    by (auto simp: lists_inv_def obj_actions_def thrd_actions_def get_last_action_opt get_last_fence_release_opt
        opt_at_def latest_def)
qed

section \<open>The uninitialised store\<close>

text \<open>
  When the object is met for the first time its node holds no uninitialised store yet, or one that was
  made for this object in an earlier execution.
\<close>

definition uninit_ready :: "ModelExecution \<Rightarrow> act_ref \<Rightarrow> bool" where
  "uninit_ready ex act =
     (case node_of ex act of
        None \<Rightarrow> False
      | Some (n, node) \<Rightarrow>
          (case nd_uninit_action node of
             None \<Rightarrow> True
           | Some u \<Rightarrow> u \<noteq> act \<and> u \<notin> set (ex_action_trace ex) \<and> u < ex_next_act ex \<and>
               ma_type (ex_acts ex u) = ATOMIC_UNINIT \<and> ma_tid (ex_acts ex u) = ex_model_thread ex \<and>
               ma_location (ex_acts ex u) = ma_location (ex_acts ex act)))"

text \<open>What the step that makes it leaves alone.\<close>

definition same_lists :: "ModelExecution \<Rightarrow> ModelExecution \<Rightarrow> bool" where
  "same_lists ex ex' \<longleftrightarrow>
     ex_obj_map ex' = ex_obj_map ex \<and> ex_obj_thrd_map ex' = ex_obj_thrd_map ex \<and>
     ex_action_trace ex' = ex_action_trace ex \<and> ex_thrd_last_action ex' = ex_thrd_last_action ex \<and>
     ex_thrd_last_fence_release ex' = ex_thrd_last_fence_release ex \<and>
     ex_model_thread ex' = ex_model_thread ex \<and> ex_priv ex' = ex_priv ex"

lemma get_uninitialized_action_spec:
  assumes "uninit_ready ex act" and "act < ex_next_act ex" and "\<forall>a \<in> set (ex_action_trace ex). a < ex_next_act ex"
    and "ma_location (ex_acts ex act) \<noteq> 0"
  shows "\<exists>u ex'. get_uninitialized_action ex act = Some (u, ex') \<and> same_lists ex ex' \<and>
    u \<noteq> act \<and> u \<notin> set (ex_action_trace ex) \<and> u < ex_next_act ex' \<and> ex_next_act ex \<le> ex_next_act ex' \<and>
    ma_type (ex_acts ex' u) = ATOMIC_UNINIT \<and> ma_tid (ex_acts ex' u) = ex_model_thread ex \<and>
    ma_location (ex_acts ex' u) = ma_location (ex_acts ex act) \<and>
    (\<forall>a. a \<noteq> u \<longrightarrow> ex_acts ex' a = ex_acts ex a)"
proof -
  from assms(1) obtain n node where node: "node_of ex act = Some (n, node)"
    by (auto simp: uninit_ready_def split: option.splits)
  show ?thesis
  proof (cases "nd_uninit_action node")
    case None
    then show ?thesis using node assms(2,3,4)
      by (auto simp: get_uninitialized_action_def new_ModelAction_def alloc_act_def put_node_def put_act_def
          create_cv_def same_lists_def Let_def)
  next
    case (Some u)
    then show ?thesis using node assms(1)
      by (auto simp: get_uninitialized_action_def uninit_ready_def put_act_def create_cv_def same_lists_def)
  qed
qed

section \<open>The parts of add\_action\_to\_lists\<close>

text \<open>What the parts do to the observed lists, and what they leave alone.\<close>

definition same_rest :: "ModelExecution \<Rightarrow> ModelExecution \<Rightarrow> bool" where
  "same_rest ex ex' \<longleftrightarrow>
     ex_acts ex' = ex_acts ex \<and> ex_next_act ex' = ex_next_act ex \<and> ex_model_thread ex' = ex_model_thread ex \<and>
     ex_priv ex' = ex_priv ex"

lemma add_uninit_spec:
  assumes "length us \<le> 1" and "\<forall>u \<in> set us. ma_tid (ex_acts ex u) = 0"
    and "ex_obj_thrd_map ex loc = Some vec" and "vec \<noteq> []" and "ex_thrd_last_action ex \<noteq> []"
  shows "\<exists>ex'. foldM (\<lambda>u ex. add_uninit ex loc u) us ex = Some ex' \<and> same_rest ex ex' \<and>
    ex_obj_map ex' = ex_obj_map ex \<and> ex_thrd_last_fence_release ex' = ex_thrd_last_fence_release ex \<and>
    ex_action_trace ex' = us @ ex_action_trace ex \<and> ex_thrd_last_action ex' \<noteq> [] \<and>
    (\<forall>t. get_last_action ex' t = (if t = 0 \<and> us \<noteq> [] then Some (hd us) else get_last_action ex t)) \<and>
    (\<forall>l t. thrd_actions ex' l t = (if l = loc \<and> t = 0 then us else []) @ thrd_actions ex l t)"
proof (cases us)
  case Nil
  then show ?thesis using assms(5) by (simp add: same_rest_def)
next
  case (Cons u vs)
  with assms(1) have us: "us = [u]" by simp
  show ?thesis using assms(2-) unfolding us
    by (auto simp: add_uninit_def same_rest_def Let_def id_to_int_def get_last_action_opt opt_at_def
        thrd_actions_def list_at_def nth_list_update)
qed

lemma add_fence_spec:
  assumes "tid < get_num_threads ex" and "ma_tid (ex_acts ex act) = tid"
  shows "\<exists>ex'. (if is_fence (ex_acts ex act) \<and> is_release (ex_acts ex act)
      then do {
        fr \<leftarrow> set_last (get_num_threads ex) (ex_thrd_last_fence_release ex) tid act;
        Some (ex\<lparr>ex_thrd_last_fence_release := fr\<rparr>)
      }
      else Some ex) = Some ex' \<and> same_rest ex ex' \<and>
    ex_obj_map ex' = ex_obj_map ex \<and> ex_obj_thrd_map ex' = ex_obj_thrd_map ex \<and>
    ex_action_trace ex' = ex_action_trace ex \<and> ex_thrd_last_action ex' = ex_thrd_last_action ex \<and>
    (\<forall>t. get_last_fence_release ex' t =
       (if release_fence_of (ex_acts ex) t act then Some act else get_last_fence_release ex t))"
proof -
  obtain fr where "set_last (get_num_threads ex) (ex_thrd_last_fence_release ex) tid act = Some fr"
    "\<And>t. opt_at fr t = (if t = tid then Some act else opt_at (ex_thrd_last_fence_release ex) t)"
    using set_last_spec [OF assms(1)] by blast
  then show ?thesis
    using assms(2) by (auto simp: same_rest_def get_last_fence_release_opt release_fence_of_def)
qed

lemma add_wait_spec:
  assumes "ma_tid (ex_acts ex act) < get_num_threads ex"
    and "is_wait (ex_acts ex act) \<Longrightarrow> ma_value (ex_acts ex act) \<noteq> 0"
  shows "\<exists>ex'. (if is_wait (ex_acts ex act) then add_wait ex act else Some ex) = Some ex' \<and> same_rest ex ex' \<and>
    ex_action_trace ex' = ex_action_trace ex \<and> ex_thrd_last_action ex' = ex_thrd_last_action ex \<and>
    ex_thrd_last_fence_release ex' = ex_thrd_last_fence_release ex \<and>
    (\<forall>l. obj_actions ex' l = obj_actions ex l @
       (if is_wait (ex_acts ex act) \<and> ma_value (ex_acts ex act) = l then [act] else [])) \<and>
    (\<forall>l t. thrd_actions ex' l t = thrd_actions ex l t @
       (if is_wait (ex_acts ex act) \<and> ma_value (ex_acts ex act) = l \<and> ma_tid (ex_acts ex act) = t then [act] else []))"
proof (cases "is_wait (ex_acts ex act)")
  case True
  let ?m = "ma_value (ex_acts ex act)"
  obtain v where "push_thrd_list (get_num_threads ex) (case ex_obj_thrd_map ex ?m of None \<Rightarrow> [] | Some v \<Rightarrow> v)
      (ma_tid (ex_acts ex act)) act = Some v"
    "\<And>t. list_at v t = list_at (case ex_obj_thrd_map ex ?m of None \<Rightarrow> [] | Some v \<Rightarrow> v) t @
      (if t = ma_tid (ex_acts ex act) then [act] else [])"
    using push_thrd_list_spec [OF assms(1)] by blast
  then show ?thesis using True assms(2)
    by (auto simp: add_wait_def get_safe_ptr_action_def get_safe_ptr_vect_action_def hash_get_def id_to_int_def
        same_rest_def obj_actions_def thrd_actions_def list_at_def Let_def split: option.splits)
qed (auto simp: same_rest_def)

section \<open>Adding an action\<close>

definition addable :: "ModelExecution \<Rightarrow> act_ref \<Rightarrow> bool" where
  "addable ex act \<longleftrightarrow>
     act \<notin> set (ex_action_trace ex) \<and> act < ex_next_act ex \<and> ma_location (ex_acts ex act) \<noteq> 0 \<and>
     ma_tid (ex_acts ex act) < get_num_threads ex \<and> ma_tid (ex_acts ex act) \<noteq> ex_model_thread ex \<and>
     (is_wait (ex_acts ex act) \<longrightarrow>
        ma_value (ex_acts ex act) \<noteq> 0 \<and> ma_value (ex_acts ex act) \<noteq> ma_location (ex_acts ex act)) \<and>
     (obj_actions ex (ma_location (ex_acts ex act)) = [] \<and> is_atomic_var (ex_acts ex act) \<longrightarrow> uninit_ready ex act)"

text \<open>The stores added in front: the uninitialised one for the first access to an atomic object.\<close>

lemma first_access:
  assumes "lists_inv ex" and "addable ex act"
  shows "\<exists>us ex1. (if obj_actions ex (ma_location (ex_acts ex act)) = [] \<and> is_atomic_var (ex_acts ex act)
        then do { (u, ex1) \<leftarrow> get_uninitialized_action ex act; Some ([u], ex1) }
        else Some ([], ex)) = Some (us, ex1) \<and> same_lists ex ex1 \<and> length us \<le> 1 \<and>
      (us = [] \<longleftrightarrow> obj_actions ex (ma_location (ex_acts ex act)) \<noteq> [] \<or> \<not> is_atomic_var (ex_acts ex act)) \<and>
      (\<forall>a. a \<notin> set us \<longrightarrow> ex_acts ex1 a = ex_acts ex a) \<and> ex_next_act ex \<le> ex_next_act ex1 \<and>
      (\<forall>u \<in> set us. u \<noteq> act \<and> u \<notin> set (ex_action_trace ex) \<and> u < ex_next_act ex1 \<and>
         ma_type (ex_acts ex1 u) = ATOMIC_UNINIT \<and> ma_tid (ex_acts ex1 u) = 0 \<and>
         ma_location (ex_acts ex1 u) = ma_location (ex_acts ex act))"
proof (cases "obj_actions ex (ma_location (ex_acts ex act)) = [] \<and> is_atomic_var (ex_acts ex act)")
  case True
  with assms have r: "uninit_ready ex act" "act < ex_next_act ex" "\<forall>a \<in> set (ex_action_trace ex). a < ex_next_act ex"
    "ma_location (ex_acts ex act) \<noteq> 0" "ex_model_thread ex = 0" by (auto simp: addable_def lists_inv_def)
  from get_uninitialized_action_spec [OF r(1-4)] obtain u ex' where
    "get_uninitialized_action ex act = Some (u, ex')" "same_lists ex ex'"
    "u \<noteq> act" "u \<notin> set (ex_action_trace ex)" "u < ex_next_act ex'" "ex_next_act ex \<le> ex_next_act ex'"
    "ma_type (ex_acts ex' u) = ATOMIC_UNINIT" "ma_tid (ex_acts ex' u) = ex_model_thread ex"
    "ma_location (ex_acts ex' u) = ma_location (ex_acts ex act)" "\<forall>a. a \<noteq> u \<longrightarrow> ex_acts ex' a = ex_acts ex a" by blast
  then show ?thesis using True r(5) by (intro exI [of _ "[u]"] exI [of _ ex']) simp
next
  case False
  then show ?thesis by (intro exI [of _ "[]"] exI [of _ ex]) (auto simp: same_lists_def)
qed

text \<open>The operation after the first access has been dealt with.\<close>

definition add_tail :: "ModelExecution \<Rightarrow> act_ref \<Rightarrow> act_ref list \<Rightarrow> ModelExecution option" where
  "add_tail ex act us = do {
     let location = ma_location (ex_acts ex act);
     let tid = id_to_int (ma_tid (ex_acts ex act));
     ex3 \<leftarrow> foldM (\<lambda>u ex. add_uninit ex location u) us ex;
     ex4 \<leftarrow> (if is_fence (ex_acts ex3 act) \<and> is_release (ex_acts ex3 act)
             then do {
               fr \<leftarrow> set_last (get_num_threads ex3) (ex_thrd_last_fence_release ex3) tid act;
               Some (ex3\<lparr>ex_thrd_last_fence_release := fr\<rparr>)
             }
             else Some ex3);
     if is_wait (ex_acts ex4 act) then add_wait ex4 act else Some ex4
   }"

lemma same_rest_trans: "same_rest ex ex1 \<Longrightarrow> same_rest ex1 ex2 \<Longrightarrow> same_rest ex ex2"
  by (simp add: same_rest_def)

lemma same_restD:
  assumes "same_rest ex ex'"
  shows "ex_acts ex' = ex_acts ex" "ex_next_act ex' = ex_next_act ex" "ex_model_thread ex' = ex_model_thread ex"
    "get_num_threads ex' = get_num_threads ex"
  using assms by (simp_all add: same_rest_def get_num_threads_def)

lemma add_tail_spec:
  assumes "length us \<le> 1" and "\<forall>u \<in> set us. ma_tid (ex_acts ex u) = 0"
    and "ex_obj_thrd_map ex (ma_location (ex_acts ex act)) = Some vec" and "vec \<noteq> []"
    and "ex_thrd_last_action ex \<noteq> []" and "ma_tid (ex_acts ex act) < get_num_threads ex"
    and "is_wait (ex_acts ex act) \<Longrightarrow> ma_value (ex_acts ex act) \<noteq> 0"
  shows "\<exists>ex'. add_tail ex act us = Some ex' \<and> same_rest ex ex' \<and>
    ex_action_trace ex' = us @ ex_action_trace ex \<and> ex_thrd_last_action ex' \<noteq> [] \<and>
    (\<forall>t. get_last_action ex' t = (if t = 0 \<and> us \<noteq> [] then Some (hd us) else get_last_action ex t)) \<and>
    (\<forall>t. get_last_fence_release ex' t =
       (if release_fence_of (ex_acts ex) t act then Some act else get_last_fence_release ex t)) \<and>
    (\<forall>l. obj_actions ex' l = obj_actions ex l @
       (if is_wait (ex_acts ex act) \<and> ma_value (ex_acts ex act) = l then [act] else [])) \<and>
    (\<forall>l t. thrd_actions ex' l t = (if l = ma_location (ex_acts ex act) \<and> t = 0 then us else []) @ thrd_actions ex l t @
       (if is_wait (ex_acts ex act) \<and> ma_value (ex_acts ex act) = l \<and> ma_tid (ex_acts ex act) = t then [act] else []))"
proof -
  let ?loc = "ma_location (ex_acts ex act)" and ?tid = "ma_tid (ex_acts ex act)"
  obtain ex3 where ex3: "foldM (\<lambda>u ex. add_uninit ex ?loc u) us ex = Some ex3" "same_rest ex ex3"
    "ex_obj_map ex3 = ex_obj_map ex" "ex_thrd_last_fence_release ex3 = ex_thrd_last_fence_release ex"
    "ex_action_trace ex3 = us @ ex_action_trace ex" "ex_thrd_last_action ex3 \<noteq> []"
    "\<forall>t. get_last_action ex3 t = (if t = 0 \<and> us \<noteq> [] then Some (hd us) else get_last_action ex t)"
    "\<forall>l t. thrd_actions ex3 l t = (if l = ?loc \<and> t = 0 then us else []) @ thrd_actions ex l t"
    using add_uninit_spec [OF assms(1-5)] by blast
  note r3 = same_restD [OF ex3(2)]
  have "?tid < get_num_threads ex3" "ma_tid (ex_acts ex3 act) = ?tid" using assms(6) by (simp_all add: r3)
  from add_fence_spec [OF this] obtain ex4 where ex4: "(if is_fence (ex_acts ex3 act) \<and> is_release (ex_acts ex3 act)
      then do {
        fr \<leftarrow> set_last (get_num_threads ex3) (ex_thrd_last_fence_release ex3) ?tid act;
        Some (ex3\<lparr>ex_thrd_last_fence_release := fr\<rparr>)
      }
      else Some ex3) = Some ex4" "same_rest ex3 ex4"
    "ex_obj_map ex4 = ex_obj_map ex3" "ex_obj_thrd_map ex4 = ex_obj_thrd_map ex3"
    "ex_action_trace ex4 = ex_action_trace ex3" "ex_thrd_last_action ex4 = ex_thrd_last_action ex3"
    "\<forall>t. get_last_fence_release ex4 t =
       (if release_fence_of (ex_acts ex3) t act then Some act else get_last_fence_release ex3 t)" by blast
  note r4 = same_restD [OF same_rest_trans [OF ex3(2) ex4(2)]]
  have "ma_tid (ex_acts ex4 act) < get_num_threads ex4"
    "is_wait (ex_acts ex4 act) \<Longrightarrow> ma_value (ex_acts ex4 act) \<noteq> 0" using assms(6,7) by (simp_all add: r4)
  from add_wait_spec [OF this] obtain ex5 where ex5:
    "(if is_wait (ex_acts ex4 act) then add_wait ex4 act else Some ex4) = Some ex5" "same_rest ex4 ex5"
    "ex_action_trace ex5 = ex_action_trace ex4" "ex_thrd_last_action ex5 = ex_thrd_last_action ex4"
    "ex_thrd_last_fence_release ex5 = ex_thrd_last_fence_release ex4"
    "\<forall>l. obj_actions ex5 l = obj_actions ex4 l @
       (if is_wait (ex_acts ex4 act) \<and> ma_value (ex_acts ex4 act) = l then [act] else [])"
    "\<forall>l t. thrd_actions ex5 l t = thrd_actions ex4 l t @
       (if is_wait (ex_acts ex4 act) \<and> ma_value (ex_acts ex4 act) = l \<and> ma_tid (ex_acts ex4 act) = t then [act] else [])"
    by blast
  have "add_tail ex act us = Some ex5"
    unfolding add_tail_def Let_def id_to_int_def ex3(1) Option.bind.bind_lunit ex4(1) by (rule ex5(1))
  moreover have "same_rest ex ex5" by (rule same_rest_trans [OF same_rest_trans [OF ex3(2) ex4(2)] ex5(2)])
  moreover have "ex_action_trace ex5 = us @ ex_action_trace ex" "ex_thrd_last_action ex5 \<noteq> []"
    using ex3(5,6) ex4(5,6) ex5(3,4) by simp_all
  moreover have "\<forall>t. get_last_action ex5 t = (if t = 0 \<and> us \<noteq> [] then Some (hd us) else get_last_action ex t)"
    using ex3(7) ex4(6) ex5(4) by (simp add: get_last_action_opt)
  moreover have "\<forall>t. get_last_fence_release ex5 t =
       (if release_fence_of (ex_acts ex) t act then Some act else get_last_fence_release ex t)"
    using ex4(7) ex3(4) ex5(5) r3 by (simp add: get_last_fence_release_opt)
  moreover have "\<forall>l. obj_actions ex5 l = obj_actions ex l @
       (if is_wait (ex_acts ex act) \<and> ma_value (ex_acts ex act) = l then [act] else [])"
    using ex5(6) ex4(3) ex3(3) r4 by (simp add: obj_actions_def)
  moreover have "\<forall>l t. thrd_actions ex5 l t = (if l = ?loc \<and> t = 0 then us else []) @ thrd_actions ex l t @
       (if is_wait (ex_acts ex act) \<and> ma_value (ex_acts ex act) = l \<and> ?tid = t then [act] else [])"
    using ex5(7) ex4(4) ex3(8) r4 by (simp add: thrd_actions_def)
  ultimately show ?thesis by blast
qed

text \<open>What the whole operation does to the observed lists.\<close>

definition added :: "ModelExecution \<Rightarrow> act_ref \<Rightarrow> act_ref list \<Rightarrow> ModelExecution \<Rightarrow> bool" where
  "added ex act us ex' \<longleftrightarrow>
     ex_action_trace ex' = us @ ex_action_trace ex @ [act] \<and>
     (\<forall>l. obj_actions ex' l = (if l = ma_location (ex_acts ex act) then us else []) @ obj_actions ex l @
        (if on_object (ex_acts ex) l act then [act] else [])) \<and>
     (\<forall>l t. thrd_actions ex' l t =
        (if l = ma_location (ex_acts ex act) \<and> t = 0 then us else []) @ thrd_actions ex l t @
        (if on_object (ex_acts ex) l act \<and> ma_tid (ex_acts ex act) = t then [act] else [])) \<and>
     (\<forall>t. get_last_action ex' t =
        (if t = 0 \<and> us \<noteq> [] then Some (hd us)
         else if t = ma_tid (ex_acts ex act) then Some act else get_last_action ex t)) \<and>
     (\<forall>t. get_last_fence_release ex' t =
        (if release_fence_of (ex_acts ex) t act then Some act else get_last_fence_release ex t)) \<and>
     ex_model_thread ex' = ex_model_thread ex \<and> ex_thrd_last_action ex' \<noteq> []"

definition uninit_of :: "ModelExecution \<Rightarrow> act_ref \<Rightarrow> ModelExecution \<Rightarrow> act_ref list \<Rightarrow> bool" where
  "uninit_of ex act ex' us \<longleftrightarrow>
     length us \<le> 1 \<and>
     (us = [] \<longleftrightarrow> obj_actions ex (ma_location (ex_acts ex act)) \<noteq> [] \<or> \<not> is_atomic_var (ex_acts ex act)) \<and>
     (\<forall>a. a \<notin> set us \<longrightarrow> ex_acts ex' a = ex_acts ex a) \<and> ex_next_act ex \<le> ex_next_act ex' \<and>
     (\<forall>u \<in> set us. u \<noteq> act \<and> u \<notin> set (ex_action_trace ex) \<and> u < ex_next_act ex' \<and>
        ma_type (ex_acts ex' u) = ATOMIC_UNINIT \<and> ma_tid (ex_acts ex' u) = 0 \<and>
        ma_location (ex_acts ex' u) = ma_location (ex_acts ex act))"

text \<open>The state with the action pushed on the lists, before the uninitialised store.\<close>

definition push_act ::
    "ModelExecution \<Rightarrow> addr \<Rightarrow> act_ref list \<Rightarrow> act_ref \<Rightarrow> act_ref list list \<Rightarrow> act_ref option list \<Rightarrow> ModelExecution" where
  "push_act ex loc list act vec lst =
     ex\<lparr>ex_obj_map := (ex_obj_map ex)(loc \<mapsto> list @ [act]), ex_action_trace := ex_action_trace ex @ [act],
        ex_obj_thrd_map := (ex_obj_thrd_map ex)(loc \<mapsto> vec), ex_thrd_last_action := lst\<rparr>"

lemma push_act_frame [simp]:
  "ex_acts (push_act ex loc list act vec lst) = ex_acts ex"
  "ex_next_act (push_act ex loc list act vec lst) = ex_next_act ex"
  "ex_model_thread (push_act ex loc list act vec lst) = ex_model_thread ex"
  "ex_action_trace (push_act ex loc list act vec lst) = ex_action_trace ex @ [act]"
  "ex_thrd_last_action (push_act ex loc list act vec lst) = lst"
  "ex_obj_thrd_map (push_act ex loc list act vec lst) loc = Some vec"
  "get_num_threads (push_act ex loc list act vec lst) = get_num_threads ex"
  "get_last_fence_release (push_act ex loc list act vec lst) t = get_last_fence_release ex t"
  by (simp_all add: push_act_def get_num_threads_def get_last_fence_release_opt)

lemma push_act_obj:
  "obj_actions (push_act ex loc list act vec lst) l = (if l = loc then list @ [act] else obj_actions ex l)"
  by (simp add: push_act_def obj_actions_def)

lemma push_act_thrd:
  assumes "\<And>t. list_at vec t = list_at (case ex_obj_thrd_map ex loc of None \<Rightarrow> [] | Some v \<Rightarrow> v) t @ (if t = tid then [act] else [])"
  shows "thrd_actions (push_act ex loc list act vec lst) l t =
    thrd_actions ex l t @ (if l = loc \<and> t = tid then [act] else [])"
proof (cases "l = loc")
  case True
  then show ?thesis
    by (cases "ex_obj_thrd_map ex loc") (simp_all add: push_act_def thrd_actions_def assms, simp_all add: list_at_def)
qed (simp add: push_act_def thrd_actions_def)

lemma push_act_last:
  assumes "\<And>t. opt_at lst t = (if t = tid then Some act else opt_at (ex_thrd_last_action ex) t)"
  shows "get_last_action (push_act ex loc list act vec lst) t = (if t = tid then Some act else get_last_action ex t)"
  by (simp add: get_last_action_opt assms)

lemma same_listsD:
  assumes "same_lists ex ex'"
  shows "obj_actions ex' l = obj_actions ex l" "thrd_actions ex' l t = thrd_actions ex l t"
    "get_last_action ex' t = get_last_action ex t" "get_last_fence_release ex' t = get_last_fence_release ex t"
    "ex_action_trace ex' = ex_action_trace ex" "ex_model_thread ex' = ex_model_thread ex"
    "get_num_threads ex' = get_num_threads ex"
  using assms
  by (simp_all add: same_lists_def obj_actions_def thrd_actions_def get_last_action_opt get_last_fence_release_opt
      get_num_threads_def)

lemma add_action_to_lists_unfold:
  assumes "ma_location (ex_acts ex act) \<noteq> 0" and "ma_location (ex_acts ex act) = loc" and "ma_tid (ex_acts ex act) = tid"
    and "(if obj_actions ex loc = [] \<and> is_atomic_var (ex_acts ex act)
        then do { (u, ex1) \<leftarrow> get_uninitialized_action ex act; Some ([u], ex1) }
        else Some ([], ex)) = Some (us, ex1)"
    and "push_thrd_list (get_num_threads ex1) (case ex_obj_thrd_map ex1 loc of None \<Rightarrow> [] | Some v \<Rightarrow> v) tid act = Some vec"
    and "set_last (get_num_threads ex1) (ex_thrd_last_action ex1) tid act = Some lst"
    and "ex_acts ex1 act = ex_acts ex act"
  shows "add_action_to_lists ex act = add_tail (push_act ex1 loc (us @ obj_actions ex loc) act vec lst) act us"
proof -
  have list: "get_safe_ptr_action (ex_obj_map ex) loc = Some (obj_actions ex loc)"
    using assms(1,2) by (simp add: get_safe_ptr_action_def hash_get_def obj_actions_def split: option.split)
  have vec: "get_safe_ptr_vect_action (ex_obj_thrd_map ex1) loc = Some (case ex_obj_thrd_map ex1 loc of None \<Rightarrow> [] | Some v \<Rightarrow> v)"
    using assms(1,2) by (simp add: get_safe_ptr_vect_action_def hash_get_def)
  show ?thesis
    unfolding add_action_to_lists_def Let_def id_to_int_def assms(2,3) list Option.bind.bind_lunit assms(4) prod.case vec assms(5,6)
    using assms(2,3,7) by (simp add: add_tail_def push_act_def id_to_int_def Let_def)
qed

lemma add_action_to_lists_effect:
  assumes "lists_inv ex" and "addable ex act"
  shows "\<exists>us ex'. add_action_to_lists ex act = Some ex' \<and> added ex act us ex' \<and> uninit_of ex act ex' us"
proof -
  let ?loc = "ma_location (ex_acts ex act)" and ?tid = "ma_tid (ex_acts ex act)"
  have add: "?tid < get_num_threads ex" "?loc \<noteq> 0"
    "is_wait (ex_acts ex act) \<Longrightarrow> ma_value (ex_acts ex act) \<noteq> 0"
    "is_wait (ex_acts ex act) \<Longrightarrow> ma_value (ex_acts ex act) \<noteq> ?loc" using assms(2) by (auto simp: addable_def)
  obtain us ex1 where first: "(if obj_actions ex ?loc = [] \<and> is_atomic_var (ex_acts ex act)
        then do { (u, ex1) \<leftarrow> get_uninitialized_action ex act; Some ([u], ex1) }
        else Some ([], ex)) = Some (us, ex1)" and same: "same_lists ex ex1" and us: "uninit_of ex act ex1 us"
    using first_access [OF assms] unfolding uninit_of_def by blast
  have act1: "ex_acts ex1 act = ex_acts ex act" using us by (auto simp: uninit_of_def)
  have num: "?tid < get_num_threads ex1" using add(1) same_listsD(7) [OF same] by simp
  obtain vec where vec: "push_thrd_list (get_num_threads ex1) (case ex_obj_thrd_map ex1 ?loc of None \<Rightarrow> [] | Some v \<Rightarrow> v) ?tid act = Some vec"
    "?tid < length vec" "\<And>t. list_at vec t = list_at (case ex_obj_thrd_map ex1 ?loc of None \<Rightarrow> [] | Some v \<Rightarrow> v) t @ (if t = ?tid then [act] else [])"
    using push_thrd_list_spec [OF num] by blast
  obtain lst where lst: "set_last (get_num_threads ex1) (ex_thrd_last_action ex1) ?tid act = Some lst"
    "?tid < length lst" "\<And>t. opt_at lst t = (if t = ?tid then Some act else opt_at (ex_thrd_last_action ex1) t)"
    using set_last_spec [OF num] by blast
  define ex2 where "ex2 = push_act ex1 ?loc (us @ obj_actions ex ?loc) act vec lst"
  note thrd2 = push_act_thrd [where ex = ex1 and loc = ?loc and tid = ?tid and list = "us @ obj_actions ex ?loc" and lst = lst,
      OF vec(3), folded ex2_def]
  note last2 = push_act_last [where ex = ex1 and loc = ?loc and tid = ?tid and list = "us @ obj_actions ex ?loc" and vec = vec,
      OF lst(3), folded ex2_def]
  have tail: "length us \<le> 1" "\<forall>u \<in> set us. ma_tid (ex_acts ex2 u) = 0"
    "ex_obj_thrd_map ex2 (ma_location (ex_acts ex2 act)) = Some vec" "vec \<noteq> []" "ex_thrd_last_action ex2 \<noteq> []"
    "ma_tid (ex_acts ex2 act) < get_num_threads ex2"
    "is_wait (ex_acts ex2 act) \<Longrightarrow> ma_value (ex_acts ex2 act) \<noteq> 0"
    using us act1 add(3) vec(2) lst(2) num by (auto simp: uninit_of_def ex2_def)
  from add_tail_spec [OF tail] obtain ex' where ex': "add_tail ex2 act us = Some ex'" "same_rest ex2 ex'"
    "ex_action_trace ex' = us @ ex_action_trace ex2" "ex_thrd_last_action ex' \<noteq> []"
    "\<forall>t. get_last_action ex' t = (if t = 0 \<and> us \<noteq> [] then Some (hd us) else get_last_action ex2 t)"
    "\<forall>t. get_last_fence_release ex' t =
       (if release_fence_of (ex_acts ex2) t act then Some act else get_last_fence_release ex2 t)"
    "\<forall>l. obj_actions ex' l = obj_actions ex2 l @
       (if is_wait (ex_acts ex2 act) \<and> ma_value (ex_acts ex2 act) = l then [act] else [])"
    "\<forall>l t. thrd_actions ex' l t = (if l = ma_location (ex_acts ex2 act) \<and> t = 0 then us else []) @ thrd_actions ex2 l t @
       (if is_wait (ex_acts ex2 act) \<and> ma_value (ex_acts ex2 act) = l \<and> ma_tid (ex_acts ex2 act) = t then [act] else [])"
    by blast
  note r' = same_restD [OF ex'(2)] and s = same_listsD [OF same]
  have acts2: "ex_acts ex2 act = ex_acts ex act" by (simp add: ex2_def act1)
  have "add_action_to_lists ex act = Some ex'"
    using add_action_to_lists_unfold [OF add(2) refl refl first vec(1) lst(1) act1] ex'(1) by (simp add: ex2_def)
  moreover have "uninit_of ex act ex' us" using us r' by (simp add: uninit_of_def ex2_def)
  moreover have "added ex act us ex'"
    unfolding added_def
  proof (intro conjI allI impI)
    show "ex_action_trace ex' = us @ ex_action_trace ex @ [act]" by (simp add: ex'(3) ex2_def s)
    show "obj_actions ex' l = (if l = ?loc then us else []) @ obj_actions ex l @
        (if on_object (ex_acts ex) l act then [act] else [])" for l
      using ex'(7) add(4) acts2 by (auto simp: ex2_def push_act_obj s on_object_def)
    show "thrd_actions ex' l t = (if l = ?loc \<and> t = 0 then us else []) @ thrd_actions ex l t @
        (if on_object (ex_acts ex) l act \<and> ?tid = t then [act] else [])" for l t
      using ex'(8) add(4) acts2 thrd2 [of l t] by (auto simp: s on_object_def)
    show "get_last_action ex' t = (if t = 0 \<and> us \<noteq> [] then Some (hd us)
        else if t = ?tid then Some act else get_last_action ex t)" for t
      using ex'(5) last2 [of t] by (simp add: s)
    show "get_last_fence_release ex' t = (if release_fence_of (ex_acts ex) t act then Some act else get_last_fence_release ex t)" for t
      using ex'(6) by (simp add: s ex2_def release_fence_of_def act1)
    show "ex_model_thread ex' = ex_model_thread ex" by (simp add: r' ex2_def s)
    show "ex_thrd_last_action ex' \<noteq> []" by (rule ex'(4))
  qed
  ultimately show ?thesis by blast
qed

text \<open>The invariant is kept.\<close>

lemma added_keeps_lists:
  assumes "lists_inv ex" and "addable ex act" and "added ex act us ex'" and "uninit_of ex act ex' us"
  shows "lists_inv ex'"
proof -
  have act: "ex_acts ex' act = ex_acts ex act" using assms(4) by (auto simp: uninit_of_def)
  have old: "ex_acts ex' a = ex_acts ex a" if "a \<in> set (ex_action_trace ex)" for a
    using assms(4) that by (auto simp: uninit_of_def)
  have tr: "ex_action_trace ex' = us @ ex_action_trace ex @ [act]" using assms(3) by (simp add: added_def)
  have m: "ex_model_thread ex = 0" using assms(1) by (simp add: lists_inv_def)
  have u: "on_object (ex_acts ex') l u \<longleftrightarrow> l = ma_location (ex_acts ex act)" "ma_tid (ex_acts ex' u) = 0"
    "\<not> is_fence (ex_acts ex' u)" if "u \<in> set us" for u l
    using assms(4) that by (auto simp: uninit_of_def on_object_def is_wait_def is_fence_def)
  have obj: "obj_actions ex' l = filter (on_object (ex_acts ex') l) (ex_action_trace ex')" for l
  proof -
    have "filter (on_object (ex_acts ex') l) us = (if l = ma_location (ex_acts ex act) then us else [])"
      using u(1) by (auto simp: filter_id_conv filter_empty_conv)
    moreover have "filter (on_object (ex_acts ex') l) (ex_action_trace ex) = obj_actions ex l"
      using assms(1) old by (auto simp: lists_inv_def on_object_def intro!: filter_cong)
    ultimately show ?thesis using assms(3) act by (simp add: tr added_def on_object_def)
  qed
  have thrd: "thrd_actions ex' l t = filter (\<lambda>a. ma_tid (ex_acts ex' a) = t) (obj_actions ex' l)" for l t
  proof -
    have "filter (\<lambda>a. ma_tid (ex_acts ex' a) = t) us = (if t = 0 then us else [])"
      using u(2) by (auto simp: filter_id_conv filter_empty_conv)
    moreover have "filter (\<lambda>a. ma_tid (ex_acts ex' a) = t) (obj_actions ex l) = thrd_actions ex l t"
      using assms(1) old by (auto simp: lists_inv_def intro!: filter_cong)
    ultimately show ?thesis using assms(3) act by (cases "t = 0") (simp_all add: added_def)
  qed
  have skip: "latest P (ex_action_trace ex') = (if P act then Some act else latest P (ex_action_trace ex))"
    if "\<And>u. u \<in> set us \<Longrightarrow> \<not> P u" for P
    using that by (auto simp: tr latest_def filter_empty_conv)
  have last: "get_last_action ex' t = latest (\<lambda>a. ma_tid (ex_acts ex' a) = t) (ex_action_trace ex')" if "t \<noteq> 0" for t
  proof -
    have "get_last_action ex t = latest (\<lambda>a. ma_tid (ex_acts ex a) = t) (ex_action_trace ex)"
      using assms(1) that by (simp add: lists_inv_def)
    also have "\<dots> = latest (\<lambda>a. ma_tid (ex_acts ex' a) = t) (ex_action_trace ex)"
      by (rule latest_cong) (simp add: old)
    finally show ?thesis using assms(3) that u(2) act by (subst skip) (auto simp: added_def)
  qed
  have model: "get_last_action ex' 0 = List.find (\<lambda>a. ma_tid (ex_acts ex' a) = 0) (ex_action_trace ex')"
  proof (cases us)
    case Nil
    have "get_last_action ex 0 = List.find (\<lambda>a. ma_tid (ex_acts ex a) = 0) (ex_action_trace ex)"
      using assms(1) m by (simp add: lists_inv_def)
    also have "\<dots> = List.find (\<lambda>a. ma_tid (ex_acts ex' a) = 0) (ex_action_trace ex)"
      by (rule find_cong) (simp_all add: old)
    finally show ?thesis using assms(2,3) Nil act m by (simp add: added_def addable_def tr find_append)
  next
    case (Cons u vs)
    then show ?thesis using assms(3) u(2) [of u] by (simp add: added_def tr)
  qed
  have fence: "get_last_fence_release ex' t = latest (release_fence_of (ex_acts ex') t) (ex_action_trace ex')" for t
  proof -
    have "get_last_fence_release ex t = latest (release_fence_of (ex_acts ex) t) (ex_action_trace ex)"
      using assms(1) by (simp add: lists_inv_def)
    also have "\<dots> = latest (release_fence_of (ex_acts ex') t) (ex_action_trace ex)"
      by (rule latest_cong) (simp add: old release_fence_of_def)
    finally show ?thesis using assms(3) u(3) act by (subst skip) (auto simp: added_def release_fence_of_def)
  qed
  have next': "a < ex_next_act ex'" if "a \<in> set (ex_action_trace ex')" for a
    using that assms(1,2,4) by (auto simp: tr lists_inv_def addable_def uninit_of_def intro: less_le_trans)
  show ?thesis
    unfolding lists_inv_def using obj thrd last model fence next' assms(3) m by (auto simp: added_def)
qed

section \<open>Searches\<close>

lemma skip_past_rev:
  assumes "x \<in> set xs" and "distinct xs"
  shows "skip_past x (rev xs) = Some (rev (takeWhile (\<lambda>y. y \<noteq> x) xs))"
proof -
  obtain ys zs where xs: "xs = ys @ x # zs" "x \<notin> set ys" using assms(1) by (meson split_list_first)
  have "skip_past x (as @ x # bs) = Some bs" if "x \<notin> set as" for as bs
    using that by (induction as) auto
  moreover have "x \<notin> set (rev zs)" using assms(2) xs by simp
  moreover have "takeWhile (\<lambda>y. y \<noteq> x) xs = ys" unfolding xs(1) using xs(2) by (subst takeWhile_append2) auto
  ultimately show ?thesis by (simp add: xs(1))
qed

lemma takeWhile_filter:
  assumes "x \<in> set xs" and "P x"
  shows "takeWhile (\<lambda>y. y \<noteq> x) (filter P xs) = filter P (takeWhile (\<lambda>y. y \<noteq> x) xs)"
proof -
  obtain ys zs where xs: "xs = ys @ x # zs" "x \<notin> set ys" using assms(1) by (meson split_list_first)
  then have "takeWhile (\<lambda>y. y \<noteq> x) (ys @ x # zs) = ys" "takeWhile (\<lambda>y. y \<noteq> x) (filter P ys @ x # filter P zs) = filter P ys"
    by (subst takeWhile_append2; auto)+
  then show ?thesis using assms(2) by (simp add: xs(1))
qed

lemma obj_list_inv:
  assumes "lists_inv ex" and "a \<in> set (ex_action_trace ex)" and "on_object (ex_acts ex) loc a" and "loc \<noteq> 0"
  shows "obj_list ex loc = Some (filter (on_object (ex_acts ex) loc) (ex_action_trace ex))"
proof -
  have f: "obj_actions ex loc = filter (on_object (ex_acts ex) loc) (ex_action_trace ex)"
    using assms(1) by (simp add: lists_inv_def)
  then have "obj_actions ex loc \<noteq> []" using assms(2,3) by (auto simp: filter_empty_conv)
  then obtain l where "ex_obj_map ex loc = Some l" by (auto simp: obj_actions_def split: option.splits)
  then show ?thesis using f assms(4) by (simp add: obj_list_def hash_get_def obj_actions_def)
qed

text \<open>The list up to an action of the object, walked backwards.\<close>

lemma obj_list_before:
  assumes "lists_inv ex" and "distinct (ex_action_trace ex)" and "a \<in> set (ex_action_trace ex)"
    and "on_object (ex_acts ex) loc a" and "loc \<noteq> 0"
  shows "\<exists>list. obj_list ex loc = Some list \<and>
    skip_past a (rev list) = Some (rev (filter (on_object (ex_acts ex) loc) (takeWhile (\<lambda>y. y \<noteq> a) (ex_action_trace ex))))"
  using obj_list_inv [OF assms(1,3,4,5)] skip_past_rev [of a "filter (on_object (ex_acts ex) loc) (ex_action_trace ex)"]
    takeWhile_filter [of a "ex_action_trace ex" "on_object (ex_acts ex) loc"] assms(2,3,4)
  by simp

section \<open>Properties\<close>

text \<open>
  (C21) Adding an action of a user thread to the lists of an execution returns, appends it to the
  trace, preceded for the first access to an atomic object by one uninitialised store at the front,
  and keeps the invariant: the list of an object is the part of the trace on that object, the list of
  an object and thread the part of it by that thread, the last action and the last release fence of a
  user thread are the latest ones of the trace, and the last action of the model thread is its
  uninitialised store added most recently, the first one of the trace.
\<close>

theorem execution_lists_invariant:
  assumes "lists_inv ex" and "addable ex act"
  shows "\<exists>us ex'. add_action_to_lists ex act = Some ex' \<and> lists_inv ex' \<and>
    ex_action_trace ex' = us @ ex_action_trace ex @ [act] \<and> uninit_of ex act ex' us"
  using add_action_to_lists_effect [OF assms] added_keeps_lists [OF assms] by (auto simp: added_def)

lemma fence_search:
  assumes "lists_inv ex"
  shows "get_last_seq_cst_fence ex t None =
      Some (latest (\<lambda>a. on_object (ex_acts ex) FENCE_LOCATION a \<and> is_fence (ex_acts ex a) \<and> t = ma_tid (ex_acts ex a) \<and>
               is_seqcst (ex_acts ex a)) (ex_action_trace ex))"
proof -
  have f: "obj_actions ex FENCE_LOCATION = filter (on_object (ex_acts ex) FENCE_LOCATION) (ex_action_trace ex)"
    using assms by (simp add: lists_inv_def)
  have get: "hash_get (ex_obj_map ex) FENCE_LOCATION = Some (ex_obj_map ex FENCE_LOCATION)"
    by (simp add: hash_get_def FENCE_LOCATION_def)
  show ?thesis
  proof (cases "ex_obj_map ex FENCE_LOCATION")
    case None
    then have "filter (on_object (ex_acts ex) FENCE_LOCATION) (ex_action_trace ex) = []" using f by (simp add: obj_actions_def)
    then show ?thesis using None
      by (auto simp: get_last_seq_cst_fence_def get latest_def filter_empty_conv)
  next
    case (Some list)
    then have "list = filter (on_object (ex_acts ex) FENCE_LOCATION) (ex_action_trace ex)" using f by (simp add: obj_actions_def)
    then show ?thesis using Some
      by (simp add: get_last_seq_cst_fence_def get find_rev_latest latest_filter)
  qed
qed

text \<open>
  (C22) With these lists the searches are searches of the trace. For an action of the trace with a
  location, the last unlock is the latest unlock or wait on its object, and the last seq-cst store the latest one
  on its object before it. The last seq-cst fence of a thread is the latest one of the trace, also in
  a trace without fences; with a fence of the trace given, the latest one before that fence. Each is
  null exactly if there is none.
\<close>

theorem last_action_searches:
  assumes "lists_inv ex" and "distinct (ex_action_trace ex)"
  shows "(\<forall>cur \<in> set (ex_action_trace ex). ma_location (ex_acts ex cur) \<noteq> 0 \<longrightarrow>
      get_last_unlock ex cur =
        Some (latest (\<lambda>a. on_object (ex_acts ex) (ma_location (ex_acts ex cur)) a \<and>
                          (is_unlock (ex_acts ex a) \<or> is_wait (ex_acts ex a))) (ex_action_trace ex)) \<and>
      get_last_seq_cst_write ex cur =
        Some (latest (\<lambda>a. on_object (ex_acts ex) (ma_location (ex_acts ex cur)) a \<and>
                          is_write (ex_acts ex a) \<and> is_seqcst (ex_acts ex a))
               (takeWhile (\<lambda>a. a \<noteq> cur) (ex_action_trace ex)))) \<and>
    get_last_seq_cst_fence ex t None =
      Some (latest (\<lambda>a. on_object (ex_acts ex) FENCE_LOCATION a \<and> is_fence (ex_acts ex a) \<and> t = ma_tid (ex_acts ex a) \<and>
               is_seqcst (ex_acts ex a)) (ex_action_trace ex)) \<and>
    (\<forall>f \<in> set (ex_action_trace ex). ma_location (ex_acts ex f) = FENCE_LOCATION \<longrightarrow>
      get_last_seq_cst_fence ex t (Some f) =
        Some (latest (\<lambda>a. on_object (ex_acts ex) FENCE_LOCATION a \<and> is_fence (ex_acts ex a) \<and> t = ma_tid (ex_acts ex a) \<and>
                 is_seqcst (ex_acts ex a)) (takeWhile (\<lambda>a. a \<noteq> f) (ex_action_trace ex))))"
proof (intro conjI ballI impI)
  fix cur assume cur: "cur \<in> set (ex_action_trace ex)" "ma_location (ex_acts ex cur) \<noteq> 0"
  have on: "on_object (ex_acts ex) (ma_location (ex_acts ex cur)) cur" by (simp add: on_object_def)
  note l = obj_list_inv [OF assms(1) cur(1) on cur(2)] obj_list_before [OF assms cur(1) on cur(2)]
  show "get_last_unlock ex cur =
        Some (latest (\<lambda>a. on_object (ex_acts ex) (ma_location (ex_acts ex cur)) a \<and>
                          (is_unlock (ex_acts ex a) \<or> is_wait (ex_acts ex a))) (ex_action_trace ex))"
    using l(1) by (simp add: get_last_unlock_def find_rev_latest latest_filter)
  show "get_last_seq_cst_write ex cur =
        Some (latest (\<lambda>a. on_object (ex_acts ex) (ma_location (ex_acts ex cur)) a \<and>
                          is_write (ex_acts ex a) \<and> is_seqcst (ex_acts ex a))
               (takeWhile (\<lambda>a. a \<noteq> cur) (ex_action_trace ex)))"
    using l(2) by (auto simp: get_last_seq_cst_write_def find_rev_latest latest_filter)
next
  show "get_last_seq_cst_fence ex t None =
      Some (latest (\<lambda>a. on_object (ex_acts ex) FENCE_LOCATION a \<and> is_fence (ex_acts ex a) \<and> t = ma_tid (ex_acts ex a) \<and>
               is_seqcst (ex_acts ex a)) (ex_action_trace ex))" by (rule fence_search [OF assms(1)])
next
  fix f assume f: "f \<in> set (ex_action_trace ex)" "ma_location (ex_acts ex f) = FENCE_LOCATION"
  have f0: "FENCE_LOCATION \<noteq> 0" by (simp add: FENCE_LOCATION_def)
  have on: "on_object (ex_acts ex) FENCE_LOCATION f" using f(2) by (simp add: on_object_def)
  have fm: "hash_get (ex_obj_map ex) FENCE_LOCATION = Some (obj_list ex FENCE_LOCATION)"
    using f0 by (simp add: obj_list_def hash_get_def)
  show "get_last_seq_cst_fence ex t (Some f) =
        Some (latest (\<lambda>a. on_object (ex_acts ex) FENCE_LOCATION a \<and> is_fence (ex_acts ex a) \<and> t = ma_tid (ex_acts ex a) \<and>
                 is_seqcst (ex_acts ex a)) (takeWhile (\<lambda>a. a \<noteq> f) (ex_action_trace ex)))"
    using obj_list_before [OF assms f(1) on f0]
    by (auto simp: get_last_seq_cst_fence_def fm find_rev_latest latest_filter)
qed

section \<open>Concrete cases\<close>

text \<open>An execution with two threads and one node, and given actions and lists.\<close>

definition example_exec :: "act_store \<Rightarrow> act_ref list \<Rightarrow> (addr \<rightharpoonup> act_ref list) \<Rightarrow> (addr \<rightharpoonup> act_ref list list) \<Rightarrow>
    act_ref option list \<Rightarrow> ModelExecution" where
  "example_exec acts trace objs thrds lasts =
     \<lparr>ex_acts = acts, ex_next_act = 9, ex_proms = (\<lambda>_. new_Promise 0 (acts 0) \<lparr>fv_value = 0, fv_expiration = 0, fv_tid = 1\<rparr>),
      ex_next_prom = 0, ex_threads = new_model_Thread, ex_thrd_priv = Map.empty, ex_thread_at = Map.empty,
      ex_mutexes = (\<lambda>_. \<lparr>mx_locked = None, mx_alloc_tid = 0, mx_alloc_clock = 0\<rparr>),
      ex_races = \<lparr>rs_unrealizedraces = [], rs_asserted = []\<rparr>,
      ex_params = \<lparr>mp_maxreads = 0, mp_maxfuturedelay = 6, mp_yieldon = False, mp_yieldblock = False,
        mp_fairwindow = 0, mp_enabledcount = 1, mp_bound = 0, mp_uninitvalue = 0, mp_maxexecutions = 0,
        mp_maxfuturevalues = 0, mp_expireslop = 4, mp_verbose = 0\<rparr>,
      ex_scheduler = \<lparr>sc_enabled = [THREAD_DISABLED, THREAD_ENABLED], sc_curr_thread_index = 0, sc_current = None\<rparr>,
      ex_action_trace = trace, ex_thread_map = [Some 0, Some 1], ex_obj_map = objs,
      ex_condvar_waiters_map = Map.empty, ex_obj_thrd_map = thrds, ex_promises = [], ex_futurevalues = [],
      ex_pending_rel_seqs = [], ex_thrd_last_action = lasts, ex_thrd_last_fence_release = [],
      ex_node_stack = \<lparr>ns_node_list = [blank_Node 0 None 2], ns_head_idx = 0, ns_total_nodes = 1\<rparr>,
      ex_model_thread = 0, ex_priv = new_model_snapshot_members\<lparr>ms_next_thread_id := 2\<rparr>,
      ex_mo_graph = new_CycleGraph\<rparr>"

theorem execution_lists_invariant_witness:
  "\<exists>u ex'. add_action_to_lists (example_exec (\<lambda>_. (example_action ATOMIC_READ memory_order_relaxed)\<lparr>ma_node := Some 0\<rparr>)
      [] Map.empty Map.empty [None]) 0 = Some ex' \<and> ex_action_trace ex' = [u, 0] \<and> is_uninitialized (ex_acts ex' u)"
proof -
  let ?acts = "\<lambda>_ :: act_ref. (example_action ATOMIC_READ memory_order_relaxed)\<lparr>ma_node := Some 0\<rparr>"
  let ?ex = "example_exec ?acts [] Map.empty Map.empty [None]"
  have inv: "lists_inv ?ex"
    by (simp add: lists_inv_def example_exec_def obj_actions_def thrd_actions_def get_last_action_opt
        get_last_fence_release_opt opt_at_def latest_def)
  have add: "addable ?ex 0"
    by (simp add: addable_def example_exec_def example_action_def get_num_threads_def is_wait_def uninit_ready_def
        node_of_def get_node_def is_uninitialized_def node_at_def vec_at_def blank_Node_def)
  from execution_lists_invariant [OF inv add] obtain us ex' where
    ex': "add_action_to_lists ?ex 0 = Some ex'" "ex_action_trace ex' = us @ ex_action_trace ?ex @ [0]" "uninit_of ?ex 0 ex' us" by blast
  have "us \<noteq> []" using ex'(3)
    by (simp add: uninit_of_def example_exec_def obj_actions_def is_atomic_var_def is_read_def example_action_def)
  then obtain u where "us = [u]" using ex'(3) by (cases us) (auto simp: uninit_of_def)
  then show ?thesis using ex' by (auto simp: uninit_of_def is_uninitialized_def example_exec_def)
qed

text \<open>A trace of an unlock and a seq-cst fence of thread 1.\<close>

definition example_acts :: act_store where
  "example_acts a =
     (if a = 0 then example_action ATOMIC_UNLOCK memory_order_seq_cst
      else (example_action ATOMIC_FENCE memory_order_seq_cst)\<lparr>ma_location := FENCE_LOCATION\<rparr>)"

theorem last_action_searches_witness:
  "get_last_unlock (example_exec example_acts [0, 1] [0x100 \<mapsto> [0], FENCE_LOCATION \<mapsto> [1]]
       [0x100 \<mapsto> [[], [0]], FENCE_LOCATION \<mapsto> [[], [1]]] [None, Some 1]\<lparr>ex_thrd_last_fence_release := [None, Some 1]\<rparr>) 0 = Some (Some 0)"
proof -
  let ?ex = "example_exec example_acts [0, 1] [0x100 \<mapsto> [0], FENCE_LOCATION \<mapsto> [1]]
     [0x100 \<mapsto> [[], [0]], FENCE_LOCATION \<mapsto> [[], [1]]] [None, Some 1]\<lparr>ex_thrd_last_fence_release := [None, Some 1]\<rparr>"
  have inv: "lists_inv ?ex"
    by (auto simp: lists_inv_def example_exec_def obj_actions_def thrd_actions_def get_last_action_opt
        get_last_fence_release_opt opt_at_def latest_def list_at_def on_object_def example_acts_def example_action_def
        FENCE_LOCATION_def is_wait_def release_fence_of_def is_fence_def is_release_def nth_Cons split: nat.splits)
  have "distinct (ex_action_trace ?ex)" by (simp add: example_exec_def)
  note all = conjunct1 [OF last_action_searches [OF inv this]]
  have "0 \<in> set (ex_action_trace ?ex)" "ma_location (ex_acts ?ex 0) \<noteq> 0"
    by (simp_all add: example_exec_def example_acts_def example_action_def)
  from conjunct1 [OF mp [OF bspec [OF all this(1)] this(2)]]
  have "get_last_unlock ?ex 0 = Some (latest (\<lambda>a. on_object (ex_acts ?ex) (ma_location (ex_acts ?ex 0)) a \<and>
      (is_unlock (ex_acts ?ex a) \<or> is_wait (ex_acts ?ex a))) (ex_action_trace ?ex))" .
  then show ?thesis
    by (simp add: example_exec_def latest_def on_object_def example_acts_def example_action_def is_unlock_def FENCE_LOCATION_def
        is_wait_def)
qed

end
