(* ===== verification/ExecFaults.thy ===== *)
theory ExecFaults
  imports ExecRun ExecLists
begin

text \<open>
  Inputs on which the code of \<open>execution.cc\<close> ends the process or stops short of what its comments
  say: release-sequence fixups, \<open>notify_one\<close> without a waiter, and the elimination of a blocked
  thread from several promises.
\<close>

section \<open>Steps that leave the actions alone\<close>

lemma ex_acts_frames [simp]:
  "ex_acts (put_node ex n node) = ex_acts ex"
  "ex_acts (set_failed_promise ex) = ex_acts ex"
  "ex_acts (check_promises_thread_disabled ex) = ex_acts ex"
  "ex_acts (with_scheduler ex r) = ex_acts ex"
  by (simp_all add: put_node_def set_failed_promise_def check_promises_thread_disabled_def with_scheduler_def Let_def)

lemma update_node_acts: "update_node ex act f = Some ex' \<Longrightarrow> ex_acts ex' = ex_acts ex"
  by (auto simp: update_node_def split: Option.bind_splits)

lemma wake_up_sleeping_actions_acts:
  assumes "wake_up_sleeping_actions ex cur = Some ex'"
  shows "ex_acts ex' = ex_acts ex"
  using assms unfolding wake_up_sleeping_actions_def
  by (rule foldM_invariant [where I = "\<lambda>e. ex_acts e = ex_acts ex"])
    (auto split: Option.bind_splits if_splits)

lemma exec_update_yield_acts: "exec_update_yield ex cur = Some ex' \<Longrightarrow> ex_acts ex' = ex_acts ex"
  by (auto simp: exec_update_yield_def split: Option.bind_splits)

lemma exec_create_cv_location:
  "exec_create_cv ex act = Some ex' \<Longrightarrow> ma_location (ex_acts ex' a) = ma_location (ex_acts ex a) \<and> ma_type (ex_acts ex' a) = ma_type (ex_acts ex a)"
  by (auto simp: exec_create_cv_def put_act_def create_cv_def split: Option.bind_splits option.splits)

section \<open>Fixups of release sequences\<close>

lemma add_action_null: "ma_location (ex_acts ex act) = 0 \<Longrightarrow> add_action_to_lists ex act = None"
  by (simp add: add_action_to_lists_def get_safe_ptr_action_def hash_get_def)

lemma reuse_action_location:
  "reuse_action ex cur newcurr = Some ex' \<Longrightarrow> ma_location (ex_acts ex' newcurr) = ma_location (ex_acts ex cur)"
  by (auto simp: reuse_action_def Let_def put_act_def copy_from_new_def dest!: exec_create_cv_location [of _ newcurr _ newcurr]
      split: if_splits)

lemma new_action_location:
  assumes "new_action ex cur = Some ex'" and "ma_type (ex_acts ex cur) = MODEL_FIXUP_RELSEQ"
  shows "ma_location (ex_acts ex' cur) = ma_location (ex_acts ex cur)"
proof -
  obtain ex1 where ex1: "exec_create_cv ex cur = Some ex1" using assms(1) by (auto simp: new_action_def split: Option.bind_splits)
  note loc = exec_create_cv_location [OF ex1, of cur]
  let ?ex2 = "put_act ex1 cur ((ex_acts ex1 cur)\<lparr>ma_last_fence_release := get_last_fence_release ex1 (ma_tid (ex_acts ex1 cur))\<rparr>)"
  have "compute_relseq_breakwrites ?ex2 cur = Some ex'"
    using assms ex1 loc by (simp add: new_action_def Let_def put_act_def is_write_def is_relseq_fixup_def)
  then have "ex_acts ex' = ex_acts ?ex2"
    by (auto simp: compute_relseq_breakwrites_def Let_def split: if_splits dest: update_node_acts)
  then show ?thesis using loc by (simp add: put_act_def)
qed

lemma explore_action_acts:
  assumes "explore_action params num acts ns act en = Some (found, ns', acts')"
  shows "ma_location (acts' a) = ma_location (acts a)" and "ma_type (acts' a) = ma_type (acts a)"
proof -
  have "acts' = acts \<or> (\<exists>n. acts' = acts(act := (acts act)\<lparr>ma_node := n\<rparr>))"
    using assms
    by (auto simp: explore_action_def record_action_def new_Node_def Let_def split: if_splits Option.bind_splits)
  then show "ma_location (acts' a) = ma_location (acts a)" "ma_type (acts' a) = ma_type (acts a)" by auto
qed

lemma initialize_fixup_location:
  assumes "initialize_curr_action ex cur = Some (new, cur', ex')" and "ma_type (ex_acts ex cur) = MODEL_FIXUP_RELSEQ"
    and "ma_location (ex_acts ex cur) = 0"
  shows "ma_location (ex_acts ex' cur') = 0"
proof -
  have "\<not> (is_rmwc (ex_acts ex cur) \<or> is_rmw (ex_acts ex cur))" using assms(2) by (simp add: is_rmwc_def is_rmw_def)
  with assms(1) obtain num ex1 a found ns acts where
    ex1: "get_next_seq_num ex = (num, ex1)" and a: "set_seq_number (ex_acts ex1 cur) num = Some a"
    and run: "explore_action (ex_params (put_act ex1 cur a)) (get_num_threads (put_act ex1 cur a)) (ex_acts (put_act ex1 cur a))
      (ex_node_stack (put_act ex1 cur a)) cur (get_enabled_array (ex_scheduler (put_act ex1 cur a))) = Some (found, ns, acts)"
    and rest: "(case found of
           Some newcurr \<Rightarrow> do { ex4 \<leftarrow> reuse_action ((put_act ex1 cur a)\<lparr>ex_node_stack := ns, ex_acts := acts\<rparr>) cur newcurr; Some (False, newcurr, ex4) }
         | None \<Rightarrow> do { ex4 \<leftarrow> new_action ((put_act ex1 cur a)\<lparr>ex_node_stack := ns, ex_acts := acts\<rparr>) cur; Some (True, cur, ex4) })
      = Some (new, cur', ex')"
    unfolding initialize_curr_action_def by (auto simp: Let_def split: Option.bind_splits prod.splits)
  have "ex_acts ex1 = ex_acts ex" using ex1 by (auto simp: get_next_seq_num_def Let_def)
  then have "ma_location (acts cur) = 0" "ma_type (acts cur) = MODEL_FIXUP_RELSEQ"
    using explore_action_acts [OF run, of cur] a assms(2,3)
    by (auto simp: put_act_def set_seq_number_def split: Option.bind_splits if_splits)
  then show ?thesis using rest
    by (cases found) (auto split: Option.bind_splits dest!: new_action_location reuse_action_location)
qed

lemma check_current_action_fixup:
  assumes "ma_type (ex_acts ex cur) = MODEL_FIXUP_RELSEQ" and "ma_location (ex_acts ex cur) = 0"
  shows "check_current_action ex cur = None"
proof (rule ccontr)
  assume "check_current_action ex cur \<noteq> None"
  moreover have "\<not> (is_rmwc (ex_acts ex cur) \<or> is_rmw (ex_acts ex cur))" using assms(1) by (simp add: is_rmwc_def is_rmw_def)
  ultimately obtain new cur' ex1 ex2 ex3 ex4 where
    s: "initialize_curr_action ex cur = Some (new, cur', ex1)" "wake_up_sleeping_actions ex1 cur' = Some ex2"
      "(if mp_yieldon (ex_params ex2) then exec_update_yield ex2 cur' else Some ex2) = Some ex3"
      "add_action_to_lists ex3 cur' = Some ex4"
    unfolding check_current_action_def by (auto simp: Let_def split: Option.bind_splits)
  have "ex_acts ex3 = ex_acts ex1"
    using wake_up_sleeping_actions_acts [OF s(2)] s(3) by (auto split: if_splits dest: exec_update_yield_acts)
  then have "ma_location (ex_acts ex3 cur') = 0" using initialize_fixup_location [OF s(1) assms] by simp
  with s(4) show False by (simp add: add_action_null)
qed

lemma take_step_fixup:
  assumes "ma_type (ex_acts ex cur) = MODEL_FIXUP_RELSEQ" and "ma_location (ex_acts ex cur) = 0"
  shows "take_step ex cur = None"
proof -
  have "check_action_enabled ex cur = Some (True, ex)"
    using assms(1) by (simp add: check_action_enabled_def is_lock_def is_thread_join_def is_yield_def)
  then show ?thesis using check_current_action_fixup [OF assms] by (simp add: take_step_def)
qed

text \<open>
  (C23) A release-sequence fixup ends the process. The fixup action has a null location, and the
  first thing done with it is to look its location up in the hash table of the objects, whose
  \<open>ASSERT\<close> refuses a null key. So whenever a fixup is due, with pending release sequences and
  unrealized races on an otherwise feasible execution, \<open>fixup_release_sequences\<close> does not return;
  otherwise it does nothing.
\<close>

theorem relseq_fixup_aborts:
  "fixup_release_sequences ex =
     (if ex_pending_rel_seqs ex \<noteq> [] \<and> is_feasible_prefix_ignore_relseq ex \<and> haveUnrealizedRaces (ex_races ex)
      then None else Some ex)"
proof -
  have "Option.bind (fixup_action ex) (\<lambda>r. Option.bind (take_step (snd r) (fst r)) (\<lambda>s. fixup_release_sequences (snd s))) = None"
    by (simp add: fixup_action_def new_ModelAction_def alloc_act_def take_step_fixup)
  then show ?thesis by (subst fixup_release_sequences.simps) simp
qed

section \<open>Notifying without a waiter\<close>

text \<open>
  (C24) \<open>notify_one\<close> on a condition variable without waiters ends the process: the iterator is
  dereferenced at the end of the empty list, so the work on such an action never completes.
\<close>

theorem notify_one_without_waiter:
  assumes "ma_type (ex_acts ex cur) = ATOMIC_NOTIFY_ONE"
    and "ex_condvar_waiters_map ex (ma_location (ex_acts ex cur)) \<in> {None, Some []}" and "\<not> has_asserted ex"
  shows "work_loop cur second (CheckCurrWorkEntry cur # queue) ex = None"
proof -
  have "notify_one ex cur = None"
    using assms(2) by (auto simp: notify_one_def get_safe_ptr_action_def hash_get_def Let_def vec_at_def
        split: Option.bind_splits option.splits)
  then have "work_curr_action cur second cur (queue, ex) = None"
    using assms(1)
    by (simp add: work_curr_action_def process_thread_action_def apply_if_def is_read_def is_write_def is_fence_def
        is_mutex_op_def process_mutex_def)
  then show ?thesis
    using assms(3) by (subst work_loop.simps) (simp add: CheckCurrWorkEntry_def work_step_def)
qed

theorem notify_one_without_waiter_witness:
  "work_loop 0 False [CheckCurrWorkEntry 0] (example_exec (\<lambda>_. example_action ATOMIC_NOTIFY_ONE memory_order_seq_cst)
     [] Map.empty Map.empty [None]) = None"
  by (rule notify_one_without_waiter)
    (simp_all add: example_exec_def example_action_def has_asserted_def new_model_snapshot_members_def)

section \<open>Blocked threads and several promises\<close>

text \<open>
  A promise is concerned when the waiting thread may resolve it and one of its readers is in the
  blocking thread. The function returns at a concerned promise if the elimination leaves another
  thread, or if a second reader in the blocking thread finds the waiting thread eliminated already.
\<close>

definition blocker_readers :: "ModelExecution \<Rightarrow> thread_id_t \<Rightarrow> promise_ref \<Rightarrow> act_ref list" where
  "blocker_readers ex blocker p = filter (\<lambda>r. ma_tid (ex_acts ex r) = blocker) (pr_readers (ex_proms ex p))"

definition concerned :: "ModelExecution \<Rightarrow> thread_id_t \<Rightarrow> thread_id_t \<Rightarrow> promise_ref \<Rightarrow> bool" where
  "concerned ex blocker waiting p \<longleftrightarrow>
     thread_is_available (ex_proms ex p) waiting \<and> blocker_readers ex blocker p \<noteq> []"

definition returns_at :: "ModelExecution \<Rightarrow> thread_id_t \<Rightarrow> thread_id_t \<Rightarrow> promise_ref \<Rightarrow> bool" where
  "returns_at ex blocker waiting p \<longleftrightarrow> concerned ex blocker waiting p \<and>
     (pr_num_available_threads (ex_proms ex p) \<noteq> 1 \<or> 2 \<le> length (blocker_readers ex blocker p))"

text \<open>The promises the waiting thread is eliminated from: the concerned ones up to the first return.\<close>

primrec eliminated_from :: "ModelExecution \<Rightarrow> thread_id_t \<Rightarrow> thread_id_t \<Rightarrow> promise_ref list \<Rightarrow> promise_ref list" where
  "eliminated_from ex blocker waiting [] = []"
| "eliminated_from ex blocker waiting (p # ps) =
     (if \<not> concerned ex blocker waiting p then eliminated_from ex blocker waiting ps
      else p # (if returns_at ex blocker waiting p then [] else eliminated_from ex blocker waiting ps))"

definition eliminate_all :: "ModelExecution \<Rightarrow> thread_id_t \<Rightarrow> promise_ref list \<Rightarrow> ModelExecution" where
  "eliminate_all ex waiting ps =
     (let ex1 = ex\<lparr>ex_proms := \<lambda>p. if p \<in> set ps then snd (eliminate_thread (ex_proms ex p) waiting) else ex_proms ex p\<rparr>
      in if \<exists>p \<in> set ps. pr_num_available_threads (ex_proms ex p) = 1 then set_failed_promise ex1 else ex1)"

lemma blocking_readers_unavailable:
  "\<not> thread_is_available pr waiting \<Longrightarrow>
     blocking_readers acts blocker waiting readers pr failed = (filter (\<lambda>r. ma_tid (acts r) = blocker) readers \<noteq> [], failed, pr)"
  by (induction readers) (auto simp: eliminate_thread_def)

lemma blocking_readers_available:
  assumes "thread_is_available pr waiting"
  shows "blocking_readers acts blocker waiting readers pr failed =
    (let n = length (filter (\<lambda>r. ma_tid (acts r) = blocker) readers); pr' = snd (eliminate_thread pr waiting)
     in if n = 0 then (False, failed, pr)
        else if pr_num_available_threads pr \<noteq> 1 then (True, failed, pr') else (2 \<le> n, True, pr'))"
proof -
  obtain pr' where el: "eliminate_thread pr waiting = (pr_num_available_threads pr = 1, pr')"
    using assms by (simp add: eliminate_thread_def has_failed_def Let_def)
  have "\<not> thread_is_available pr' waiting" using eliminate_thread_available [of pr waiting waiting] el by simp
  note un = blocking_readers_unavailable [OF this]
  show ?thesis
  proof (induction readers)
    case (Cons r readers)
    then show ?case by (cases "ma_tid (acts r) = blocker") (simp_all add: el un Let_def Suc_le_eq)
  qed simp
qed

lemma set_failed_promise_simps [simp]:
  "ex_proms (set_failed_promise ex) = ex_proms ex"
  "(set_failed_promise ex)\<lparr>ex_proms := f\<rparr> = set_failed_promise (ex\<lparr>ex_proms := f\<rparr>)"
  "set_failed_promise (set_failed_promise ex) = set_failed_promise ex"
  "concerned (set_failed_promise ex) blocker waiting q = concerned ex blocker waiting q"
  "returns_at (set_failed_promise ex) blocker waiting q = returns_at ex blocker waiting q"
  by (simp_all add: concerned_def returns_at_def blocker_readers_def set_failed_promise_def)

lemma put_prom_queries:
  assumes "q \<noteq> p"
  shows "concerned (put_prom ex p pr) blocker waiting q = concerned ex blocker waiting q"
    and "returns_at (put_prom ex p pr) blocker waiting q = returns_at ex blocker waiting q"
  using assms by (simp_all add: concerned_def returns_at_def blocker_readers_def put_prom_def)

lemma eliminated_from_cong:
  assumes "\<And>q. q \<in> set ps \<Longrightarrow> concerned ex' blocker waiting q = concerned ex blocker waiting q \<and>
      returns_at ex' blocker waiting q = returns_at ex blocker waiting q"
  shows "eliminated_from ex' blocker waiting ps = eliminated_from ex blocker waiting ps"
  using assms by (induction ps) auto

lemma eliminated_from_subset: "set (eliminated_from ex blocker waiting ps) \<subseteq> set ps"
  by (induction ps) auto

lemma eliminated_from_return:
  assumes "returns_at ex blocker waiting p"
  shows "set (eliminated_from ex blocker waiting (qs @ p # rs)) \<subseteq> set (qs @ [p])"
proof (induction qs)
  case Nil
  have "concerned ex blocker waiting p" using assms by (simp add: returns_at_def)
  then show ?case using assms by simp
qed auto

text \<open>Eliminating from one more promise first.\<close>

lemma eliminate_all_Cons:
  assumes "p \<notin> set ps"
  shows "eliminate_all (let ex1 = put_prom ex p (snd (eliminate_thread (ex_proms ex p) waiting))
           in if pr_num_available_threads (ex_proms ex p) = 1 then set_failed_promise ex1 else ex1) waiting ps =
         eliminate_all ex waiting (p # ps)"
proof -
  let ?pr = "snd (eliminate_thread (ex_proms ex p) waiting)"
  have proms: "(\<lambda>q. if q \<in> set ps then snd (eliminate_thread (((ex_proms ex)(p := ?pr)) q) waiting)
                    else ((ex_proms ex)(p := ?pr)) q) =
      (\<lambda>q. if q \<in> set (p # ps) then snd (eliminate_thread (ex_proms ex q) waiting) else ex_proms ex q)"
    using assms by (auto simp: fun_eq_iff)
  have num: "(\<exists>q \<in> set ps. pr_num_available_threads (((ex_proms ex)(p := ?pr)) q) = 1) \<longleftrightarrow>
      (\<exists>q \<in> set ps. pr_num_available_threads (ex_proms ex q) = 1)"
    using assms by (intro bex_cong) auto
  have sel: "ex_proms (put_prom ex p ?pr) = (ex_proms ex)(p := ?pr)"
    and upd: "(put_prom ex p ?pr)\<lparr>ex_proms := f\<rparr> = ex\<lparr>ex_proms := f\<rparr>" for f by (simp_all add: put_prom_def)
  have all: "eliminate_all (put_prom ex p ?pr) waiting ps =
      (let ex1 = ex\<lparr>ex_proms := \<lambda>q. if q \<in> set (p # ps) then snd (eliminate_thread (ex_proms ex q) waiting) else ex_proms ex q\<rparr>
       in if \<exists>q \<in> set ps. pr_num_available_threads (ex_proms ex q) = 1 then set_failed_promise ex1 else ex1)"
    unfolding eliminate_all_def sel upd proms num by (rule refl)
  have failed: "eliminate_all (set_failed_promise e) waiting ps = set_failed_promise (eliminate_all e waiting ps)" for e
    unfolding eliminate_all_def set_failed_promise_simps(1,2) Let_def by simp
  show ?thesis by (simp add: failed all Let_def) (simp add: eliminate_all_def Let_def)
qed

definition eliminate_one :: "ModelExecution \<Rightarrow> thread_id_t \<Rightarrow> promise_ref \<Rightarrow> ModelExecution" where
  "eliminate_one ex waiting p =
     (let ex1 = put_prom ex p (snd (eliminate_thread (ex_proms ex p) waiting))
      in if pr_num_available_threads (ex_proms ex p) = 1 then set_failed_promise ex1 else ex1)"

lemma blocking_loop_step:
  "blocking_loop blocker waiting (p # ps) ex =
     (if \<not> concerned ex blocker waiting p then blocking_loop blocker waiting ps ex
      else if returns_at ex blocker waiting p then eliminate_one ex waiting p
      else blocking_loop blocker waiting ps (eliminate_one ex waiting p))"
proof (cases "thread_is_available (ex_proms ex p) waiting")
  case False
  then show ?thesis by (simp add: concerned_def)
next
  case True
  have same: "put_prom ex p (ex_proms ex p) = ex" by (simp add: put_prom_def)
  note readers = blocking_readers_available [OF True, of "ex_acts ex" blocker "pr_readers (ex_proms ex p)" False,
      folded blocker_readers_def]
  have loop: "blocking_loop blocker waiting (p # ps) ex =
      (let (returned, failed, pr) = blocking_readers (ex_acts ex) blocker waiting (pr_readers (ex_proms ex p)) (ex_proms ex p) False;
           ex1 = put_prom ex p pr; ex2 = (if failed then set_failed_promise ex1 else ex1)
       in if returned then ex2 else blocking_loop blocker waiting ps ex2)"
    by (subst blocking_loop.simps(2)) (simp only: True not_True_eq_False if_False)
  show ?thesis
  proof (cases "blocker_readers ex blocker p = []")
    case True
    then show ?thesis unfolding loop readers by (simp add: same concerned_def)
  next
    case False
    then have c: "concerned ex blocker waiting p" and n: "length (blocker_readers ex blocker p) \<noteq> 0"
      using True by (simp_all add: concerned_def)
    show ?thesis
      unfolding loop readers Let_def using c n
      by (cases "pr_num_available_threads (ex_proms ex p) = 1")
        (simp_all add: returns_at_def eliminate_one_def)
  qed
qed

lemma blocking_loop_exact:
  "distinct ps \<Longrightarrow> blocking_loop blocker waiting ps ex = eliminate_all ex waiting (eliminated_from ex blocker waiting ps)"
proof (induction ps arbitrary: ex)
  case Nil
  then show ?case by (simp add: eliminate_all_def)
next
  case (Cons p ps)
  have p: "p \<notin> set ps" and IH: "\<And>ex. blocking_loop blocker waiting ps ex = eliminate_all ex waiting (eliminated_from ex blocker waiting ps)"
    using Cons by auto
  have "concerned (eliminate_one ex waiting p) blocker waiting q = concerned ex blocker waiting q \<and>
      returns_at (eliminate_one ex waiting p) blocker waiting q = returns_at ex blocker waiting q" if "q \<in> set ps" for q
  proof -
    have "q \<noteq> p" using that p by auto
    from put_prom_queries [OF this] show ?thesis by (simp add: eliminate_one_def Let_def)
  qed
  then have from1: "eliminated_from (eliminate_one ex waiting p) blocker waiting ps = eliminated_from ex blocker waiting ps"
    by (rule eliminated_from_cong)
  have one: "eliminate_all (eliminate_one ex waiting p) waiting qs = eliminate_all ex waiting (p # qs)" if "p \<notin> set qs" for qs
    unfolding eliminate_one_def by (rule eliminate_all_Cons [OF that])
  have "p \<notin> set (eliminated_from ex blocker waiting ps)" using p eliminated_from_subset by blast
  note rest = one [OF this]
  have stop: "eliminate_one ex waiting p = eliminate_all ex waiting [p]"
    using one [of "[]"] by (simp add: eliminate_all_def [of _ _ "[]"])
  show ?case unfolding blocking_loop_step IH from1 rest using stop by (simp add: returns_at_def)
qed

text \<open>
  (C25) What \<open>thread_blocking_check_promises\<close> does when a thread blocks on another. It goes through
  the pending promises in order and eliminates the waiting thread from those that it may resolve and
  that have a reader in the blocking thread, marking the execution when a promise has no thread left.
  It returns at the first such promise that keeps another thread or has a second reader in the
  blocking thread: the promises behind that one stay as they are, also those with a reader in the
  blocking thread.
\<close>

theorem blocking_eliminates_until_return:
  assumes "distinct (ex_promises ex)"
  shows "thread_blocking_check_promises ex blocker waiting =
      eliminate_all ex waiting (eliminated_from ex blocker waiting (ex_promises ex)) \<and>
    (\<forall>qs p rs. ex_promises ex = qs @ p # rs \<and> returns_at ex blocker waiting p \<longrightarrow>
       (\<forall>q \<in> set rs. ex_proms (thread_blocking_check_promises ex blocker waiting) q = ex_proms ex q))"
proof (intro conjI allI impI ballI)
  show run: "thread_blocking_check_promises ex blocker waiting =
      eliminate_all ex waiting (eliminated_from ex blocker waiting (ex_promises ex))"
    unfolding thread_blocking_check_promises_def by (rule blocking_loop_exact [OF assms])
  fix qs p rs q
  assume split: "ex_promises ex = qs @ p # rs \<and> returns_at ex blocker waiting p" and q: "q \<in> set rs"
  then have "q \<notin> set (eliminated_from ex blocker waiting (ex_promises ex))"
    using eliminated_from_return [of ex blocker waiting p qs rs] assms by auto
  then show "ex_proms (thread_blocking_check_promises ex blocker waiting) q = ex_proms ex q"
    unfolding run by (simp add: eliminate_all_def Let_def)
qed

text \<open>Two promises that threads 1 and 2 may resolve, both read by thread 3; thread 1 blocks on thread 3.\<close>

definition example_promise :: Promise where
  "example_promise =
     \<lparr>pr_available_thread = [False, True, True], pr_was_available_thread = [False, True, True],
      pr_num_available_threads = 2, pr_num_was_available_threads = 2,
      pr_fv = \<lparr>fv_value = 0, fv_expiration = 9, fv_tid = 1\<rparr>, pr_readers = [0], pr_write = None\<rparr>"

theorem blocking_eliminates_until_return_witness:
  "thread_is_available (ex_proms (thread_blocking_check_promises
     ((example_exec (\<lambda>_. (example_action ATOMIC_READ memory_order_relaxed)\<lparr>ma_tid := 3\<rparr>) [] Map.empty Map.empty [None])
        \<lparr>ex_promises := [4, 5], ex_proms := \<lambda>_. example_promise\<rparr>) 3 1) 5) 1"
proof -
  let ?ex = "(example_exec (\<lambda>_. (example_action ATOMIC_READ memory_order_relaxed)\<lparr>ma_tid := 3\<rparr>) [] Map.empty Map.empty [None])
        \<lparr>ex_promises := [4, 5], ex_proms := \<lambda>_. example_promise\<rparr>"
  have d: "distinct (ex_promises ?ex)" by simp
  have "ex_promises ?ex = [] @ 4 # [5] \<and> returns_at ?ex 3 1 4"
    by (simp add: returns_at_def concerned_def blocker_readers_def example_exec_def example_promise_def
        thread_is_available_def id_to_int_def)
  with conjunct2 [OF blocking_eliminates_until_return [OF d, of 3 1]]
  have "\<forall>q \<in> set [5]. ex_proms (thread_blocking_check_promises ?ex 3 1) q = ex_proms ?ex q" by blast
  then have "ex_proms (thread_blocking_check_promises ?ex 3 1) 5 = ex_proms ?ex 5" by (rule bspec) simp
  moreover have "thread_is_available (ex_proms ?ex 5) 1"
    by (simp add: example_promise_def thread_is_available_def id_to_int_def)
  ultimately show ?thesis by (simp only:)
qed

end
