(* ===== verification/UserApi.thy ===== *)
theory UserApi
  imports Action
begin

text \<open>
  The interface of the checked program: \<open>cmodelint.cc\<close>, \<open>impatomic.h\<close>, \<open>impatomic.cc\<close>,
  \<open>mutex.cc\<close>, \<open>conditionvariable.cc\<close>, \<open>libthreads.cc\<close>, \<open>librace.cc\<close> and
  \<open>thread_startup\<close> of \<open>threads.cc\<close>. The code of a thread is a possibly infinite tree: it asks
  for an operation and goes on with the result. A function of the interface takes what follows its
  call as its last argument. The checked program itself is a tree built from these functions.
\<close>

unbundle bit_operations_syntax

section \<open>Programs\<close>

text \<open>
  The operations by which the code of a thread touches the checker or the shared memory: entering the
  checker with a new action, reporting a bug, the race checks, the bytes of memory, the state of a
  new mutex, the thread a \<open>thrd_t\<close> stands for, and the current thread.
\<close>

datatype user_op =
    OpAction action_type memory_order addr uint64
  | OpBug string
  | OpRaceRead addr
  | OpRaceWrite addr
  | OpLoad addr
  | OpStore addr "8 word"
  | OpMutex addr
  | OpThrdId addr
  | OpCurrentId

codatatype user = Finished | Op user_op "uint64 \<Rightarrow> user"

section \<open>Atomic actions\<close>

definition model_read_action :: "addr \<Rightarrow> memory_order \<Rightarrow> (uint64 \<Rightarrow> user) \<Rightarrow> user" where
  "model_read_action obj ord k = Op (OpAction ATOMIC_READ ord obj VALUE_NONE) k"

definition model_write_action :: "addr \<Rightarrow> memory_order \<Rightarrow> uint64 \<Rightarrow> user \<Rightarrow> user" where
  "model_write_action obj ord val k = Op (OpAction ATOMIC_WRITE ord obj val) (\<lambda>_. k)"

definition model_init_action :: "addr \<Rightarrow> uint64 \<Rightarrow> user \<Rightarrow> user" where
  "model_init_action obj val k = Op (OpAction ATOMIC_INIT memory_order_relaxed obj val) (\<lambda>_. k)"

definition model_rmwr_action :: "addr \<Rightarrow> memory_order \<Rightarrow> (uint64 \<Rightarrow> user) \<Rightarrow> user" where
  "model_rmwr_action obj ord k = Op (OpAction ATOMIC_RMWR ord obj VALUE_NONE) k"

definition model_rmw_action :: "addr \<Rightarrow> memory_order \<Rightarrow> uint64 \<Rightarrow> user \<Rightarrow> user" where
  "model_rmw_action obj ord val k = Op (OpAction ATOMIC_RMW ord obj val) (\<lambda>_. k)"

definition model_rmwc_action :: "addr \<Rightarrow> memory_order \<Rightarrow> user \<Rightarrow> user" where
  "model_rmwc_action obj ord k = Op (OpAction ATOMIC_RMWC ord obj VALUE_NONE) (\<lambda>_. k)"

definition model_fence_action :: "memory_order \<Rightarrow> user \<Rightarrow> user" where
  "model_fence_action ord k = Op (OpAction ATOMIC_FENCE ord FENCE_LOCATION VALUE_NONE) (\<lambda>_. k)"

section \<open>Atomic types\<close>

text \<open>
  The macros of \<open>impatomic.h\<close> for a field of any integer width; \<open>sg\<close> says whether the type is
  signed. A value is converted to 64 bits for the checker and truncated on its way back.
\<close>

definition to_uint64 :: "bool \<Rightarrow> 'a::len word \<Rightarrow> uint64" where
  "to_uint64 sg v = (if sg then scast v else ucast v)"

definition ATOMIC_LOAD :: "addr \<Rightarrow> memory_order \<Rightarrow> ('a::len word \<Rightarrow> user) \<Rightarrow> user" where
  "ATOMIC_LOAD a x k = model_read_action a x (\<lambda>r. k (ucast r))"

definition ATOMIC_STORE :: "bool \<Rightarrow> addr \<Rightarrow> 'a::len word \<Rightarrow> memory_order \<Rightarrow> user \<Rightarrow> user" where
  "ATOMIC_STORE sg a m x k = model_write_action a x (to_uint64 sg m) k"

definition ATOMIC_INITIALIZE :: "bool \<Rightarrow> addr \<Rightarrow> 'a::len word \<Rightarrow> user \<Rightarrow> user" where
  "ATOMIC_INITIALIZE sg a m k = model_init_action a (to_uint64 sg m) k"

definition ATOMIC_MODIFY ::
    "bool \<Rightarrow> addr \<Rightarrow> ('a::len word \<Rightarrow> 'a word \<Rightarrow> 'a word) \<Rightarrow> 'a word \<Rightarrow> memory_order \<Rightarrow> ('a word \<Rightarrow> user) \<Rightarrow> user" where
  "ATOMIC_MODIFY sg a f m x k =
     model_rmwr_action a x (\<lambda>r.
       let old = ucast r;
           copy = f old m
       in model_rmw_action a x (to_uint64 sg copy) (k old))"

text \<open>The variable with the expected value is read before and may be written after the exchange.\<close>

definition ATOMIC_CMPSWP ::
    "bool \<Rightarrow> addr \<Rightarrow> 'a::len word \<Rightarrow> 'a word \<Rightarrow> memory_order \<Rightarrow> (bool \<times> 'a word \<Rightarrow> user) \<Rightarrow> user" where
  "ATOMIC_CMPSWP sg a e m x k =
     model_rmwr_action a x (\<lambda>r.
       let t = ucast r
       in if t = e then model_rmw_action a x (to_uint64 sg m) (k (True, e))
          else model_rmwc_action a x (k (False, t)))"

definition atomic_exchange_explicit ::
    "bool \<Rightarrow> addr \<Rightarrow> 'a::len word \<Rightarrow> memory_order \<Rightarrow> ('a word \<Rightarrow> user) \<Rightarrow> user" where
  "atomic_exchange_explicit sg a m x k = ATOMIC_MODIFY sg a (\<lambda>_ v. v) m x k"

definition atomic_fetch_add_explicit ::
    "bool \<Rightarrow> addr \<Rightarrow> 'a::len word \<Rightarrow> memory_order \<Rightarrow> ('a word \<Rightarrow> user) \<Rightarrow> user" where
  "atomic_fetch_add_explicit sg a m x k = ATOMIC_MODIFY sg a (+) m x k"

definition atomic_fetch_sub_explicit ::
    "bool \<Rightarrow> addr \<Rightarrow> 'a::len word \<Rightarrow> memory_order \<Rightarrow> ('a word \<Rightarrow> user) \<Rightarrow> user" where
  "atomic_fetch_sub_explicit sg a m x k = ATOMIC_MODIFY sg a (-) m x k"

definition atomic_fetch_and_explicit ::
    "bool \<Rightarrow> addr \<Rightarrow> 'a::len word \<Rightarrow> memory_order \<Rightarrow> ('a word \<Rightarrow> user) \<Rightarrow> user" where
  "atomic_fetch_and_explicit sg a m x k = ATOMIC_MODIFY sg a (AND) m x k"

definition atomic_fetch_or_explicit ::
    "bool \<Rightarrow> addr \<Rightarrow> 'a::len word \<Rightarrow> memory_order \<Rightarrow> ('a word \<Rightarrow> user) \<Rightarrow> user" where
  "atomic_fetch_or_explicit sg a m x k = ATOMIC_MODIFY sg a (OR) m x k"

definition atomic_fetch_xor_explicit ::
    "bool \<Rightarrow> addr \<Rightarrow> 'a::len word \<Rightarrow> memory_order \<Rightarrow> ('a word \<Rightarrow> user) \<Rightarrow> user" where
  "atomic_fetch_xor_explicit sg a m x k = ATOMIC_MODIFY sg a (XOR) m x k"

definition atomic_compare_exchange_strong_explicit ::
    "bool \<Rightarrow> addr \<Rightarrow> 'a::len word \<Rightarrow> 'a word \<Rightarrow> memory_order \<Rightarrow> memory_order \<Rightarrow> (bool \<times> 'a word \<Rightarrow> user) \<Rightarrow> user" where
  "atomic_compare_exchange_strong_explicit sg a e m x y k = ATOMIC_CMPSWP sg a e m x k"

text \<open>The weak exchange does not fail spuriously.\<close>

definition atomic_compare_exchange_weak_explicit ::
    "bool \<Rightarrow> addr \<Rightarrow> 'a::len word \<Rightarrow> 'a word \<Rightarrow> memory_order \<Rightarrow> memory_order \<Rightarrow> (bool \<times> 'a word \<Rightarrow> user) \<Rightarrow> user" where
  "atomic_compare_exchange_weak_explicit sg a e m x y k = ATOMIC_CMPSWP sg a e m x k"

definition atomic_thread_fence :: "memory_order \<Rightarrow> user \<Rightarrow> user" where
  "atomic_thread_fence order k = model_fence_action order k"

section \<open>Flags\<close>

definition atomic_flag_test_and_set_explicit :: "addr \<Rightarrow> memory_order \<Rightarrow> (bool \<Rightarrow> user) \<Rightarrow> user" where
  "atomic_flag_test_and_set_explicit p x k =
     Op (OpAction ATOMIC_RMWR x p VALUE_NONE) (\<lambda>result.
     Op (OpAction ATOMIC_RMW x p 1) (\<lambda>_. k (result \<noteq> 0)))"

definition atomic_flag_clear_explicit :: "addr \<Rightarrow> memory_order \<Rightarrow> user \<Rightarrow> user" where
  "atomic_flag_clear_explicit p x k = Op (OpAction ATOMIC_WRITE x p 0) (\<lambda>_. k)"

text \<open>The spinning wait, an infinite tree; the second argument of the loop is the result of a read not yet written back.\<close>

primcorec flag_wait :: "addr \<Rightarrow> memory_order \<Rightarrow> uint64 option \<Rightarrow> user \<Rightarrow> user" where
  "flag_wait p x result k =
     (case result of
        None \<Rightarrow> Op (OpAction ATOMIC_RMWR x p VALUE_NONE) (\<lambda>r. flag_wait p x (Some r) k)
      | Some r \<Rightarrow> Op (OpAction ATOMIC_RMW x p 1) (\<lambda>_. if r \<noteq> 0 then flag_wait p x None k else k))"

section \<open>Mutexes and condition variables\<close>

definition mutex_mutex :: "addr \<Rightarrow> user \<Rightarrow> user" where
  "mutex_mutex this k = Op (OpMutex this) (\<lambda>_. k)"

definition mutex_lock :: "addr \<Rightarrow> user \<Rightarrow> user" where
  "mutex_lock this k = Op (OpAction ATOMIC_LOCK memory_order_seq_cst this VALUE_NONE) (\<lambda>_. k)"

definition mutex_try_lock :: "addr \<Rightarrow> (bool \<Rightarrow> user) \<Rightarrow> user" where
  "mutex_try_lock this k = Op (OpAction ATOMIC_TRYLOCK memory_order_seq_cst this VALUE_NONE) (\<lambda>r. k (r \<noteq> 0))"

definition mutex_unlock :: "addr \<Rightarrow> user \<Rightarrow> user" where
  "mutex_unlock this k = Op (OpAction ATOMIC_UNLOCK memory_order_seq_cst this VALUE_NONE) (\<lambda>_. k)"

definition condition_variable_notify_one :: "addr \<Rightarrow> user \<Rightarrow> user" where
  "condition_variable_notify_one this k = Op (OpAction ATOMIC_NOTIFY_ONE memory_order_seq_cst this VALUE_NONE) (\<lambda>_. k)"

definition condition_variable_notify_all :: "addr \<Rightarrow> user \<Rightarrow> user" where
  "condition_variable_notify_all this k = Op (OpAction ATOMIC_NOTIFY_ALL memory_order_seq_cst this VALUE_NONE) (\<lambda>_. k)"

definition condition_variable_wait :: "addr \<Rightarrow> addr \<Rightarrow> user \<Rightarrow> user" where
  "condition_variable_wait this lock k =
     Op (OpAction ATOMIC_WAIT memory_order_seq_cst this lock) (\<lambda>_. mutex_lock lock k)"

section \<open>Threads\<close>

text \<open>
  The address of the object of a thread is \<open>thread_addr\<close> of its id; the address of the parameters
  of a new thread stands for the function and argument in them.
\<close>

definition thrd_create :: "addr \<Rightarrow> uint64 \<Rightarrow> user \<Rightarrow> user" where
  "thrd_create t params k = Op (OpAction THREAD_CREATE memory_order_seq_cst t params) (\<lambda>_. k)"

definition thrd_join :: "(thread_id_t \<Rightarrow> addr) \<Rightarrow> addr \<Rightarrow> user \<Rightarrow> user" where
  "thrd_join thread_addr t k =
     Op (OpThrdId t) (\<lambda>id.
     Op (OpAction THREAD_JOIN memory_order_seq_cst (thread_addr (unat id)) id) (\<lambda>_. k))"

definition thrd_yield :: "(thread_id_t \<Rightarrow> addr) \<Rightarrow> user \<Rightarrow> user" where
  "thrd_yield thread_addr k =
     Op OpCurrentId (\<lambda>id.
     Op (OpAction THREAD_YIELD memory_order_seq_cst (thread_addr (unat id)) VALUE_NONE) (\<lambda>_. k))"

text \<open>The code of the thread is a function of what follows its return.\<close>

definition thread_startup :: "addr \<Rightarrow> (user \<Rightarrow> user) \<Rightarrow> user" where
  "thread_startup curr_thread start_routine =
     Op (OpAction THREAD_START memory_order_seq_cst curr_thread VALUE_NONE) (\<lambda>_.
     start_routine
       (Op (OpAction THREAD_FINISH memory_order_seq_cst curr_thread VALUE_NONE) (\<lambda>_. Finished)))"

definition cdsannotate :: "uint64 \<Rightarrow> addr \<Rightarrow> user \<Rightarrow> user" where
  "cdsannotate analysistype annotation k =
     Op (OpAction ATOMIC_ANNOTATION memory_order_seq_cst annotation analysistype) (\<lambda>_. k)"

fun digits :: "nat \<Rightarrow> string" where
  "digits n = (if n < 10 then [char_of (48 + n)] else digits (n div 10) @ [char_of (48 + n mod 10)])"

declare digits.simps [simp del]

text \<open>The message of a failed assertion; it has to fit into the buffer of 100 bytes it is printed to.\<close>

definition model_assert :: "bool \<Rightarrow> string \<Rightarrow> nat \<Rightarrow> user \<Rightarrow> user" where
  "model_assert expr file line k =
     (if \<not> expr
      then Op (OpBug (''Program has hit assertion in file '' @ file @ '' at line '' @ digits line @ [CHR 0x0A])) (\<lambda>_. k)
      else k)"

section \<open>Plain memory\<close>

text \<open>
  The instrumented accesses: a race check for each byte, then the access itself. Memory is
  little-endian.
\<close>

fun check_bytes :: "(addr \<Rightarrow> user_op) \<Rightarrow> addr list \<Rightarrow> user \<Rightarrow> user" where
  "check_bytes check [] k = k"
| "check_bytes check (a # as) k = Op (check a) (\<lambda>_. check_bytes check as k)"

fun write_bytes :: "addr \<Rightarrow> 'a::len word \<Rightarrow> nat list \<Rightarrow> user \<Rightarrow> user" where
  "write_bytes a v [] k = k"
| "write_bytes a v (i # is) k = Op (OpStore (a + of_nat i) (ucast (drop_bit (8 * i) v))) (\<lambda>_. write_bytes a v is k)"

fun read_bytes :: "addr \<Rightarrow> nat list \<Rightarrow> 'a::len word \<Rightarrow> ('a word \<Rightarrow> user) \<Rightarrow> user" where
  "read_bytes a [] v k = k v"
| "read_bytes a (i # is) v k = Op (OpLoad (a + of_nat i)) (\<lambda>b. read_bytes a is (v OR push_bit (8 * i) (ucast b)) k)"

definition store_8 :: "addr \<Rightarrow> 8 word \<Rightarrow> user \<Rightarrow> user" where
  "store_8 a v k = check_bytes OpRaceWrite [a] (write_bytes a v [0..<1] k)"

definition store_16 :: "addr \<Rightarrow> 16 word \<Rightarrow> user \<Rightarrow> user" where
  "store_16 a v k = check_bytes OpRaceWrite [a, a + 1] (write_bytes a v [0..<2] k)"

definition store_32 :: "addr \<Rightarrow> 32 word \<Rightarrow> user \<Rightarrow> user" where
  "store_32 a v k = check_bytes OpRaceWrite [a, a + 1, a + 2, a + 3] (write_bytes a v [0..<4] k)"

definition store_64 :: "addr \<Rightarrow> 64 word \<Rightarrow> user \<Rightarrow> user" where
  "store_64 a v k =
     check_bytes OpRaceWrite [a, a + 1, a + 2, a + 3, a + 4, a + 5, a + 6, a + 7] (write_bytes a v [0..<8] k)"

definition load_8 :: "addr \<Rightarrow> (8 word \<Rightarrow> user) \<Rightarrow> user" where
  "load_8 a k = check_bytes OpRaceRead [a] (read_bytes a [0..<1] 0 k)"

definition load_16 :: "addr \<Rightarrow> (16 word \<Rightarrow> user) \<Rightarrow> user" where
  "load_16 a k = check_bytes OpRaceRead [a, a + 1] (read_bytes a [0..<2] 0 k)"

definition load_32 :: "addr \<Rightarrow> (32 word \<Rightarrow> user) \<Rightarrow> user" where
  "load_32 a k = check_bytes OpRaceRead [a, a + 1, a + 2, a + 3] (read_bytes a [0..<4] 0 k)"

definition load_64 :: "addr \<Rightarrow> (64 word \<Rightarrow> user) \<Rightarrow> user" where
  "load_64 a k =
     check_bytes OpRaceRead [a, a + 1, a + 2, a + 3, a + 4, a + 5, a + 6, a + 7] (read_bytes a [0..<8] 0 k)"

section \<open>Plain memory\<close>

text \<open>
  What the operations on plain memory mean: bytes, and the race checks made so far. Operations that
  enter the checker have no meaning here.
\<close>

record seq_state =
  ss_byte :: "addr \<Rightarrow> 8 word"
  ss_reads :: "addr list"
  ss_writes :: "addr list"

fun seq_op :: "user_op \<Rightarrow> seq_state \<Rightarrow> (uint64 \<times> seq_state) option" where
  "seq_op (OpRaceRead a) s = Some (0, s\<lparr>ss_reads := ss_reads s @ [a]\<rparr>)"
| "seq_op (OpRaceWrite a) s = Some (0, s\<lparr>ss_writes := ss_writes s @ [a]\<rparr>)"
| "seq_op (OpLoad a) s = Some (ucast (ss_byte s a), s)"
| "seq_op (OpStore a b) s = Some (0, s\<lparr>ss_byte := (ss_byte s)(a := b)\<rparr>)"
| "seq_op _ s = None"

inductive seq_runs :: "user \<Rightarrow> seq_state \<Rightarrow> user \<Rightarrow> seq_state \<Rightarrow> bool" where
  here: "seq_runs u s u s"
| step: "seq_op op s = Some (r, s1) \<Longrightarrow> seq_runs (k r) s1 u' s' \<Longrightarrow> seq_runs (Op op k) s u' s'"

lemma seq_runs_eq: "u = u' \<Longrightarrow> s = s' \<Longrightarrow> seq_runs u s u' s'"
  by (auto intro: seq_runs.intros)

lemma seq_runs_trans: "seq_runs u s u' s' \<Longrightarrow> seq_runs u' s' u'' s'' \<Longrightarrow> seq_runs u s u'' s''"
  by (induction rule: seq_runs.induct) (auto intro: seq_runs.intros)

lemma check_bytes_runs:
  "seq_runs (check_bytes OpRaceRead as k) s k (s\<lparr>ss_reads := ss_reads s @ as\<rparr>)"
  "seq_runs (check_bytes OpRaceWrite as k) s k (s\<lparr>ss_writes := ss_writes s @ as\<rparr>)"
proof -
  show "seq_runs (check_bytes OpRaceRead as k) s k (s\<lparr>ss_reads := ss_reads s @ as\<rparr>)"
  proof (induction as arbitrary: s)
    case (Cons a as)
    show ?case using Cons [of "s\<lparr>ss_reads := ss_reads s @ [a]\<rparr>"] by (auto intro!: seq_runs.step)
  qed (auto intro: seq_runs_eq)
  show "seq_runs (check_bytes OpRaceWrite as k) s k (s\<lparr>ss_writes := ss_writes s @ as\<rparr>)"
  proof (induction as arbitrary: s)
    case (Cons a as)
    show ?case using Cons [of "s\<lparr>ss_writes := ss_writes s @ [a]\<rparr>"] by (auto intro!: seq_runs.step)
  qed (auto intro: seq_runs_eq)
qed

definition byte_of :: "'a::len word \<Rightarrow> nat \<Rightarrow> 8 word" where
  "byte_of v i = ucast (drop_bit (8 * i) v)"

fun put_bytes :: "addr \<Rightarrow> 'a::len word \<Rightarrow> nat list \<Rightarrow> (addr \<Rightarrow> 8 word) \<Rightarrow> addr \<Rightarrow> 8 word" where
  "put_bytes a v [] m = m"
| "put_bytes a v (i # is) m = put_bytes a v is (m(a + of_nat i := byte_of v i))"

fun get_bytes :: "addr \<Rightarrow> (addr \<Rightarrow> 8 word) \<Rightarrow> nat list \<Rightarrow> 'a::len word \<Rightarrow> 'a word" where
  "get_bytes a m [] v = v"
| "get_bytes a m (i # is) v = get_bytes a m is (v OR push_bit (8 * i) (ucast (m (a + of_nat i))))"

lemma write_bytes_runs: "seq_runs (write_bytes a v is k) s k (s\<lparr>ss_byte := put_bytes a v is (ss_byte s)\<rparr>)"
proof (induction "is" arbitrary: s)
  case (Cons i "is")
  show ?case
    using Cons [of "s\<lparr>ss_byte := (ss_byte s)(a + of_nat i := byte_of v i)\<rparr>"]
    by (auto intro!: seq_runs.step simp: byte_of_def fun_upd_def)
qed (auto intro: seq_runs_eq)

lemma read_bytes_runs: "seq_runs (read_bytes a is v k) s (k (get_bytes a (ss_byte s) is v)) s"
proof (induction "is" arbitrary: v)
  case (Cons i "is")
  have "ucast (ucast (ss_byte s (a + of_nat i)) :: uint64) = (ucast (ss_byte s (a + of_nat i)) :: 'a word)"
    by (rule bit_word_eqI) (auto simp: bit_simps dest: bit_imp_le_length)
  then show ?case using Cons [of "v OR push_bit (8 * i) (ucast (ss_byte s (a + of_nat i)))"]
    by (auto intro!: seq_runs.step)
qed (auto intro: seq_runs_eq)

lemma bit_get_bytes:
  fixes v :: "'a::len word"
  assumes "n < LENGTH('a)"
  shows "bit (get_bytes a m is v) n \<longleftrightarrow>
    bit v n \<or> (\<exists>i \<in> set is. 8 * i \<le> n \<and> bit (m (a + of_nat i)) (n - 8 * i))"
  using assms by (induction "is" arbitrary: v) (auto simp: bit_simps)

lemma put_bytes_at:
  assumes "i < 8" and "set is \<subseteq> {..<8}"
  shows "put_bytes a v is m (a + of_nat i) = (if i \<in> set is then byte_of v i else m (a + of_nat i))"
  using assms(2)
proof (induction "is" arbitrary: m)
  case (Cons j "is")
  have "(of_nat i :: addr) = of_nat j \<longleftrightarrow> i = j"
    using assms(1) Cons.prems by (auto simp: of_nat_inverse word_unat_eq_iff unat_of_nat)
  then show ?case using Cons by auto
qed simp

lemma put_bytes_other: "b \<notin> (\<lambda>i. a + of_nat i) ` set is \<Longrightarrow> put_bytes a v is m b = m b"
  by (induction "is" arbitrary: m) auto

lemma get_put_bytes:
  fixes v :: "'a::len word"
  assumes "LENGTH('a) = 8 * w" and "w \<le> 8"
  shows "get_bytes a (put_bytes a v [0..<w] m) [0..<w] 0 = v"
proof (rule bit_word_eqI)
  fix n assume n: "n < LENGTH('a)"
  have byte: "put_bytes a v [0..<w] m (a + of_nat i) = byte_of v i" if "i < w" for i
    using put_bytes_at [of i "[0..<w]" a v m] that assms(2) by (force simp: subset_iff)
  have each: "8 * i \<le> n \<and> bit (put_bytes a v [0..<w] m (a + of_nat i)) (n - 8 * i) \<longleftrightarrow>
      8 * i \<le> n \<and> n - 8 * i < 8 \<and> bit v n" if "i < w" for i
    unfolding byte [OF that] by (cases "8 * i \<le> n") (auto simp: byte_of_def bit_simps)
  have "bit (get_bytes a (put_bytes a v [0..<w] m) [0..<w] (0 :: 'a word)) n \<longleftrightarrow>
      (\<exists>i \<in> set [0..<w]. 8 * i \<le> n \<and> bit (put_bytes a v [0..<w] m (a + of_nat i)) (n - 8 * i))"
    using bit_get_bytes [OF n, of a "put_bytes a v [0..<w] m" "[0..<w]" 0] by (simp only: bit_0_eq bot_apply bot_bool_def simp_thms)
  also have "\<dots> \<longleftrightarrow> (\<exists>i \<in> set [0..<w]. 8 * i \<le> n \<and> n - 8 * i < 8 \<and> bit v n)"
    by (rule bex_cong [OF refl], rule each) simp
  also have "\<dots> \<longleftrightarrow> bit v n"
  proof
    assume "bit v n"
    moreover have "n div 8 \<in> set [0..<w]" "8 * (n div 8) \<le> n" "n - 8 * (n div 8) < 8" using n assms(1) by auto
    ultimately show "\<exists>i \<in> set [0..<w]. 8 * i \<le> n \<and> n - 8 * i < 8 \<and> bit v n" by (intro bexI [of _ "n div 8"]) simp_all
  qed (elim bexE conjE)
  finally show "bit (get_bytes a (put_bytes a v [0..<w] m) [0..<w] (0 :: 'a word)) n = bit v n" .
qed

lemma ucast_to_uint64:
  fixes v :: "'a::len word"
  assumes "LENGTH('a) \<le> 64"
  shows "ucast (to_uint64 sg v) = v"
  using assms by (auto intro!: bit_word_eqI simp: to_uint64_def bit_simps)

text \<open>The state after a store and a load of the \<open>w\<close> bytes at \<open>a\<close> that left memory as \<open>m\<close>.\<close>

definition accessed :: "addr \<Rightarrow> nat \<Rightarrow> (addr \<Rightarrow> 8 word) \<Rightarrow> seq_state \<Rightarrow> seq_state" where
  "accessed a w m s = s\<lparr>ss_writes := ss_writes s @ map (\<lambda>i. a + of_nat i) [0..<w], ss_byte := m,
                        ss_reads := ss_reads s @ map (\<lambda>i. a + of_nat i) [0..<w]\<rparr>"

definition only_bytes :: "addr \<Rightarrow> nat \<Rightarrow> (addr \<Rightarrow> 8 word) \<Rightarrow> seq_state \<Rightarrow> bool" where
  "only_bytes a w m s \<longleftrightarrow> (\<forall>b. b \<notin> (\<lambda>i. a + of_nat i) ` {..<w} \<longrightarrow> m b = ss_byte s b)"

lemma access_runs:
  fixes v :: "'a::len word"
  assumes "LENGTH('a) = 8 * w" and "w \<le> 8"
  shows "\<exists>m. seq_runs
      (check_bytes OpRaceWrite (map (\<lambda>i. a + of_nat i) [0..<w]) (write_bytes a v [0..<w]
        (check_bytes OpRaceRead (map (\<lambda>i. a + of_nat i) [0..<w]) (read_bytes a [0..<w] 0 k)))) s
      (k v) (accessed a w m s) \<and> only_bytes a w m s"
proof (intro exI conjI)
  let ?m = "put_bytes a v [0..<w] (ss_byte s)" and ?as = "map (\<lambda>i. a + of_nat i) [0..<w]"
  show "only_bytes a w ?m s" by (auto simp: only_bytes_def put_bytes_other atLeast0LessThan)
  note r1 = check_bytes_runs(2) [of ?as]
    and r2 = write_bytes_runs [of a v "[0..<w]" _ "s\<lparr>ss_writes := ss_writes s @ ?as\<rparr>"]
    and r3 = check_bytes_runs(1) [of ?as _ "s\<lparr>ss_writes := ss_writes s @ ?as, ss_byte := ?m\<rparr>"]
    and r4 = read_bytes_runs [of a "[0..<w]" "0 :: 'a word" k "accessed a w ?m s"]
  show "seq_runs (check_bytes OpRaceWrite ?as (write_bytes a v [0..<w]
        (check_bytes OpRaceRead ?as (read_bytes a [0..<w] 0 k)))) s (k v) (accessed a w ?m s)"
    by (rule seq_runs_trans [OF r1], rule seq_runs_trans [OF r2], simp, rule seq_runs_trans [OF r3])
      (use r4 in \<open>simp add: accessed_def get_put_bytes [OF assms]\<close>)
qed

lemmas user_api_defs = model_read_action_def model_write_action_def model_init_action_def
  model_rmwr_action_def model_rmw_action_def model_rmwc_action_def ATOMIC_LOAD_def ATOMIC_STORE_def
  ATOMIC_INITIALIZE_def ATOMIC_MODIFY_def ATOMIC_CMPSWP_def

section \<open>Atomic values\<close>

text \<open>What the code of a thread asks for next, and how it goes on with the answer.\<close>

definition request :: "user \<Rightarrow> user_op option" where
  "request u = (case u of Finished \<Rightarrow> None | Op op k \<Rightarrow> Some op)"

definition resume :: "user \<Rightarrow> uint64 \<Rightarrow> user" where
  "resume u r = (case u of Finished \<Rightarrow> Finished | Op op k \<Rightarrow> k r)"

text \<open>
  The action the checker holds for a request, as far as type and value go: the action made for it, or
  for the second half of a read-modify-write the first half with the second one worked in.
\<close>

definition carries :: "user_op \<Rightarrow> ModelAction \<Rightarrow> bool" where
  "carries op wa =
     (case op of
        OpAction ty ord obj v \<Rightarrow>
          \<exists>tid a. new_ModelAction ty ord obj v tid = Some a \<and>
            (if ty = ATOMIC_RMW \<or> ty = ATOMIC_RMWC
             then \<exists>first. is_rmwr first \<and>
                    ma_type wa = ma_type (ModelAction_process_rmw first a) \<and>
                    ma_value wa = ma_value (ModelAction_process_rmw first a)
             else ma_type wa = ma_type a \<and> ma_value wa = ma_value a)
      | _ \<Rightarrow> False)"

text \<open>The value a read of the checker gives to each kind of reader in the program.\<close>

definition delivered :: "act_store \<Rightarrow> promise_store \<Rightarrow> act_ref \<Rightarrow> 'a::len word \<Rightarrow> bool" where
  "delivered acts proms rd v \<longleftrightarrow>
     (\<exists>r. get_return_value acts proms (acts rd) = Some r \<and>
        (\<forall>a y k. resume (ATOMIC_LOAD a y k) r = k v) \<and>
        (\<forall>sg a f m y k r'. request (resume (ATOMIC_MODIFY sg a f m y k) r) = Some (OpAction ATOMIC_RMW y a (to_uint64 sg (f v m))) \<and>
           resume (resume (ATOMIC_MODIFY sg a f m y k) r) r' = k v) \<and>
        (\<forall>sg a e m y k r'. resume (resume (ATOMIC_CMPSWP sg a e m y k) r) r' =
           k (if v = e then (True, e) else (False, v))))"

lemma delivered_value:
  fixes v :: "'a::len word"
  assumes "get_return_value acts proms (acts rd) = Some r" and "ucast r = v"
  shows "delivered acts proms rd v"
  unfolding delivered_def
  using assms by (intro exI [of _ r]) (auto simp: user_api_defs request_def resume_def Let_def)

lemma carries_value:
  assumes "carries (OpAction ty y b v) wa" and "ty \<in> {ATOMIC_WRITE, ATOMIC_INIT, ATOMIC_RMW}"
  shows "ma_value wa = v"
  using assms
  by (auto simp: carries_def new_ModelAction_def ModelAction_process_rmw_def is_rmw_def is_rmwc_def Let_def
      split: if_splits)

lemma carries_rmwc: "carries (OpAction ATOMIC_RMWC y b v) wa \<Longrightarrow> \<not> is_write wa"
  by (auto simp: carries_def new_ModelAction_def ModelAction_process_rmw_def is_rmwc_def is_write_def Let_def
      split: if_splits)

lemma carries_delivered:
  fixes v :: "'a::len word"
  assumes "LENGTH('a) \<le> 64" and "is_read (acts rd)" "ma_reads_from (acts rd) = Some w" and "is_write (acts w)"
    and "carries (OpAction ty y b (to_uint64 sg v)) (acts w)" and "ty \<in> {ATOMIC_WRITE, ATOMIC_INIT, ATOMIC_RMW}"
  shows "delivered acts proms rd v"
proof (rule delivered_value)
  show "get_return_value acts proms (acts rd) = Some (to_uint64 sg v)"
    using assms(2-4) carries_value [OF assms(5,6)]
    by (simp add: get_return_value_def get_reads_from_value_def get_write_value_def)
  show "ucast (to_uint64 sg v) = v" by (rule ucast_to_uint64 [OF assms(1)])
qed

section \<open>Properties\<close>

text \<open>
  (C28) Values of atomic objects of at most 64 bits, signed or unsigned, reach their readers. The
  checker answers a read with \<open>get_return_value\<close>. If the read is of a store that carries what a store,
  an initialization, a modification or a successful compare-exchange of the program asked for, then a
  load continues with the value stored at the width of the type, a modification returns it and asks to
  store the result computed from it, and a compare-exchange succeeds exactly if it is the expected
  value. A modification stores the result of its operation on the value it was answered; a
  compare-exchange answered another value than expected asks for no store.
\<close>

theorem atomic_values_delivered:
  fixes m e :: "'a::len word"
  assumes width: "LENGTH('a) \<le> 64"
    and rd: "is_read (acts rd)" "ma_reads_from (acts rd) = Some w" and w: "is_write (acts w)"
  shows "(\<exists>v. request (ATOMIC_STORE sg a m x k) = Some (OpAction ATOMIC_WRITE x a v) \<and>
        (carries (OpAction ATOMIC_WRITE x a v) (acts w) \<longrightarrow> delivered acts proms rd m)) \<and>
    (\<exists>v. request (ATOMIC_INITIALIZE sg a m k) = Some (OpAction ATOMIC_INIT memory_order_relaxed a v) \<and>
        (carries (OpAction ATOMIC_INIT memory_order_relaxed a v) (acts w) \<longrightarrow> delivered acts proms rd m)) \<and>
    request (ATOMIC_MODIFY sg a f m x km) = Some (OpAction ATOMIC_RMWR x a VALUE_NONE) \<and>
    (\<forall>r. \<exists>v. request (resume (ATOMIC_MODIFY sg a f m x km) r) = Some (OpAction ATOMIC_RMW x a v) \<and>
        (carries (OpAction ATOMIC_RMW x a v) (acts w) \<longrightarrow> delivered acts proms rd (f (ucast r) m))) \<and>
    request (ATOMIC_CMPSWP sg a e m x kc) = Some (OpAction ATOMIC_RMWR x a VALUE_NONE) \<and>
    (\<forall>r. if ucast r = e
         then \<exists>v. request (resume (ATOMIC_CMPSWP sg a e m x kc) r) = Some (OpAction ATOMIC_RMW x a v) \<and>
              (carries (OpAction ATOMIC_RMW x a v) (acts w) \<longrightarrow> delivered acts proms rd m)
         else request (resume (ATOMIC_CMPSWP sg a e m x kc) r) = Some (OpAction ATOMIC_RMWC x a VALUE_NONE) \<and>
              \<not> carries (OpAction ATOMIC_RMWC x a VALUE_NONE) (acts w))"
proof -
  have d: "delivered acts proms rd v" if "carries (OpAction ty y b (to_uint64 sg v)) (acts w)"
      "ty \<in> {ATOMIC_WRITE, ATOMIC_INIT, ATOMIC_RMW}" for ty y b and v :: "'a word"
    using carries_delivered [OF width rd w that] .
  show ?thesis
    using d carries_rmwc [of x a VALUE_NONE "acts w"] w
    by (auto simp: user_api_defs request_def resume_def Let_def)
qed

text \<open>
  (C29) A plain value stored with one of the store functions is what the load function of the same
  width returns. The store checks each byte of the value once for a race and changes no other
  byte.
\<close>

theorem plain_memory_roundtrip:
  "\<exists>m1 m2 m4 m8.
     seq_runs (store_8 a v1 (load_8 a k1)) s (k1 v1) (accessed a 1 m1 s) \<and> only_bytes a 1 m1 s \<and>
     seq_runs (store_16 a v2 (load_16 a k2)) s (k2 v2) (accessed a 2 m2 s) \<and> only_bytes a 2 m2 s \<and>
     seq_runs (store_32 a v4 (load_32 a k4)) s (k4 v4) (accessed a 4 m4 s) \<and> only_bytes a 4 m4 s \<and>
     seq_runs (store_64 a v8 (load_64 a k8)) s (k8 v8) (accessed a 8 m8 s) \<and> only_bytes a 8 m8 s"
proof -
  have m: "[a] = map (\<lambda>i. a + of_nat i) [0..<1]" "[a, a + 1] = map (\<lambda>i. a + of_nat i) [0..<2]"
    "[a, a + 1, a + 2, a + 3] = map (\<lambda>i. a + of_nat i) [0..<4]"
    "[a, a + 1, a + 2, a + 3, a + 4, a + 5, a + 6, a + 7] = map (\<lambda>i. a + of_nat i) [0..<8]"
    by (simp_all add: upt_rec)
  show ?thesis
    unfolding store_8_def store_16_def store_32_def store_64_def load_8_def load_16_def load_32_def load_64_def m
    using access_runs [of 1 a v1 k1 s] access_runs [of 2 a v2 k2 s] access_runs [of 4 a v4 k4 s] access_runs [of 8 a v8 k8 s]
    by simp
qed

section \<open>Concrete cases\<close>

text \<open>Action 0 is the store of -1 to a signed object of 32 bits, action 1 a read of it.\<close>

definition example_value_acts :: act_store where
  "example_value_acts r =
     (if r = 0 then (example_action ATOMIC_WRITE memory_order_relaxed)\<lparr>ma_value := - 1\<rparr>
      else (example_action ATOMIC_READ memory_order_relaxed)\<lparr>ma_reads_from := Some 0\<rparr>)"

definition example_value_promise :: Promise where
  "example_value_promise =
     \<lparr>pr_available_thread = [], pr_was_available_thread = [], pr_num_available_threads = 0,
      pr_num_was_available_threads = 0, pr_fv = \<lparr>fv_value = 0, fv_expiration = 0, fv_tid = 1\<rparr>,
      pr_readers = [], pr_write = None\<rparr>"

theorem atomic_values_delivered_witness:
  "delivered example_value_acts (\<lambda>_. example_value_promise) 1 (- 1 :: 32 word)"
proof -
  have "LENGTH(32) \<le> 64" "is_read (example_value_acts 1)" "ma_reads_from (example_value_acts 1) = Some 0"
    "is_write (example_value_acts 0)"
    by (simp_all add: example_value_acts_def example_action_def is_read_def is_write_def)
  note all = conjunct1 [OF atomic_values_delivered [OF this, where m = "- 1 :: 32 word" and sg = True and a = "0x100"
      and x = memory_order_relaxed and k = Finished and proms = "\<lambda>_. example_value_promise"]]
  then obtain v where v: "request (ATOMIC_STORE True 0x100 (- 1 :: 32 word) memory_order_relaxed Finished) =
      Some (OpAction ATOMIC_WRITE memory_order_relaxed 0x100 v)"
    and del: "carries (OpAction ATOMIC_WRITE memory_order_relaxed 0x100 v) (example_value_acts 0) \<longrightarrow>
      delivered example_value_acts (\<lambda>_. example_value_promise) 1 (- 1 :: 32 word)" by blast
  from v have "v = - 1" by (simp add: user_api_defs request_def to_uint64_def)
  then have "carries (OpAction ATOMIC_WRITE memory_order_relaxed 0x100 v) (example_value_acts 0)"
    by (simp add: carries_def new_ModelAction_def example_value_acts_def example_action_def)
  with del show ?thesis by (rule mp)
qed

end
