(* ===== verification/ModelChecker.thy ===== *)
theory ModelChecker
  imports ExecRun UserApi
begin

text \<open>
  \<open>model.cc\<close>, the snapshot stack of \<open>snapshot-interface.cc\<close> and the start in \<open>main.cc\<close>: the
  loop that runs the checked program again and again, each time along another path. The checked program
  is a parameter. Rolling back to a snapshot restores what is allocated in snapshot memory: the
  execution with its scheduler, threads, promises, graph and race records, and the memory and
  contexts of the program; the actions, the node stack and the fields of the checker stay. A clock
  vector that an action still points to after a rollback is not read before it is created again.
  Printing, the memory allocator and the plugins are left out; without a plugin \<open>inspect_plugin\<close> is
  \<open>NULL\<close> and \<open>trace_analyses\<close> is empty.
\<close>

section \<open>State\<close>

text \<open>
  The checked program: its main function, the function and argument behind the address of thread
  parameters, the addresses of the thread objects, and the address of the \<open>thrd_t\<close> of its first
  thread.
\<close>

record program =
  pg_main :: "user \<Rightarrow> user"
  pg_routine :: "uint64 \<Rightarrow> user \<Rightarrow> user"
  pg_thread_addr :: "thread_id_t \<Rightarrow> addr"
  pg_user_thread :: addr

record execution_stats =
  st_num_total :: int
  st_num_infeasible :: int
  st_num_buggy_executions :: int
  st_num_complete :: int
  st_num_redundant :: int

definition zero_stats :: execution_stats where
  "zero_stats = \<lparr>st_num_total = 0, st_num_infeasible = 0, st_num_buggy_executions = 0,
                 st_num_complete = 0, st_num_redundant = 0\<rparr>"

text \<open>What a snapshot holds, and an entry of the stack of snapshots.\<close>

record snapshot_image =
  si_execution :: ModelExecution
  si_context :: "thread_id_t \<rightharpoonup> (uint64 \<Rightarrow> user)"
  si_mem :: "addr \<Rightarrow> 8 word"
  si_shadow :: shadow_root

record snapshot_entry =
  se_snapshot :: snapshot_image
  se_index :: int

text \<open>The checker, with the memory and the contexts of the program beside it.\<close>

record ModelChecker =
  mc_params :: model_params
  mc_restart_flag :: bool
  mc_exit_flag :: bool
  mc_execution :: ModelExecution
  mc_execution_number :: int
  mc_diverge :: "act_ref option"
  mc_earliest_diverge :: "act_ref option"
  mc_stats :: execution_stats
  mc_context :: "thread_id_t \<rightharpoonup> (uint64 \<Rightarrow> user)"
  mc_mem :: "addr \<Rightarrow> 8 word"
  mc_shadow :: shadow_root
  mc_snapshots :: "snapshot_entry list"

definition new_ModelChecker ::
    "exec_heap \<Rightarrow> model_params \<Rightarrow> (addr \<Rightarrow> 8 word) \<Rightarrow> shadow_root \<Rightarrow> ModelChecker option" where
  "new_ModelChecker h params mem shadow = do {
     ex \<leftarrow> new_ModelExecution h params new_Scheduler new_NodeStack;
     Some \<lparr>mc_params = params, mc_restart_flag = False, mc_exit_flag = False, mc_execution = ex,
           mc_execution_number = 1, mc_diverge = None, mc_earliest_diverge = None,
           mc_stats = zero_stats, mc_context = Map.empty, mc_mem = mem, mc_shadow = shadow,
           mc_snapshots = []\<rparr>
   }"

section \<open>Snapshots\<close>

definition snapshot_record :: "ModelChecker \<Rightarrow> int \<Rightarrow> ModelChecker" where
  "snapshot_record mc seq_index =
     mc\<lparr>mc_snapshots := mc_snapshots mc @
          [\<lparr>se_snapshot = \<lparr>si_execution = mc_execution mc, si_context = mc_context mc,
                           si_mem = mc_mem mc, si_shadow = mc_shadow mc\<rparr>,
            se_index = seq_index\<rparr>]\<rparr>"

text \<open>
  The loop of \<open>backTrackBeforeStep\<close> drops the last entry and increments the index it looks at; an
  index beyond the end has no meaning.
\<close>

fun before_step :: "snapshot_entry list \<Rightarrow> nat \<Rightarrow> int \<Rightarrow> (snapshot_entry list \<times> nat) option" where
  "before_step [] i seqindex = None"
| "before_step (e # es) i seqindex =
     (if i < length (e # es)
      then if se_index ((e # es) ! i) \<le> seqindex then Some (e # es, i)
           else before_step (butlast (e # es)) (i + 1) seqindex
      else None)"

definition roll_back :: "ModelChecker \<Rightarrow> snapshot_image \<Rightarrow> ModelChecker" where
  "roll_back mc img =
     mc\<lparr>mc_execution := (si_execution img)\<lparr>ex_acts := ex_acts (mc_execution mc),
                                           ex_next_act := ex_next_act (mc_execution mc),
                                           ex_node_stack := ex_node_stack (mc_execution mc)\<rparr>,
        mc_context := si_context img, mc_mem := si_mem img, mc_shadow := si_shadow img\<rparr>"

definition snapshot_backtrack_before :: "ModelChecker \<Rightarrow> int \<Rightarrow> (int \<times> ModelChecker) option" where
  "snapshot_backtrack_before mc seq_index = do {
     ASSERT (mc_snapshots mc \<noteq> []);
     (stack, i) \<leftarrow> before_step (mc_snapshots mc) (length (mc_snapshots mc) - 1) seq_index;
     Some (se_index (stack ! i), roll_back (mc\<lparr>mc_snapshots := stack\<rparr>) (se_snapshot (stack ! i)))
   }"

text \<open>Freeing the pending actions changes nothing that is read afterwards.\<close>

definition reset_to_initial_state :: "ModelChecker \<Rightarrow> ModelChecker option" where
  "reset_to_initial_state mc = do {
     let ex = mc_execution mc;
     (_, mc') \<leftarrow> snapshot_backtrack_before
                   (mc\<lparr>mc_execution := ex\<lparr>ex_node_stack := reset_execution (ex_node_stack ex)\<rparr>\<rparr>) 0;
     Some mc'
   }"

section \<open>Choosing the next thread\<close>

definition execute_sleep_set :: "ModelExecution \<Rightarrow> ModelExecution option" where
  "execute_sleep_set ex =
     foldM (\<lambda>i ex. do {
         thr \<leftarrow> get_thread ex (int_to_id i);
         sl \<leftarrow> is_sleep_set (ex_scheduler ex) thr;
         Some (case th_pending (ex_threads ex thr) of
                 Some p \<Rightarrow> if sl then put_act ex p ((ex_acts ex p)\<lparr>ma_sleep_flag := True\<rparr>) else ex
               | None \<Rightarrow> ex)
       }) [0..<get_num_threads ex] ex"

text \<open>The node of the head; without fairness and yield priorities it is not looked at.\<close>

definition head_node :: "ModelExecution \<Rightarrow> Node option" where
  "head_node ex = do {
     h \<leftarrow> get_head (ex_node_stack ex);
     (case h of
        Some i \<Rightarrow> node_at ex i
      | None \<Rightarrow> if mp_fairwindow (ex_params ex) = 0 \<and> \<not> mp_yieldon (ex_params ex)
                 then Some (blank_Node 0 None 0) else None)
   }"

text \<open>At the divergence point: the same thread with the next behaviour, or another thread.\<close>

definition diverge_here :: "ModelChecker \<Rightarrow> act_ref \<Rightarrow> (thread_id_t \<times> ModelChecker) option" where
  "diverge_here mc next = do {
     let ex = mc_execution mc;
     let earliest = (case mc_earliest_diverge mc of
                       None \<Rightarrow> Some next
                     | Some e \<Rightarrow> if act_less (ex_acts ex next) (ex_acts ex e) then Some next else Some e);
     (n, nextnode) \<leftarrow> node_of ex next;
     p \<leftarrow> nd_parent nextnode;
     prevnode \<leftarrow> node_at ex p;
     s \<leftarrow> update_sleep_set (ex_scheduler ex) prevnode;
     let ex1 = ex\<lparr>ex_scheduler := s\<rparr>;
     let (again, nextnode1) = increment_behaviors nextnode;
     let ex2 = put_node ex1 n nextnode1;
     (tid, earliest, ex3) \<leftarrow>
       (if again
        then do {
          ns \<leftarrow> pop_restofstack (ex_node_stack ex2) 2;
          Some (ma_tid (ex_acts ex2 next), earliest, ex2\<lparr>ex_node_stack := ns\<rparr>)
        }
        else do {
          thr \<leftarrow> get_thread ex2 (ma_tid (ex_acts ex2 next));
          let ex3 = with_scheduler ex2 (add_sleep (ex_scheduler ex2) thr);
          prevnode \<leftarrow> node_at ex3 p;
          (tid, prevnode1) \<leftarrow> get_next_backtrack prevnode;
          let ex4 = put_node ex3 p prevnode1;
          ns \<leftarrow> pop_restofstack (ex_node_stack ex4) 1;
          Some (tid, if Some next = earliest then Some (nd_action prevnode1) else earliest,
                ex4\<lparr>ex_node_stack := ns\<rparr>)
        });
     ex4 \<leftarrow> execute_sleep_set (ex3\<lparr>ex_scheduler := set_scheduler_thread (ex_scheduler ex3) tid\<rparr>);
     Some (tid, mc\<lparr>mc_execution := ex4, mc_diverge := None, mc_earliest_diverge := earliest\<rparr>)
   }"

definition get_next_thread :: "ModelChecker \<Rightarrow> (thread_id_t option \<times> ModelChecker) option" where
  "get_next_thread mc =
     (let ex = mc_execution mc
      in case mc_diverge mc of
           None \<Rightarrow> do {
             n \<leftarrow> head_node ex;
             (t, s) \<leftarrow> select_next_thread (ex_params ex) (ex_scheduler ex) n;
             Some (t, mc\<lparr>mc_execution := ex\<lparr>ex_scheduler := s\<rparr>\<rparr>)
           }
         | Some diverge \<Rightarrow> do {
             i \<leftarrow> get_next (ex_node_stack ex);
             i \<leftarrow> i;
             node \<leftarrow> node_at ex i;
             (tid, mc1) \<leftarrow> (if nd_action node = diverge then diverge_here mc diverge
                            else Some (ma_tid (ex_acts ex (nd_action node)), mc));
             Some (get_thread (mc_execution mc1) tid, mc1)
           })"

section \<open>Bugs and statistics\<close>

text \<open>The message is printed to a buffer of 800 bytes first.\<close>

definition Checker_assert_bug :: "ModelChecker \<Rightarrow> string \<Rightarrow> bool \<times> ModelChecker" where
  "Checker_assert_bug mc msg =
     (let (feasible, ex) = assert_bug (mc_execution mc) (BugText (take 799 msg))
      in (feasible, mc\<lparr>mc_execution := ex\<rparr>))"

definition record_stats :: "ModelChecker \<Rightarrow> ModelChecker option" where
  "record_stats mc = do {
     let ex = mc_execution mc;
     let st = (mc_stats mc)\<lparr>st_num_total := st_num_total (mc_stats mc) + 1\<rparr>;
     st' \<leftarrow> (if \<not> isfeasibleprefix ex then Some (st\<lparr>st_num_infeasible := st_num_infeasible st + 1\<rparr>)
             else if have_bug_reports ex
             then Some (st\<lparr>st_num_buggy_executions := st_num_buggy_executions st + 1\<rparr>)
             else do {
               complete \<leftarrow> is_complete_execution ex;
               Some (if complete then st\<lparr>st_num_complete := st_num_complete st + 1\<rparr>
                     else st\<lparr>st_num_redundant := st_num_redundant st + 1\<rparr>)
             });
     Some (mc\<lparr>mc_stats := st'\<rparr>)
   }"

definition should_terminate_execution :: "ModelExecution \<Rightarrow> bool \<times> ModelExecution" where
  "should_terminate_execution ex =
     (if is_infeasible ex then (True, ex)
      else if isfeasibleprefix ex \<and> have_bug_reports ex then (True, set_assert ex)
      else (too_many_steps ex, ex))"

section \<open>The end of an execution\<close>

definition exit_model_checker :: "ModelChecker \<Rightarrow> ModelChecker" where
  "exit_model_checker mc = mc\<lparr>mc_exit_flag := True\<rparr>"

definition restart :: "ModelChecker \<Rightarrow> ModelChecker" where
  "restart mc = mc\<lparr>mc_restart_flag := True\<rparr>"

definition do_restart :: "ModelChecker \<Rightarrow> ModelChecker option" where
  "do_restart mc = do {
     mc1 \<leftarrow> reset_to_initial_state
              (mc\<lparr>mc_restart_flag := False, mc_diverge := None, mc_earliest_diverge := None\<rparr>);
     let ex = mc_execution mc1;
     Some (mc1\<lparr>mc_execution := ex\<lparr>ex_node_stack := full_reset (ex_node_stack ex)\<rparr>,
               mc_stats := zero_stats, mc_execution_number := 1\<rparr>)
   }"

text \<open>The checks for bugs at the end; the flag says whether the execution is worth checking.\<close>

definition end_checks :: "ModelChecker \<Rightarrow> (bool \<times> ModelChecker) option" where
  "end_checks mc = do {
     let ex = mc_execution mc;
     complete \<leftarrow> (if isfeasibleprefix ex
                  then do { c \<leftarrow> is_complete_execution ex; Some (c \<or> have_bug_reports ex) }
                  else Some False);
     if complete
     then do {
       dead \<leftarrow> is_deadlocked ex;
       let mc1 = (if dead then snd (Checker_assert_bug mc ''Deadlock detected'') else mc);
       (_, ex2) \<leftarrow> exec_checkDataRaces (mc_execution mc1);
       Some (True, mc1\<lparr>mc_execution := ex2\<rparr>)
     }
     else Some (False, mc)
   }"

text \<open>Whether there is another execution; if so the state is reset for it.\<close>

definition choose_next :: "ModelChecker \<Rightarrow> (bool \<times> ModelChecker) option" where
  "choose_next mc =
     (if mc_restart_flag mc then do { mc1 \<leftarrow> do_restart mc; Some (True, mc1) }
      else if mc_exit_flag mc then Some (False, mc)
      else
        let (diverge, ex) = Execution_get_next_backtrack (mc_execution mc);
            mc1 = mc\<lparr>mc_diverge := diverge, mc_execution := ex\<rparr>
        in if diverge = None then Some (False, mc1)
           else
             let mc2 = mc1\<lparr>mc_execution_number := mc_execution_number mc1 + 1\<rparr>
             in if mp_maxexecutions (mc_params mc2) \<noteq> 0 \<and>
                   st_num_complete (mc_stats mc2) \<ge> mp_maxexecutions (mc_params mc2)
                then Some (False, mc2)
                else do { mc3 \<leftarrow> reset_to_initial_state mc2; Some (True, mc3) })"

definition next_execution :: "ModelChecker \<Rightarrow> (bool \<times> ModelChecker) option" where
  "next_execution mc = do {
     (complete, mc1) \<leftarrow> end_checks mc;
     mc2 \<leftarrow> record_stats mc1;
     choose_next (if complete then mc2\<lparr>mc_earliest_diverge := None\<rparr> else mc2)
   }"

section \<open>Running the program\<close>

text \<open>
  Back from a thread to the checker, with its next action or none; the context keeps how the thread goes
  on with the value of the action.
\<close>

definition switch_to_master ::
    "ModelChecker \<Rightarrow> act_ref option \<Rightarrow> (uint64 \<Rightarrow> user) \<Rightarrow> ModelChecker option" where
  "switch_to_master mc act k = do {
     let ex = mc_execution mc;
     current \<leftarrow> get_current_thread (ex_threads ex) (ex_scheduler ex);
     old \<leftarrow> current;
     s \<leftarrow> set_current_thread (ex_threads ex) (ex_scheduler ex) None;
     ASSERT (th_pending (ex_threads ex old) = None);
     th \<leftarrow> swap_to_system ((ex_threads ex old)\<lparr>th_pending := act\<rparr>);
     Some (mc\<lparr>mc_execution := put_thread (ex\<lparr>ex_scheduler := s\<rparr>) old th,
              mc_context := (mc_context mc)(old \<mapsto> k)\<rparr>)
   }"

definition assert_races :: "ModelExecution \<Rightarrow> race_state \<Rightarrow> ModelExecution" where
  "assert_races ex rs =
     fold (\<lambda>race ex. snd (assert_bug ex (BugRace race)))
       (drop (length (rs_asserted (ex_races ex))) (rs_asserted rs)) (ex\<lparr>ex_races := rs\<rparr>)"

text \<open>
  A race check on a byte: \<open>Inl\<close> when a realized race has switched to the checker for good.
\<close>

definition race_check ::
    "(race_env \<Rightarrow> thread_id_t \<Rightarrow> addr \<Rightarrow> shadow \<Rightarrow> race_state \<Rightarrow> shadow checked) \<Rightarrow>
     ModelChecker \<Rightarrow> thread_id_t \<Rightarrow> addr \<Rightarrow> (ModelChecker + ModelChecker) option" where
  "race_check check mc tid a = do {
     let ex = mc_execution mc;
     let (root, p) = lookupAddressEntry (mc_shadow mc) a;
     e \<leftarrow> read_entry root p;
     cv \<leftarrow> get_cv ex tid;
     _ \<leftarrow> cv;
     r \<leftarrow> check (exec_race_env ex) tid a e (ex_races ex);
     (case r of
        Inl rs \<Rightarrow> do {
          mc1 \<leftarrow> switch_to_master (mc\<lparr>mc_execution := assert_races ex rs, mc_shadow := root\<rparr>) None (\<lambda>_. Finished);
          Some (Inl mc1)
        }
      | Inr (e', rs) \<Rightarrow> do {
          root' \<leftarrow> write_entry root p e';
          Some (Inr (mc\<lparr>mc_execution := assert_races ex rs, mc_shadow := root'\<rparr>))
        })
   }"

text \<open>A bug asserted by the code of a thread, which goes on with \<open>k\<close> unless the bug is feasible.\<close>

definition assert_user_bug ::
    "ModelChecker \<Rightarrow> string \<Rightarrow> (uint64 \<Rightarrow> user) \<Rightarrow> (ModelChecker + ModelChecker) option" where
  "assert_user_bug mc msg k =
     (let (feasible, mc1) = Checker_assert_bug mc msg
      in if feasible then do { mc2 \<leftarrow> switch_to_master mc1 None k; Some (Inl mc2) }
         else Some (Inr mc1))"

text \<open>
  One operation of the thread that runs: \<open>Inl\<close> when it has switched to the checker, \<open>Inr\<close> with
  its value when the thread goes on.
\<close>

definition user_step ::
    "thread_id_t \<Rightarrow> user_op \<Rightarrow> (uint64 \<Rightarrow> user) \<Rightarrow> ModelChecker \<Rightarrow> (ModelChecker + uint64 \<times> ModelChecker) option" where
  "user_step tid op k mc =
     (let ex = mc_execution mc;
          on = (\<lambda>r. map_option (map_sum id (\<lambda>mc. (0, mc))) r)
      in case op of
           OpAction type order loc val \<Rightarrow> do {
             a \<leftarrow> new_ModelAction type order loc val tid;
             let (act, ex1) = alloc_act ex a;
             mc1 \<leftarrow> switch_to_master (mc\<lparr>mc_execution := ex1\<rparr>) (Some act) k;
             Some (Inl mc1)
           }
         | OpBug msg \<Rightarrow> on (assert_user_bug mc msg k)
         | OpRaceRead a \<Rightarrow> on (race_check raceCheckRead mc tid a)
         | OpRaceWrite a \<Rightarrow> on (race_check raceCheckWrite mc tid a)
         | OpLoad a \<Rightarrow> Some (Inr (ucast (mc_mem mc a), mc))
         | OpStore a b \<Rightarrow> Some (Inr (0, mc\<lparr>mc_mem := (mc_mem mc)(a := b)\<rparr>))
         | OpMutex a \<Rightarrow> do {
             cv \<leftarrow> get_cv ex tid;
             cv \<leftarrow> cv;
             Some (Inr (0, mc\<lparr>mc_execution := ex\<lparr>ex_mutexes := (ex_mutexes ex)(a :=
               \<lparr>mx_locked = None, mx_alloc_tid = tid, mx_alloc_clock = ClockVector_getClock cv tid\<rparr>)\<rparr>\<rparr>))
           }
         | OpThrdId a \<Rightarrow> do { t \<leftarrow> ex_thrd_priv ex a; Some (Inr (of_nat t, mc)) }
         | OpCurrentId \<Rightarrow> Some (Inr (of_nat tid, mc)))"

text \<open>The thread runs until it switches to the checker.\<close>

partial_function (option) run_user :: "thread_id_t \<Rightarrow> user \<Rightarrow> ModelChecker \<Rightarrow> ModelChecker option" where
  "run_user tid u mc =
     (case u of
        Finished \<Rightarrow> None
      | Op op k \<Rightarrow>
          Option.bind (user_step tid op k mc) (\<lambda>r.
            case r of
              Inl mc1 \<Rightarrow> Some mc1
            | Inr p \<Rightarrow> run_user tid (k (fst p)) (snd p)))"

declare run_user.simps [code]

definition start_context :: "program \<Rightarrow> ModelExecution \<Rightarrow> thread_id_t \<Rightarrow> user" where
  "start_context pg ex thr =
     thread_startup (pg_thread_addr pg thr)
       (case th_creation (ex_threads ex thr) of
          None \<Rightarrow> pg_main pg
        | Some c \<Rightarrow> pg_routine pg (ma_value (ex_acts ex c)))"

definition switch_from_master :: "program \<Rightarrow> ModelChecker \<Rightarrow> thread_id_t \<Rightarrow> ModelChecker option" where
  "switch_from_master pg mc thr = do {
     let ex = mc_execution mc;
     s \<leftarrow> set_current_thread (ex_threads ex) (ex_scheduler ex) (Some thr);
     th \<leftarrow> swap_to_thread (ex_threads ex thr);
     run_user thr
       (case mc_context mc thr of
          None \<Rightarrow> start_context pg ex thr
        | Some k \<Rightarrow> k (th_last_action_val th))
       (mc\<lparr>mc_execution := put_thread (ex\<lparr>ex_scheduler := s\<rparr>) thr th\<rparr>)
   }"

text \<open>The two loops over the threads before each step.\<close>

definition stash_action :: "program \<Rightarrow> nat \<Rightarrow> ModelChecker \<Rightarrow> ModelChecker option" where
  "stash_action pg i mc = do {
     let ex = mc_execution mc;
     thr \<leftarrow> get_thread ex (int_to_id i);
     let th = ex_threads ex thr;
     if \<not> th_model_thread th \<and> \<not> is_complete th \<and> th_pending th = None
     then do {
       mc1 \<leftarrow> switch_from_master pg mc thr;
       w \<leftarrow> is_waiting_on (exec_wait_env (mc_execution mc1)) (ex_threads (mc_execution mc1)) thr thr;
       Some (if w then snd (Checker_assert_bug mc1 (''Deadlock detected (thread '' @ digits i @ '')'')) else mc1)
     }
     else Some mc
   }"

definition disable_thread :: "nat \<Rightarrow> ModelExecution \<Rightarrow> ModelExecution option" where
  "disable_thread i ex = do {
     th \<leftarrow> get_thread ex (int_to_id i);
     (case th_pending (ex_threads ex th) of
        Some act \<Rightarrow>
          if Execution_is_enabled ex th
          then do {
            (enabled, ex1) \<leftarrow> check_action_enabled ex act;
            if \<not> enabled then sleep_thread ex1 th else Some ex1
          }
          else Some ex
      | None \<Rightarrow> Some ex)
   }"

text \<open>
  One round of the inner loop of \<open>run\<close>. \<open>Inl\<close> leaves the loop, \<open>Inr\<close> goes on with the
  thread that has to run next, if one is given.
\<close>

definition run_round ::
    "program \<Rightarrow> thread_id_t option \<Rightarrow> ModelChecker \<Rightarrow> (ModelChecker + thread_id_t option \<times> ModelChecker) option" where
  "run_round pg t mc = do {
     mc1 \<leftarrow> foldM (stash_action pg) [0..<get_num_threads (mc_execution mc)] mc;
     ex2 \<leftarrow> foldM disable_thread [0..<get_num_threads (mc_execution mc1)] (mc_execution mc1);
     let mc2 = mc1\<lparr>mc_execution := ex2\<rparr>;
     if has_asserted ex2 then Some (Inl mc2)
     else do {
       (t, mc3) \<leftarrow> (case t of None \<Rightarrow> get_next_thread mc2 | Some t \<Rightarrow> Some (Some t, mc2));
       (case t of
          None \<Rightarrow> Some (Inl mc3)
        | Some t \<Rightarrow>
            let ex3 = mc_execution mc3
            in if th_model_thread (ex_threads ex3 t) then Some (Inl mc3)
               else do {
                 cur \<leftarrow> th_pending (ex_threads ex3 t);
                 (t', ex4) \<leftarrow> take_step (put_thread ex3 t ((ex_threads ex3 t)\<lparr>th_pending := None\<rparr>)) cur;
                 let (stop, ex5) = should_terminate_execution ex4;
                 let mc5 = mc3\<lparr>mc_execution := ex5\<rparr>;
                 Some (if stop then Inl mc5 else Inr (t', mc5))
               })
     }
   }"

partial_function (option) run_execution :: "program \<Rightarrow> thread_id_t option \<Rightarrow> ModelChecker \<Rightarrow> ModelChecker option" where
  "run_execution pg t mc =
     Option.bind (run_round pg t mc) (\<lambda>r.
       case r of
         Inl mc1 \<Rightarrow> Some mc1
       | Inr p \<Rightarrow> run_execution pg (fst p) (snd p))"

declare run_execution.simps [code]

definition new_main_thread :: "program \<Rightarrow> ModelExecution \<Rightarrow> (thread_id_t \<times> ModelExecution) option" where
  "new_main_thread pg ex = do {
     let (tid, ex1) = get_next_id ex;
     let (th, priv) = new_Thread (ex_thrd_priv ex1) tid (pg_user_thread pg) None;
     ex2 \<leftarrow> Execution_add_thread ((put_thread ex1 tid th)\<lparr>ex_thrd_priv := priv\<rparr>) tid;
     Some (tid, ex2)
   }"

partial_function (option) run_executions :: "program \<Rightarrow> ModelChecker \<Rightarrow> ModelChecker option" where
  "run_executions pg mc =
     Option.bind (new_main_thread pg (mc_execution mc)) (\<lambda>r.
     Option.bind (run_execution pg (Some (fst r)) (mc\<lparr>mc_execution := snd r\<rparr>)) (\<lambda>mc1.
     Option.bind (next_execution mc1) (\<lambda>p.
       if fst p then run_executions pg (snd p) else Some (snd p))))"

declare run_executions.simps [code]

definition Checker_run :: "program \<Rightarrow> ModelChecker \<Rightarrow> ModelChecker option" where
  "Checker_run pg mc = do {
     mc1 \<leftarrow> run_executions pg mc;
     ex \<leftarrow> fixup_release_sequences (mc_execution mc1);
     Some (mc1\<lparr>mc_execution := ex\<rparr>)
   }"

section \<open>Start\<close>

definition param_defaults :: model_params where
  "param_defaults =
     \<lparr>mp_maxreads = 0, mp_maxfuturedelay = 6, mp_yieldon = False, mp_yieldblock = False,
      mp_fairwindow = 0, mp_enabledcount = 1, mp_bound = 0, mp_uninitvalue = 0,
      mp_maxexecutions = 0, mp_maxfuturevalues = 0, mp_expireslop = 4, mp_verbose = 0\<rparr>"

definition model_main ::
    "exec_heap \<Rightarrow> model_params \<Rightarrow> (addr \<Rightarrow> 8 word) \<Rightarrow> program \<Rightarrow> ModelChecker option" where
  "model_main h params mem pg = do {
     let (root, rs) = initRaceDetector;
     mc \<leftarrow> new_ModelChecker (h\<lparr>ex_races := rs\<rparr>) params mem root;
     Checker_run pg (snapshot_record mc 0)
   }"

end
