(* ===== verification/Programs.thy ===== *)
theory Programs
  imports ModelChecker
begin

text \<open>
  Small programs to be checked, written with the functions of the interface, and the memory in which the
  checker starts: no action yet, and the object of thread \<open>t\<close> at the address \<open>0x1000 + 8 t\<close>. They
  serve as concrete inputs of the exploration loop.
\<close>

definition example_heap :: exec_heap where
  "example_heap =
     \<lparr>ex_acts = (\<lambda>_. \<lparr>ma_type = ATOMIC_READ, ma_order = memory_order_relaxed,
                       ma_original_order = memory_order_relaxed, ma_location = 0, ma_tid = 0, ma_value = 0,
                       ma_reads_from = None, ma_reads_from_promise = None, ma_last_fence_release = None,
                       ma_node = None, ma_seq_number = 0, ma_cv = None, ma_sleep_flag = False\<rparr>),
      ex_next_act = 0,
      ex_proms = (\<lambda>_. \<lparr>pr_available_thread = [], pr_was_available_thread = [],
                        pr_num_available_threads = 0, pr_num_was_available_threads = 0,
                        pr_fv = \<lparr>fv_value = 0, fv_expiration = 0, fv_tid = 0\<rparr>, pr_readers = [], pr_write = None\<rparr>),
      ex_next_prom = 0, ex_threads = new_model_Thread, ex_thrd_priv = Map.empty,
      ex_thread_at = (\<lambda>a. if 0x1000 \<le> a \<and> a < 0x2000 then Some (unat ((a - 0x1000) div 8)) else None),
      ex_mutexes = (\<lambda>_. \<lparr>mx_locked = None, mx_alloc_tid = 0, mx_alloc_clock = 0\<rparr>),
      ex_races = \<lparr>rs_unrealizedraces = [], rs_asserted = []\<rparr>\<rparr>"

definition example_thread_addr :: "thread_id_t \<Rightarrow> addr" where
  "example_thread_addr t = 0x1000 + of_nat (8 * t)"

definition example_program :: "(user \<Rightarrow> user) \<Rightarrow> (uint64 \<Rightarrow> user \<Rightarrow> user) \<Rightarrow> program" where
  "example_program main routine =
     \<lparr>pg_main = main, pg_routine = routine, pg_thread_addr = example_thread_addr, pg_user_thread = 0x800\<rparr>"

text \<open>A program that does nothing.\<close>

definition no_actions :: program where
  "no_actions = example_program (\<lambda>k. k) (\<lambda>_ k. k)"

text \<open>The first time the program runs.\<close>

definition first_switch :: "program \<Rightarrow> (ModelChecker \<times> thread_id_t \<times> ModelChecker) option" where
  "first_switch pg = do {
     mc \<leftarrow> new_ModelChecker example_heap param_defaults (\<lambda>_. 0) (\<lambda>_. None);
     (t, ex) \<leftarrow> new_main_thread pg (mc_execution mc);
     mc' \<leftarrow> switch_from_master pg (mc\<lparr>mc_execution := ex\<rparr>) t;
     Some (mc\<lparr>mc_execution := ex\<rparr>, t, mc')
   }"

end
