(* ===== verification/ExecThreads.thy ===== *)
theory ExecThreads
  imports ExecRun ExecLists
begin

text \<open>
  The threads of an execution: the table of thread objects is well formed from the construction of
  the execution on and stays so when threads are created, and the tests for the end of an execution
  say what they mean.
\<close>

section \<open>The thread table\<close>

definition thread_table_wf :: "ModelExecution \<Rightarrow> bool" where
  "thread_table_wf ex \<longleftrightarrow>
     get_num_threads ex \<le> length (ex_thread_map ex) \<and> 0 < get_num_threads ex \<and> ex_model_thread ex = 0 \<and>
     (\<forall>i < get_num_threads ex.
        ex_thread_map ex ! i = Some i \<and> th_id (ex_threads ex i) = i \<and>
        (th_model_thread (ex_threads ex i) \<longleftrightarrow> i = 0) \<and>
        (\<forall>p. th_parent (ex_threads ex i) = Some p \<longrightarrow> p < i))"

lemma get_thread_wf: "thread_table_wf ex \<Longrightarrow> t < get_num_threads ex \<Longrightarrow> get_thread ex t = Some t"
  by (simp add: thread_table_wf_def get_thread_def id_to_int_def)

lemma new_ModelExecution_threads:
  "\<exists>ex. new_ModelExecution h params s ns = Some ex \<and> thread_table_wf ex \<and> get_num_threads ex = 1"
  by (simp add: new_ModelExecution_def Execution_add_thread_def get_next_id_def new_model_Thread_def
      new_model_snapshot_members_def thread_table_wf_def get_num_threads_def id_to_int_def Let_def)

text \<open>Adding the next thread.\<close>

definition same_threads :: "ModelExecution \<Rightarrow> ModelExecution \<Rightarrow> bool" where
  "same_threads ex ex' \<longleftrightarrow>
     ex_thread_map ex' = ex_thread_map ex \<and> get_num_threads ex' = get_num_threads ex \<and>
     ex_model_thread ex' = ex_model_thread ex \<and> ex_threads ex' = ex_threads ex"

lemma same_threads_wf: "same_threads ex ex' \<Longrightarrow> thread_table_wf ex' = thread_table_wf ex"
  by (simp add: same_threads_def thread_table_wf_def)

lemma same_threads_frames:
  "same_threads ex (put_prom ex p pr)" "same_threads ex (set_failed_promise ex)"
  "same_threads ex (check_promises_thread_disabled ex)" "same_threads ex (with_scheduler ex r)"
  "same_threads ex (put_act ex act a)" "same_threads ex (put_node ex n node)"
  by (simp_all add: same_threads_def put_prom_def set_failed_promise_def check_promises_thread_disabled_def
      with_scheduler_def put_act_def put_node_def get_num_threads_def Let_def)

lemma same_threads_refl: "same_threads ex ex"
  by (simp add: same_threads_def)

lemma same_threads_trans: "same_threads ex ex1 \<Longrightarrow> same_threads ex1 ex2 \<Longrightarrow> same_threads ex ex2"
  by (simp add: same_threads_def)

lemma with_scheduler_sched [simp]: "ex_scheduler (with_scheduler ex r) = snd r"
  by (simp add: with_scheduler_def check_promises_thread_disabled_def set_failed_promise_def Let_def)

section \<open>Promises and a new thread\<close>

text \<open>The loop over the promises in \<open>THREAD_CREATE\<close>.\<close>

definition offer_child :: "thread_id_t \<Rightarrow> thread_id_t \<Rightarrow> promise_ref \<Rightarrow> ModelExecution \<Rightarrow> ModelExecution" where
  "offer_child creator tid p ex =
     (if thread_is_available (ex_proms ex p) creator
      then put_prom ex p (Promise_add_thread (ex_proms ex p) tid) else ex)"

lemma offer_children:
  assumes "creator \<noteq> tid" and "distinct ps"
  shows "(let ex' = fold (offer_child creator tid) ps ex
          in same_threads ex ex' \<and> ex_acts ex' = ex_acts ex \<and> ex_promises ex' = ex_promises ex \<and>
             ex_scheduler ex' = ex_scheduler ex \<and> ex_thrd_priv ex' = ex_thrd_priv ex \<and>
             (\<forall>p. ex_proms ex' p =
                (if p \<in> set ps \<and> thread_is_available (ex_proms ex p) creator
                 then Promise_add_thread (ex_proms ex p) tid else ex_proms ex p)))"
  using assms(2)
proof (induction ps arbitrary: ex)
  case Nil
  then show ?case by (simp add: same_threads_refl)
next
  case (Cons p ps)
  let ?ex1 = "offer_child creator tid p ex"
  have f: "same_threads ex ?ex1" "ex_acts ?ex1 = ex_acts ex" "ex_promises ?ex1 = ex_promises ex"
    "ex_scheduler ?ex1 = ex_scheduler ex" "ex_thrd_priv ?ex1 = ex_thrd_priv ex"
    "\<And>q. ex_proms ?ex1 q = (if q = p \<and> thread_is_available (ex_proms ex p) creator
        then Promise_add_thread (ex_proms ex p) tid else ex_proms ex q)"
    by (simp_all add: offer_child_def same_threads_refl same_threads_frames) (simp_all add: put_prom_def)
  show ?case using Cons.IH [of ?ex1] Cons.prems f same_threads_trans [OF f(1)] by (auto simp: Let_def)
qed

lemma offer_child_fold:
  "fold (\<lambda>p ex. if thread_is_available (ex_proms ex p) (ma_tid (ex_acts ex cur))
              then put_prom ex p (Promise_add_thread (ex_proms ex p) tid) else ex) ps ex =
   fold (offer_child (ma_tid (ex_acts ex cur)) tid) ps ex"
proof (induction ps arbitrary: ex)
  case (Cons p ps)
  have "ex_acts (offer_child c tid p ex) = ex_acts ex" for c by (simp add: offer_child_def put_prom_def)
  then show ?case using Cons.IH [of "offer_child (ma_tid (ex_acts ex cur)) tid p ex"] by (simp add: offer_child_def)
qed simp

lemma thread_create_effect:
  assumes "thread_table_wf ex" and "ma_tid (ex_acts ex cur) < get_num_threads ex"
    and "distinct (ex_promises ex)"
  shows "\<exists>ex'. thread_create ex cur = Some ex' \<and> thread_table_wf ex' \<and> get_num_threads ex' = Suc (get_num_threads ex) \<and>
    status (ex_scheduler ex') (get_num_threads ex) = THREAD_ENABLED \<and>
    (\<forall>t. t \<noteq> get_num_threads ex \<longrightarrow> status (ex_scheduler ex') t = status (ex_scheduler ex) t \<and> ex_threads ex' t = ex_threads ex t) \<and>
    th_creation (ex_threads ex' (get_num_threads ex)) = Some cur \<and>
    th_parent (ex_threads ex' (get_num_threads ex)) = Some (ma_tid (ex_acts ex cur)) \<and>
    ex_thrd_priv ex' (ma_location (ex_acts ex cur)) = Some (get_num_threads ex) \<and>
    (\<forall>p. ex_proms ex' p =
       (if p \<in> set (ex_promises ex) \<and> thread_is_available (ex_proms ex p) (ma_tid (ex_acts ex cur))
        then Promise_add_thread (ex_proms ex p) (get_num_threads ex) else ex_proms ex p))"
proof -
  let ?n = "get_num_threads ex" and ?c = "ma_tid (ex_acts ex cur)"
  define ex1 where "ex1 = ex\<lparr>ex_priv := (ex_priv ex)\<lparr>ms_next_thread_id := ?n + 1\<rparr>\<rparr>"
  have id: "get_next_id ex = (?n, ex1)" by (simp add: get_next_id_def ex1_def get_num_threads_def)
  have par: "get_thread_of ex1 cur = Some ?c"
    using get_thread_wf [OF assms(1,2)] by (simp add: get_thread_of_def ex1_def get_thread_def Let_def split: if_splits)
  define th where "th = fst (new_Thread (ex_thrd_priv ex1) ?n (ma_location (ex_acts ex1 cur)) (Some ?c))"
  define priv where "priv = snd (new_Thread (ex_thrd_priv ex1) ?n (ma_location (ex_acts ex1 cur)) (Some ?c))"
  define ex2 where "ex2 = (put_thread ex1 ?n th)\<lparr>ex_thrd_priv := priv\<rparr>"
  define m where "m = (if ?n \<ge> length (ex_thread_map ex) then resize (ex_thread_map ex) (?n + 1) None else ex_thread_map ex)"
  define ex3 where "ex3 = with_scheduler (ex2\<lparr>ex_thread_map := m[?n := Some ?n]\<rparr>) (set_enabled (ex_scheduler ex) ?n THREAD_ENABLED)"
  have th: "th_id th = ?n" "\<not> th_model_thread th" "th_parent th = Some ?c" "priv = (ex_thrd_priv ex)(ma_location (ex_acts ex cur) \<mapsto> ?n)"
    by (simp_all add: th_def priv_def new_Thread_def ex1_def)
  have add: "Execution_add_thread ex2 ?n = Some ex3"
    using th(2) by (simp add: Execution_add_thread_def ex3_def m_def Scheduler_add_thread_def ex2_def put_thread_def ex1_def
        id_to_int_def Let_def)
  define ex4 where "ex4 = put_thread ex3 ?n ((ex_threads ex3 ?n)\<lparr>th_creation := Some cur\<rparr>)"
  define ex' where "ex' = fold (offer_child ?c ?n) (ex_promises ex) ex4"
  have ex4: "ex_thread_map ex4 = m[?n := Some ?n]" "get_num_threads ex4 = Suc ?n" "ex_model_thread ex4 = ex_model_thread ex"
    "ex_threads ex4 = (ex_threads ex)(?n := th\<lparr>th_creation := Some cur\<rparr>)" "ex_promises ex4 = ex_promises ex"
    "ex_proms ex4 = ex_proms ex" "ex_acts ex4 = ex_acts ex" "ex_thrd_priv ex4 = priv"
    "ex_scheduler ex4 = snd (set_enabled (ex_scheduler ex) ?n THREAD_ENABLED)"
    by (simp_all add: ex4_def ex3_def ex2_def ex1_def put_thread_def with_scheduler_def get_num_threads_def set_enabled_def Let_def)
  have len: "?n < length (m[?n := Some ?n])" by (simp add: m_def)
  have old: "m[?n := Some ?n] ! i = ex_thread_map ex ! i" if "i < ?n" for i
    using that assms(1) by (auto simp: m_def thread_table_wf_def nth_resize)
  have wf4: "thread_table_wf ex4"
    using assms(1,2) old len th by (auto simp: thread_table_wf_def ex4 less_Suc_eq)
  have run: "thread_create ex cur = Some ex'"
    unfolding thread_create_def id Let_def prod.case par
    using add by (simp add: ex2_def th_def priv_def split_beta ex4_def ex'_def offer_child_fold ex4(5,7) [unfolded ex4_def])
  have "?c \<noteq> ?n" using assms(2) by simp
  from offer_children [OF this assms(3), of ex4, folded ex'_def] have ex':
    "same_threads ex4 ex'" "ex_scheduler ex' = ex_scheduler ex4" "ex_thrd_priv ex' = ex_thrd_priv ex4"
    "\<And>p. ex_proms ex' p = (if p \<in> set (ex_promises ex) \<and> thread_is_available (ex_proms ex4 p) ?c
       then Promise_add_thread (ex_proms ex4 p) ?n else ex_proms ex4 p)"
    by (simp_all add: Let_def)
  have "thread_table_wf ex'" using same_threads_wf [OF ex'(1)] wf4 by simp
  then show ?thesis
    using run ex' ex4 th by (intro exI [of _ ex']) (auto simp: same_threads_def status_set_enabled)
qed

section \<open>End of an execution\<close>

lemma deadlock_loop_result:
  assumes "thread_table_wf ex" and "set ts \<subseteq> {0..<get_num_threads ex}"
  shows "deadlock_loop ex ts b =
    Some ((\<forall>t \<in> set ts. \<not> Execution_is_enabled ex t) \<and>
          (b \<or> (\<exists>t \<in> set ts. t \<noteq> 0 \<and> th_pending (ex_threads ex t) \<noteq> None)))"
  using assms(2)
proof (induction ts arbitrary: b)
  case (Cons t ts)
  then have t: "t < get_num_threads ex" by simp
  have m: "th_model_thread (ex_threads ex t) \<longleftrightarrow> t = 0" using assms(1) t by (simp add: thread_table_wf_def)
  show ?case using Cons get_thread_wf [OF assms(1) t] by (auto simp: int_to_id_def m)
qed simp

lemma yield_pending_loop_result:
  assumes "thread_table_wf ex" and "set ts \<subseteq> {0..<get_num_threads ex}"
  shows "yield_pending_loop ex ts =
    Some (\<exists>t \<in> set ts. \<exists>p. th_pending (ex_threads ex t) = Some p \<and> is_yield (ex_acts ex p))"
  using assms(2)
proof (induction ts)
  case (Cons t ts)
  then have t: "t < get_num_threads ex" by simp
  show ?case using Cons get_thread_wf [OF assms(1) t] by (auto simp: int_to_id_def split: option.split)
qed simp

lemma end_test_results:
  assumes "thread_table_wf ex"
  shows "is_deadlocked ex =
      Some ((\<forall>t < get_num_threads ex. status (ex_scheduler ex) t = THREAD_DISABLED) \<and>
            (\<exists>t < get_num_threads ex. t \<noteq> 0 \<and> th_pending (ex_threads ex t) \<noteq> None))"
    and "is_yieldblocked ex =
      Some (mp_yieldblock (ex_params ex) \<and>
            (\<exists>t < get_num_threads ex. \<exists>p. th_pending (ex_threads ex t) = Some p \<and> is_yield (ex_acts ex p)))"
    and "is_complete_execution ex =
      Some (\<not> (mp_yieldblock (ex_params ex) \<and>
            (\<exists>t < get_num_threads ex. \<exists>p. th_pending (ex_threads ex t) = Some p \<and> is_yield (ex_acts ex p))) \<and>
          (\<forall>t < get_num_threads ex. status (ex_scheduler ex) t = THREAD_DISABLED))"
proof -
  show "is_deadlocked ex =
      Some ((\<forall>t < get_num_threads ex. status (ex_scheduler ex) t = THREAD_DISABLED) \<and>
            (\<exists>t < get_num_threads ex. t \<noteq> 0 \<and> th_pending (ex_threads ex t) \<noteq> None))"
    using deadlock_loop_result [OF assms, of "[0..<get_num_threads ex]" False]
    by (auto simp: is_deadlocked_def Execution_is_enabled_def Scheduler_is_enabled_status)
  show y: "is_yieldblocked ex = Some (mp_yieldblock (ex_params ex) \<and>
      (\<exists>t < get_num_threads ex. \<exists>p. th_pending (ex_threads ex t) = Some p \<and> is_yield (ex_acts ex p)))"
    using yield_pending_loop_result [OF assms, of "[0..<get_num_threads ex]"] by (auto simp: is_yieldblocked_def)
  show "is_complete_execution ex =
      Some (\<not> (mp_yieldblock (ex_params ex) \<and>
            (\<exists>t < get_num_threads ex. \<exists>p. th_pending (ex_threads ex t) = Some p \<and> is_yield (ex_acts ex p))) \<and>
          (\<forall>t < get_num_threads ex. status (ex_scheduler ex) t = THREAD_DISABLED))"
    using y by (auto simp: is_complete_execution_def Execution_is_enabled_def Scheduler_is_enabled_status int_to_id_def)
qed

section \<open>Properties\<close>

text \<open>
  (C26) The thread table is well formed in a new execution and stays so when a thread is created:
  every id below the number of threads maps to a thread object with that id, only thread 0 is the
  model thread, and parents have smaller ids. The new thread gets the next id, is enabled, belongs to
  the creating thread, and may resolve exactly those pending promises that its creator may resolve.
\<close>

theorem thread_table_type:
  assumes "thread_table_wf ex" and "ma_tid (ex_acts ex cur) < get_num_threads ex" and "distinct (ex_promises ex)"
    and "\<forall>p \<in> set (ex_promises ex). \<not> thread_is_available (ex_proms ex p) (get_num_threads ex)"
  shows "(\<exists>ex0. new_ModelExecution h params s ns = Some ex0 \<and> thread_table_wf ex0) \<and>
    (\<exists>ex'. thread_create ex cur = Some ex' \<and> thread_table_wf ex' \<and> get_num_threads ex' = Suc (get_num_threads ex) \<and>
      status (ex_scheduler ex') (get_num_threads ex) = THREAD_ENABLED \<and>
      (\<forall>t. t \<noteq> get_num_threads ex \<longrightarrow>
         status (ex_scheduler ex') t = status (ex_scheduler ex) t \<and> ex_threads ex' t = ex_threads ex t) \<and>
      th_creation (ex_threads ex' (get_num_threads ex)) = Some cur \<and>
      th_parent (ex_threads ex' (get_num_threads ex)) = Some (ma_tid (ex_acts ex cur)) \<and>
      (\<forall>p \<in> set (ex_promises ex). \<forall>t. thread_is_available (ex_proms ex' p) t \<longleftrightarrow>
         (if t = get_num_threads ex then thread_is_available (ex_proms ex p) (ma_tid (ex_acts ex cur))
          else thread_is_available (ex_proms ex p) t)))"
proof -
  from thread_create_effect [OF assms(1-3)] obtain ex' where
    "thread_create ex cur = Some ex'" "thread_table_wf ex'" "get_num_threads ex' = Suc (get_num_threads ex)"
    "status (ex_scheduler ex') (get_num_threads ex) = THREAD_ENABLED"
    "\<forall>t. t \<noteq> get_num_threads ex \<longrightarrow> status (ex_scheduler ex') t = status (ex_scheduler ex) t \<and> ex_threads ex' t = ex_threads ex t"
    "th_creation (ex_threads ex' (get_num_threads ex)) = Some cur"
    "th_parent (ex_threads ex' (get_num_threads ex)) = Some (ma_tid (ex_acts ex cur))"
    "\<forall>p. ex_proms ex' p =
       (if p \<in> set (ex_promises ex) \<and> thread_is_available (ex_proms ex p) (ma_tid (ex_acts ex cur))
        then Promise_add_thread (ex_proms ex p) (get_num_threads ex) else ex_proms ex p)" by blast
  moreover have "\<exists>ex0. new_ModelExecution h params s ns = Some ex0 \<and> thread_table_wf ex0"
    using new_ModelExecution_threads [of h params s ns] by blast
  ultimately show ?thesis
    using assms(4) by (auto simp: Promise_add_thread_available)
qed

text \<open>
  (C27) The tests at the end of an execution. There is a deadlock exactly if no thread is enabled
  and some user thread still has a pending action; the execution counts as yield-blocked exactly if
  the option is on and some thread, not necessarily every thread, is about to yield; it is complete
  exactly if it is not yield-blocked and no thread is enabled.
\<close>

theorem execution_end_tests:
  assumes "thread_table_wf ex"
  shows "is_deadlocked ex =
      Some ((\<forall>t < get_num_threads ex. status (ex_scheduler ex) t = THREAD_DISABLED) \<and>
            (\<exists>t < get_num_threads ex. t \<noteq> 0 \<and> th_pending (ex_threads ex t) \<noteq> None)) \<and>
    is_yieldblocked ex =
      Some (mp_yieldblock (ex_params ex) \<and>
            (\<exists>t < get_num_threads ex. \<exists>p. th_pending (ex_threads ex t) = Some p \<and> is_yield (ex_acts ex p))) \<and>
    is_complete_execution ex =
      Some (\<not> (mp_yieldblock (ex_params ex) \<and>
            (\<exists>t < get_num_threads ex. \<exists>p. th_pending (ex_threads ex t) = Some p \<and> is_yield (ex_acts ex p))) \<and>
          (\<forall>t < get_num_threads ex. status (ex_scheduler ex) t = THREAD_DISABLED))"
  using end_test_results [OF assms] by blast

section \<open>Concrete cases\<close>

lemma example_exec_threads:
  "thread_table_wf ((example_exec acts trace objs thrds lasts)\<lparr>ex_threads := (\<lambda>t. (new_model_Thread t)\<lparr>th_model_thread := t = 0\<rparr>)\<rparr>)"
  by (auto simp: thread_table_wf_def example_exec_def get_num_threads_def new_model_snapshot_members_def new_model_Thread_def
      less_Suc_eq numeral_2_eq_2)

theorem thread_table_type_witness:
  "\<exists>ex'. thread_create ((example_exec (\<lambda>_. example_action THREAD_CREATE memory_order_seq_cst) [] Map.empty Map.empty [None])
      \<lparr>ex_threads := (\<lambda>t. (new_model_Thread t)\<lparr>th_model_thread := t = 0\<rparr>)\<rparr>) 0 = Some ex' \<and>
    get_num_threads ex' = 3 \<and> status (ex_scheduler ex') 2 = THREAD_ENABLED"
proof -
  let ?ex = "(example_exec (\<lambda>_. example_action THREAD_CREATE memory_order_seq_cst) [] Map.empty Map.empty [None])
      \<lparr>ex_threads := (\<lambda>t. (new_model_Thread t)\<lparr>th_model_thread := t = 0\<rparr>)\<rparr>"
  have n: "get_num_threads ?ex = 2" by (simp add: example_exec_def get_num_threads_def)
  have "ma_tid (ex_acts ?ex 0) < get_num_threads ?ex" "distinct (ex_promises ?ex)"
    "\<forall>p \<in> set (ex_promises ?ex). \<not> thread_is_available (ex_proms ?ex p) (get_num_threads ?ex)"
    unfolding n by (simp_all add: example_exec_def example_action_def)
  from conjunct2 [OF thread_table_type [OF example_exec_threads this]] show ?thesis unfolding n by auto
qed

theorem execution_end_tests_witness:
  "is_deadlocked ((example_exec (\<lambda>_. example_action ATOMIC_LOCK memory_order_seq_cst) [] Map.empty Map.empty [None])
      \<lparr>ex_threads := (\<lambda>t. (new_model_Thread t)\<lparr>th_model_thread := t = 0\<rparr>)\<rparr>) = Some False"
proof -
  let ?ex = "(example_exec (\<lambda>_. example_action ATOMIC_LOCK memory_order_seq_cst) [] Map.empty Map.empty [None])
      \<lparr>ex_threads := (\<lambda>t. (new_model_Thread t)\<lparr>th_model_thread := t = 0\<rparr>)\<rparr>"
  have "1 < get_num_threads ?ex" "status (ex_scheduler ?ex) 1 = THREAD_ENABLED"
    by (simp_all add: example_exec_def get_num_threads_def status_def)
  then show ?thesis using conjunct1 [OF execution_end_tests [OF example_exec_threads]] by fastforce
qed

end
