(* ===== verification/CheckerRun.thy ===== *)
theory CheckerRun
  imports Programs ExecThreads
begin

text \<open>
  Properties of the exploration loop of \<open>model.cc\<close>: what the code of a thread can change, that
  every execution starts from the same state, the accounting of executions, the snapshot stack, and
  how an execution ends.
\<close>

section \<open>What the code of a thread can change\<close>

text \<open>
  The parts of an execution that the code of a thread never writes: all but the actions, the thread
  objects, the mutexes, the race records, the bugs with the assertion flag, and the current thread.
\<close>

definition checker_part where
  "checker_part ex =
     ((ex_proms ex, ex_next_prom ex, ex_thrd_priv ex, ex_thread_at ex, ex_params ex),
      (sc_enabled (ex_scheduler ex), sc_curr_thread_index (ex_scheduler ex)),
      (ex_action_trace ex, ex_thread_map ex, ex_obj_map ex, ex_condvar_waiters_map ex, ex_obj_thrd_map ex),
      (ex_promises ex, ex_futurevalues ex, ex_pending_rel_seqs ex, ex_thrd_last_action ex, ex_thrd_last_fence_release ex),
      (ex_node_stack ex, ex_model_thread ex, ex_mo_graph ex),
      (ms_next_thread_id (ex_priv ex), ms_used_sequence_numbers (ex_priv ex), ms_next_backtrack (ex_priv ex)),
      (ms_failed_promise (ex_priv ex), ms_hard_failed_promise (ex_priv ex), ms_too_many_reads (ex_priv ex),
       ms_no_valid_reads (ex_priv ex), ms_bad_synchronization (ex_priv ex), ms_bad_sc_read (ex_priv ex)))"

text \<open>What the code of thread \<open>t\<close> leaves alone; of its thread object it changes two fields.\<close>

definition same_execution :: "thread_id_t \<Rightarrow> ModelExecution \<Rightarrow> ModelExecution \<Rightarrow> bool" where
  "same_execution t ex ex' \<longleftrightarrow>
     checker_part ex' = checker_part ex \<and>
     ex_next_act ex \<le> ex_next_act ex' \<and> (\<forall>a < ex_next_act ex. ex_acts ex' a = ex_acts ex a) \<and>
     (\<forall>u. u \<noteq> t \<longrightarrow> ex_threads ex' u = ex_threads ex u) \<and>
     (\<exists>p s. ex_threads ex' t = (ex_threads ex t)\<lparr>th_pending := p, th_state := s\<rparr>) \<and>
     (has_asserted ex \<longrightarrow> has_asserted ex')"

definition control_part where
  "control_part mc =
     (mc_params mc, mc_restart_flag mc, mc_exit_flag mc, mc_execution_number mc, mc_stats mc, mc_snapshots mc)"

definition same_checker :: "thread_id_t \<Rightarrow> ModelChecker \<Rightarrow> ModelChecker \<Rightarrow> bool" where
  "same_checker t mc mc' \<longleftrightarrow>
     control_part mc' = control_part mc \<and> mc_diverge mc' = mc_diverge mc \<and> mc_earliest_diverge mc' = mc_earliest_diverge mc \<and>
     (\<forall>u. u \<noteq> t \<longrightarrow> mc_context mc' u = mc_context mc u) \<and>
     same_execution t (mc_execution mc) (mc_execution mc')"

lemma thread_unchanged [simp]: "\<exists>p s. th = th\<lparr>th_pending := p, th_state := s\<rparr>"
proof -
  have "th = th\<lparr>th_pending := th_pending th, th_state := th_state th\<rparr>" by simp
  then show ?thesis by blast
qed

lemma thread_state_changed [simp]: "\<exists>p s. th\<lparr>th_state := x\<rparr> = th\<lparr>th_pending := p, th_state := s\<rparr>"
proof -
  have "th\<lparr>th_state := x\<rparr> = th\<lparr>th_pending := th_pending th, th_state := x\<rparr>" by simp
  then show ?thesis by blast
qed

lemma same_executionI:
  assumes "checker_part ex' = checker_part ex" and "ex_threads ex' = ex_threads ex"
    and "ex_next_act ex' = ex_next_act ex" and "ex_acts ex' = ex_acts ex" and "has_asserted ex \<Longrightarrow> has_asserted ex'"
  shows "same_execution t ex ex'"
  using assms by (simp add: same_execution_def)

lemma same_execution_refl [simp]: "same_execution t ex ex"
  by (simp add: same_executionI)

lemma same_execution_trans [trans]:
  assumes "same_execution t ex ex'" and "same_execution t ex' ex''"
  shows "same_execution t ex ex''"
proof -
  note a = assms(1) [unfolded same_execution_def] and b = assms(2) [unfolded same_execution_def]
  from a obtain p s where 1: "ex_threads ex' t = (ex_threads ex t)\<lparr>th_pending := p, th_state := s\<rparr>" by blast
  from b obtain p' s' where "ex_threads ex'' t = (ex_threads ex' t)\<lparr>th_pending := p', th_state := s'\<rparr>" by blast
  then have "ex_threads ex'' t = (ex_threads ex t)\<lparr>th_pending := p', th_state := s'\<rparr>" by (simp add: 1)
  then show ?thesis unfolding same_execution_def using a b by auto
qed

lemma same_checker_refl [simp]: "same_checker t mc mc"
  by (simp add: same_checker_def)

lemma same_checker_trans [trans]: "same_checker t mc mc' \<Longrightarrow> same_checker t mc' mc'' \<Longrightarrow> same_checker t mc mc''"
  unfolding same_checker_def by (auto intro: same_execution_trans)

lemma same_checker_execution:
  "same_execution t (mc_execution mc) ex \<Longrightarrow>
   same_checker t mc (mc\<lparr>mc_execution := ex, mc_mem := m, mc_shadow := r\<rparr>)"
  by (simp add: same_checker_def control_part_def)

text \<open>Reporting a bug.\<close>

lemma isfeasibleprefix_part: "checker_part ex' = checker_part ex \<Longrightarrow> isfeasibleprefix ex' = isfeasibleprefix ex"
  by (simp add: checker_part_def isfeasibleprefix_def is_feasible_prefix_ignore_relseq_def is_infeasible_def promises_expired_def)

lemma get_num_threads_part: "checker_part ex' = checker_part ex \<Longrightarrow> get_num_threads ex' = get_num_threads ex"
  by (simp add: checker_part_def get_num_threads_def)

lemma assert_bug_effect:
  "checker_part (snd (assert_bug ex msg)) = checker_part ex" "fst (assert_bug ex msg) = isfeasibleprefix ex"
  "ex_threads (snd (assert_bug ex msg)) = ex_threads ex" "ex_acts (snd (assert_bug ex msg)) = ex_acts ex"
  "ex_next_act (snd (assert_bug ex msg)) = ex_next_act ex" "ex_races (snd (assert_bug ex msg)) = ex_races ex"
  "sc_current (ex_scheduler (snd (assert_bug ex msg))) = sc_current (ex_scheduler ex)"
  "has_asserted (snd (assert_bug ex msg)) \<longleftrightarrow> has_asserted ex \<or> isfeasibleprefix ex"
proof -
  have f: "isfeasibleprefix (ex\<lparr>ex_priv := (ex_priv ex)\<lparr>ms_bugs := b\<rparr>\<rparr>) = isfeasibleprefix ex" for b
    by (rule isfeasibleprefix_part) (simp add: checker_part_def)
  show "checker_part (snd (assert_bug ex msg)) = checker_part ex" "fst (assert_bug ex msg) = isfeasibleprefix ex"
    "ex_threads (snd (assert_bug ex msg)) = ex_threads ex" "ex_acts (snd (assert_bug ex msg)) = ex_acts ex"
    "ex_next_act (snd (assert_bug ex msg)) = ex_next_act ex" "ex_races (snd (assert_bug ex msg)) = ex_races ex"
    "sc_current (ex_scheduler (snd (assert_bug ex msg))) = sc_current (ex_scheduler ex)"
    "has_asserted (snd (assert_bug ex msg)) \<longleftrightarrow> has_asserted ex \<or> isfeasibleprefix ex"
    by (simp_all add: assert_bug_def Let_def set_assert_def has_asserted_def checker_part_def f)
qed

lemma same_execution_bug: "same_execution t ex (snd (assert_bug ex msg))"
  by (simp add: same_executionI assert_bug_effect)

lemma assert_races_effect:
  "same_execution t ex (assert_races ex rs)" "sc_current (ex_scheduler (assert_races ex rs)) = sc_current (ex_scheduler ex)"
  "isfeasibleprefix ex \<Longrightarrow> length (rs_asserted (ex_races ex)) < length (rs_asserted rs) \<Longrightarrow> has_asserted (assert_races ex rs)"
proof -
  define races where "races = drop (length (rs_asserted (ex_races ex))) (rs_asserted rs)"
  let ?fold = "\<lambda>ex. fold (\<lambda>race ex. snd (assert_bug ex (BugRace race))) races ex"
  have f: "same_execution t ex (?fold ex) \<and> sc_current (ex_scheduler (?fold ex)) = sc_current (ex_scheduler ex) \<and>
      (isfeasibleprefix ex \<and> races \<noteq> [] \<longrightarrow> has_asserted (?fold ex))" for ex
  proof (induction races arbitrary: ex)
    case (Cons r races)
    let ?ex = "snd (assert_bug ex (BugRace r))"
    have a: "isfeasibleprefix ex \<Longrightarrow> has_asserted ?ex" by (simp add: assert_bug_effect)
    then show ?case
      using Cons [of ?ex] same_execution_bug [of t ex "BugRace r"]
      by (auto simp: assert_bug_effect same_execution_def intro: same_execution_trans)
  qed simp
  have e: "same_execution t ex (ex\<lparr>ex_races := rs\<rparr>)" "isfeasibleprefix (ex\<lparr>ex_races := rs\<rparr>) = isfeasibleprefix ex"
    by (auto intro!: same_executionI isfeasibleprefix_part simp: checker_part_def has_asserted_def)
  show "same_execution t ex (assert_races ex rs)" "sc_current (ex_scheduler (assert_races ex rs)) = sc_current (ex_scheduler ex)"
    "isfeasibleprefix ex \<Longrightarrow> length (rs_asserted (ex_races ex)) < length (rs_asserted rs) \<Longrightarrow> has_asserted (assert_races ex rs)"
    using f [of "ex\<lparr>ex_races := rs\<rparr>"] e same_execution_trans by (auto simp: assert_races_def races_def)
qed

text \<open>A race check that leaves the thread has asserted a race in a feasible execution.\<close>

definition asserts :: "race_env \<Rightarrow> race_state \<Rightarrow> 'a checked \<Rightarrow> bool" where
  "asserts env st m \<longleftrightarrow>
     (\<forall>rs. m = Some (Inl rs) \<longrightarrow> re_isfeasibleprefix env \<and> length (rs_asserted st) < length (rs_asserted rs)) \<and>
     (\<forall>x rs. m = Some (Inr (x, rs)) \<longrightarrow> length (rs_asserted st) \<le> length (rs_asserted rs))"

lemma asserts_simps [simp]: "asserts env st None" "asserts env st (Some (Inr (x, st)))"
  by (simp_all add: asserts_def)

lemma asserts_bind: "(\<And>x. asserts env st (f x)) \<Longrightarrow> asserts env st (Option.bind m f)"
  by (cases m) simp_all

lemma asserts_and_then:
  assumes "asserts env st m" and "\<And>x st'. asserts env st' (f x st')"
  shows "asserts env st (and_then m f)"
proof (cases m)
  case (Some r)
  then show ?thesis
  proof (cases r)
    case (Inr p)
    obtain x st' where p: "p = (x, st')" by force
    have "length (rs_asserted st) \<le> length (rs_asserted st')" using assms(1) Some Inr p by (simp add: asserts_def)
    then show ?thesis using assms(2) [of st' x] Some Inr p unfolding asserts_def and_then_def by fastforce
  qed (use assms(1) Some in \<open>simp add: asserts_def and_then_def\<close>)
qed (simp add: and_then_def)

lemma realize_races_asserted:
  "realize_races acts races b st = Some (b', st') \<Longrightarrow>
   length (rs_asserted st) \<le> length (rs_asserted st') \<and> (b' \<longrightarrow> b \<or> length (rs_asserted st) < length (rs_asserted st'))"
proof (induction races arbitrary: b st)
  case (Cons race races)
  obtain cv where cv: "ma_cv (acts (dr_newaction race)) = Some cv" using Cons.prems by (auto split: Option.bind_splits)
  show ?case
  proof (cases "clock_may_race cv (ma_tid (acts (dr_newaction race))) (dr_oldclock race) (dr_oldthread race)")
    case True
    then show ?thesis using Cons.prems Cons.IH [of True "assert_race race st"] cv by (simp add: assert_race_def)
  next
    case False
    then show ?thesis using Cons.prems Cons.IH [of b st] cv by simp
  qed
qed simp

lemma asserts_report_race: "asserts env st (report_race env thread location currClock w old w' st)"
proof -
  have "asserts env st (reportDataRace env race st)" for race
    using realize_races_asserted [of "re_acts env" _ False]
    by (fastforce simp: asserts_def reportDataRace_def checkDataRaces_def split: Option.bind_splits if_splits)
  then show ?thesis by (simp add: report_race_def split: prod.split)
qed

lemma asserts_write_vs_reads: "asserts env st (write_vs_reads env thread location currClock record is st)"
  by (induction "is" arbitrary: st) (auto intro!: asserts_bind asserts_and_then asserts_report_race)

lemma asserts_full:
  "asserts env st (fullRaceCheckWrite env thread location record currClock st)"
  "asserts env st (fullRaceCheckRead env thread location record currClock st)"
  by (auto simp: fullRaceCheckWrite_def fullRaceCheckRead_def Let_def split: prod.split
      intro!: asserts_and_then asserts_report_race asserts_write_vs_reads asserts_bind)

lemma asserts_raceCheck:
  "asserts env st (raceCheckWrite env thread location entry st)"
  "asserts env st (raceCheckRead env thread location entry st)"
  by (auto simp: raceCheckWrite_def raceCheckRead_def Let_def split: shadow.split
      intro!: asserts_and_then asserts_report_race asserts_full)

section \<open>Switching between a thread and the checker\<close>

lemma switch_to_master_effect:
  assumes "switch_to_master mc act k = Some mc'" and "sc_current (ex_scheduler (mc_execution mc)) = Some t"
  shows "same_checker t mc mc'" and "sc_current (ex_scheduler (mc_execution mc')) = None"
    and "th_pending (ex_threads (mc_execution mc') t) = act" and "th_state (ex_threads (mc_execution mc') t) = THREAD_READY"
    and "mc_context mc' t = Some k" and "ex_acts (mc_execution mc') = ex_acts (mc_execution mc)"
    and "has_asserted (mc_execution mc') = has_asserted (mc_execution mc)"
proof -
  let ?ex = "mc_execution mc"
  have mc': "mc' = mc\<lparr>mc_execution := put_thread (?ex\<lparr>ex_scheduler := (ex_scheduler ?ex)\<lparr>sc_current := None\<rparr>\<rparr>) t
        ((ex_threads ?ex t)\<lparr>th_pending := act, th_state := THREAD_READY\<rparr>), mc_context := (mc_context mc)(t \<mapsto> k)\<rparr>"
    using assms by (auto simp: switch_to_master_def get_current_thread_def set_current_thread_def swap_to_system_def
        set_state_def Let_def split: Option.bind_splits if_splits)
  show "same_checker t mc mc'"
    unfolding mc' same_checker_def same_execution_def
    by (auto simp: control_part_def checker_part_def put_thread_def has_asserted_def)
  show "sc_current (ex_scheduler (mc_execution mc')) = None" "th_pending (ex_threads (mc_execution mc') t) = act"
    "th_state (ex_threads (mc_execution mc') t) = THREAD_READY" "mc_context mc' t = Some k"
    "ex_acts (mc_execution mc') = ex_acts ?ex" "has_asserted (mc_execution mc') = has_asserted ?ex"
    unfolding mc' by (simp_all add: put_thread_def has_asserted_def)
qed

text \<open>
  Thread \<open>t\<close> has given control back: it waits with a new action of its own that has not been
  processed, or with none because the execution is to be aborted.
\<close>

definition handed_over :: "thread_id_t \<Rightarrow> ModelExecution \<Rightarrow> ModelExecution \<Rightarrow> bool" where
  "handed_over t ex ex' \<longleftrightarrow>
     sc_current (ex_scheduler ex') = None \<and> th_state (ex_threads ex' t) = THREAD_READY \<and>
     (case th_pending (ex_threads ex' t) of
        None \<Rightarrow> has_asserted ex'
      | Some a \<Rightarrow> ex_next_act ex \<le> a \<and> a < ex_next_act ex' \<and> ma_tid (ex_acts ex' a) = t \<and>
                   ma_seq_number (ex_acts ex' a) = ACTION_INITIAL_CLOCK \<and> ma_node (ex_acts ex' a) = None)"

lemma race_check_effect:
  assumes "race_check check mc t a = Some r" and "sc_current (ex_scheduler (mc_execution mc)) = Some t"
    and "\<And>env e st. asserts env st (check env t a e st)"
  shows "case r of
      Inl mc' \<Rightarrow> same_checker t mc mc' \<and> handed_over t (mc_execution mc) (mc_execution mc')
    | Inr mc' \<Rightarrow> same_checker t mc mc' \<and> sc_current (ex_scheduler (mc_execution mc')) = Some t"
proof -
  let ?ex = "mc_execution mc"
  obtain root p where root: "lookupAddressEntry (mc_shadow mc) a = (root, p)"
    by (cases "lookupAddressEntry (mc_shadow mc) a")
  obtain e c where c: "check (exec_race_env ?ex) t a e (ex_races ?ex) = Some c"
    and r: "(case c of
        Inl rs \<Rightarrow> do {
          mc1 \<leftarrow> switch_to_master (mc\<lparr>mc_execution := assert_races ?ex rs, mc_shadow := root\<rparr>) None (\<lambda>_. Finished);
          Some (Inl mc1)
        }
      | Inr (e', rs) \<Rightarrow> do {
          root' \<leftarrow> write_entry root p e';
          Some (Inr (mc\<lparr>mc_execution := assert_races ?ex rs, mc_shadow := root'\<rparr>))
        }) = Some r"
    using assms(1) by (auto simp: race_check_def root Let_def split: Option.bind_splits)
  note ar = assert_races_effect(1) [of t ?ex] assert_races_effect(2) [of ?ex] assert_races_effect(3) [of ?ex]
  show ?thesis
  proof (cases c)
    case (Inl rs)
    let ?mc = "mc\<lparr>mc_execution := assert_races ?ex rs, mc_shadow := root\<rparr>"
    obtain mc' where sw: "switch_to_master ?mc None (\<lambda>_. Finished) = Some mc'" and r': "r = Inl mc'"
      using r Inl by (auto split: Option.bind_splits)
    have "has_asserted (assert_races ?ex rs)"
      using assms(3) [of "exec_race_env ?ex" "ex_races ?ex" e] c Inl ar(3) [of rs] by (simp add: asserts_def exec_race_env_def)
    moreover have "same_checker t mc ?mc" using ar(1) by (simp add: same_checker_def control_part_def)
    moreover have "sc_current (ex_scheduler (mc_execution ?mc)) = Some t" using ar(2) assms(2) by simp
    note sw' = switch_to_master_effect [OF sw this]
    ultimately show ?thesis using sw' r' same_checker_trans by (auto simp: handed_over_def)
  next
    case (Inr q)
    then show ?thesis
      using r ar(1,2) assms(2) by (auto simp: same_checker_def control_part_def split: prod.splits Option.bind_splits)
  qed
qed

lemma user_step_effect:
  assumes "user_step t op k mc = Some r" and cur: "sc_current (ex_scheduler (mc_execution mc)) = Some t"
  shows "case r of
      Inl mc' \<Rightarrow> same_checker t mc mc' \<and> handed_over t (mc_execution mc) (mc_execution mc')
    | Inr (v, mc') \<Rightarrow> same_checker t mc mc' \<and> sc_current (ex_scheduler (mc_execution mc')) = Some t"
proof (cases op)
  case (OpAction type order loc val)
  let ?ex = "mc_execution mc"
  obtain a where a: "new_ModelAction type order loc val t = Some a"
    and r: "do { mc1 \<leftarrow> switch_to_master (mc\<lparr>mc_execution := snd (alloc_act ?ex a)\<rparr>) (Some (fst (alloc_act ?ex a))) k; Some (Inl mc1) } = Some r"
    using assms(1) OpAction by (auto simp: user_step_def Let_def case_prod_beta split: Option.bind_splits)
  let ?mc = "mc\<lparr>mc_execution := snd (alloc_act ?ex a)\<rparr>"
  obtain mc' where sw: "switch_to_master ?mc (Some (fst (alloc_act ?ex a))) k = Some mc'" and r': "r = Inl mc'"
    using r by (auto split: Option.bind_splits)
  have "same_checker t mc ?mc"
    by (auto simp: same_checker_def control_part_def same_execution_def checker_part_def alloc_act_def put_act_def has_asserted_def)
  moreover have "ma_tid a = t" "ma_seq_number a = ACTION_INITIAL_CLOCK" "ma_node a = None"
    using a by (auto simp: new_ModelAction_def split: Option.bind_splits if_splits)
  moreover have "sc_current (ex_scheduler (mc_execution ?mc)) = Some t" using cur by (simp add: alloc_act_def put_act_def)
  note sw' = switch_to_master_effect [OF sw this]
  moreover have "ex_next_act (mc_execution mc') \<ge> ex_next_act (mc_execution ?mc)"
    using sw'(1) by (simp add: same_checker_def same_execution_def)
  ultimately show ?thesis
    using r' same_checker_trans [OF _ sw'(1)] by (auto simp: handed_over_def alloc_act_def put_act_def)
next
  case (OpBug msg)
  let ?ex = "mc_execution mc" and ?mc = "snd (Checker_assert_bug mc msg)"
  have b: "fst (Checker_assert_bug mc msg) = isfeasibleprefix ?ex" "mc_execution ?mc = snd (assert_bug ?ex (BugText (take 799 msg)))"
    "same_checker t mc ?mc" "sc_current (ex_scheduler (mc_execution ?mc)) = Some t"
    using same_execution_bug [of t ?ex] cur
    by (auto simp: Checker_assert_bug_def case_prod_beta assert_bug_effect same_checker_def control_part_def)
  show ?thesis
  proof (cases "isfeasibleprefix ?ex")
    case True
    obtain mc' where sw: "switch_to_master ?mc None k = Some mc'" and r': "r = Inl mc'"
      using assms(1) OpBug True b(1)
      by (auto simp: user_step_def assert_user_bug_def Let_def case_prod_beta split: Option.bind_splits)
    have "has_asserted (mc_execution ?mc)" using True by (simp add: b(2) assert_bug_effect)
    then show ?thesis
      using switch_to_master_effect [OF sw b(4)] r' b(3) same_checker_trans by (auto simp: handed_over_def)
  qed (use assms(1) OpBug b in \<open>auto simp: user_step_def assert_user_bug_def Let_def case_prod_beta\<close>)
next
  case (OpRaceRead a)
  then obtain r' where "race_check raceCheckRead mc t a = Some r'" "r = map_sum id (\<lambda>mc. (0, mc)) r'"
    using assms(1) by (auto simp: user_step_def Let_def)
  then show ?thesis using race_check_effect [OF _ cur asserts_raceCheck(2)] by (fastforce split: sum.splits)
next
  case (OpRaceWrite a)
  then obtain r' where "race_check raceCheckWrite mc t a = Some r'" "r = map_sum id (\<lambda>mc. (0, mc)) r'"
    using assms(1) by (auto simp: user_step_def Let_def)
  then show ?thesis using race_check_effect [OF _ cur asserts_raceCheck(1)] by (fastforce split: sum.splits)
next
  case (OpMutex a)
  then show ?thesis
    using assms by (auto simp: user_step_def Let_def same_checker_def control_part_def checker_part_def has_asserted_def
        intro!: same_executionI split: Option.bind_splits)
qed (use assms in \<open>auto simp: user_step_def same_checker_def control_part_def split: Option.bind_splits\<close>)

lemma run_user_effect:
  assumes "run_user t u mc = Some mc'" and "sc_current (ex_scheduler (mc_execution mc)) = Some t"
  shows "same_checker t mc mc' \<and> handed_over t (mc_execution mc) (mc_execution mc')"
proof -
  have "sc_current (ex_scheduler (mc_execution mc)) = Some t \<longrightarrow>
      same_checker t mc mc' \<and> handed_over t (mc_execution mc) (mc_execution mc')"
    using assms(1)
  proof (rule run_user.raw_induct [where P = "\<lambda>t u mc mc'. sc_current (ex_scheduler (mc_execution mc)) = Some t \<longrightarrow>
      same_checker t mc mc' \<and> handed_over t (mc_execution mc) (mc_execution mc')", rotated], intro impI)
    fix loop :: "thread_id_t \<Rightarrow> user \<Rightarrow> ModelChecker \<Rightarrow> ModelChecker option" and t u mc mc'
    assume IH: "\<And>t u mc mc'. loop t u mc = Some mc' \<Longrightarrow> sc_current (ex_scheduler (mc_execution mc)) = Some t \<longrightarrow>
        same_checker t mc mc' \<and> handed_over t (mc_execution mc) (mc_execution mc')"
      and res: "(case u of Finished \<Rightarrow> None | Op op k \<Rightarrow> Option.bind (user_step t op k mc) (\<lambda>r.
          case r of Inl mc1 \<Rightarrow> Some mc1 | Inr p \<Rightarrow> loop t (k (fst p)) (snd p))) = Some mc'"
      and cur: "sc_current (ex_scheduler (mc_execution mc)) = Some t"
    obtain op k r where u: "u = Op op k" and r: "user_step t op k mc = Some r"
      and rest: "(case r of Inl mc1 \<Rightarrow> Some mc1 | Inr p \<Rightarrow> loop t (k (fst p)) (snd p)) = Some mc'"
      using res by (auto split: user.splits Option.bind_splits)
    note step = user_step_effect [OF r cur]
    show "same_checker t mc mc' \<and> handed_over t (mc_execution mc) (mc_execution mc')"
    proof (cases r)
      case (Inr p)
      have one: "same_checker t mc (snd p)" "sc_current (ex_scheduler (mc_execution (snd p))) = Some t"
        using step Inr by (auto split: prod.splits)
      then have two: "same_checker t (snd p) mc'" "handed_over t (mc_execution (snd p)) (mc_execution mc')"
        using IH rest Inr by auto
      then have "handed_over t (mc_execution mc) (mc_execution mc')"
        using one(1) by (auto simp: handed_over_def same_checker_def same_execution_def split: option.splits)
      then show ?thesis using one two same_checker_trans by blast
    qed (use step rest in auto)
  qed
  then show ?thesis using assms(2) by blast
qed

lemma switch_from_master_effect:
  assumes "switch_from_master pg mc t = Some mc'"
  shows "same_checker t mc mc' \<and> handed_over t (mc_execution mc) (mc_execution mc')"
proof -
  let ?ex = "mc_execution mc"
  define mc1 where "mc1 = mc\<lparr>mc_execution := put_thread (?ex\<lparr>ex_scheduler := (ex_scheduler ?ex)\<lparr>sc_current := Some t\<rparr>\<rparr>) t
      ((ex_threads ?ex t)\<lparr>th_state := THREAD_RUNNING\<rparr>)\<rparr>"
  obtain u where run: "run_user t u mc1 = Some mc'"
    using assms unfolding mc1_def
    by (auto simp: switch_from_master_def set_current_thread_def swap_to_thread_def set_state_def Let_def
        split: Option.bind_splits if_splits)
  have "same_checker t mc mc1"
    unfolding same_checker_def same_execution_def
    by (auto simp: mc1_def control_part_def checker_part_def put_thread_def has_asserted_def)
  moreover have "sc_current (ex_scheduler (mc_execution mc1)) = Some t" by (simp add: mc1_def put_thread_def)
  note run_user_effect [OF run this]
  moreover have "ex_next_act (mc_execution mc1) = ex_next_act ?ex" by (simp add: mc1_def put_thread_def)
  ultimately show ?thesis using same_checker_trans by (auto simp: handed_over_def split: option.splits)
qed

section \<open>The control state during an execution\<close>

lemma control_part_simps [simp]:
  "control_part (mc\<lparr>mc_execution := ex\<rparr>) = control_part mc"
  "control_part (mc\<lparr>mc_diverge := d\<rparr>) = control_part mc"
  "control_part (mc\<lparr>mc_earliest_diverge := d\<rparr>) = control_part mc"
  by (simp_all add: control_part_def)

lemma control_Checker_assert_bug [simp]: "control_part (snd (Checker_assert_bug mc msg)) = control_part mc"
  by (simp add: Checker_assert_bug_def case_prod_beta)

lemma control_stash_action: "stash_action pg i mc = Some mc' \<Longrightarrow> control_part mc' = control_part mc"
  using switch_from_master_effect
  by (fastforce simp: stash_action_def Let_def same_checker_def split: Option.bind_splits if_splits)

lemma control_get_next_thread: "get_next_thread mc = Some (t, mc') \<Longrightarrow> control_part mc' = control_part mc"
  by (auto simp: get_next_thread_def diverge_here_def Let_def control_part_def
      split: option.splits Option.bind_splits if_splits prod.splits)

lemma control_run_round:
  assumes "run_round pg t mc = Some r"
  shows "case r of Inl mc' \<Rightarrow> control_part mc' = control_part mc | Inr (t', mc') \<Rightarrow> control_part mc' = control_part mc"
proof -
  obtain mc1 where mc1: "foldM (stash_action pg) [0..<get_num_threads (mc_execution mc)] mc = Some mc1"
    using assms by (auto simp: run_round_def split: Option.bind_splits)
  have c1: "control_part mc1 = control_part mc"
    using foldM_invariant [where I = "\<lambda>mc'. control_part mc' = control_part mc", OF mc1] control_stash_action by auto
  show ?thesis
    using assms c1 control_get_next_thread
    by (auto simp: run_round_def mc1 Let_def split: Option.bind_splits if_splits option.splits prod.splits sum.splits)
qed

lemma control_run_execution:
  assumes "run_execution pg t mc = Some mc'"
  shows "control_part mc' = control_part mc"
  using assms
proof (rule run_execution.raw_induct [where P = "\<lambda>pg t mc mc'. control_part mc' = control_part mc", rotated])
  fix loop :: "program \<Rightarrow> thread_id_t option \<Rightarrow> ModelChecker \<Rightarrow> ModelChecker option" and pg t mc mc'
  assume IH: "\<And>pg t mc mc'. loop pg t mc = Some mc' \<Longrightarrow> control_part mc' = control_part mc"
    and res: "Option.bind (run_round pg t mc) (\<lambda>r. case r of Inl mc1 \<Rightarrow> Some mc1 | Inr p \<Rightarrow> loop pg (fst p) (snd p)) = Some mc'"
  obtain r where r: "run_round pg t mc = Some r" and rest: "(case r of Inl mc1 \<Rightarrow> Some mc1 | Inr p \<Rightarrow> loop pg (fst p) (snd p)) = Some mc'"
    using res by (auto split: Option.bind_splits)
  show "control_part mc' = control_part mc"
    using control_run_round [OF r] rest IH by (auto split: sum.splits prod.splits)
qed

section \<open>Between two executions\<close>

definition stats_ok :: "execution_stats \<Rightarrow> bool" where
  "stats_ok s \<longleftrightarrow>
     st_num_total s = st_num_infeasible s + st_num_buggy_executions s + st_num_complete s + st_num_redundant s"

text \<open>The state restored from a snapshot that was taken in \<open>mc0\<close>.\<close>

definition restored :: "ModelChecker \<Rightarrow> ModelChecker \<Rightarrow> bool" where
  "restored mc0 mc \<longleftrightarrow>
     mc_execution mc = (mc_execution mc0)\<lparr>ex_acts := ex_acts (mc_execution mc), ex_next_act := ex_next_act (mc_execution mc),
                                          ex_node_stack := ex_node_stack (mc_execution mc)\<rparr> \<and>
     ns_head_idx (ex_node_stack (mc_execution mc)) = -1 \<and>
     mc_context mc = mc_context mc0 \<and> mc_mem mc = mc_mem mc0 \<and> mc_shadow mc = mc_shadow mc0"

lemma before_step_beyond: "length es \<le> i \<Longrightarrow> before_step es i seqindex = None"
  by (cases es) simp_all

lemma before_step_result:
  "before_step es (length es - 1) seqindex =
     (if es \<noteq> [] \<and> se_index (last es) \<le> seqindex then Some (es, length es - 1) else None)"
proof (cases es)
  case (Cons e es')
  have "before_step (butlast (e # es')) (length (e # es') - 1 + 1) seqindex = None"
    by (rule before_step_beyond) simp
  moreover have "(e # es') ! (length (e # es') - 1) = last (e # es')" by (simp only: last_conv_nth list.distinct not_False_eq_True)
  ultimately show ?thesis using Cons before_step.simps(2) [of e es' "length (e # es') - 1" seqindex] by simp
qed simp

lemma record_stats_effect:
  assumes "record_stats mc = Some mc'"
  shows "mc' = mc\<lparr>mc_stats := mc_stats mc'\<rparr>" and "stats_ok (mc_stats mc) \<Longrightarrow> stats_ok (mc_stats mc')"
    and "st_num_total (mc_stats mc') = st_num_total (mc_stats mc) + 1"
    and "st_num_complete (mc_stats mc') \<le> st_num_complete (mc_stats mc) + 1"
  using assms by (auto simp: record_stats_def Let_def stats_ok_def split: Option.bind_splits if_splits)

lemma control_end_checks: "end_checks mc = Some (b, mc') \<Longrightarrow> control_part mc' = control_part mc"
  by (auto simp: end_checks_def Let_def split: Option.bind_splits if_splits)

lemma reset_to_initial_state_effect:
  assumes "reset_to_initial_state mc = Some mc'" and "mc_snapshots mc = mc_snapshots (snapshot_record mc0 0)" and "mc_snapshots mc0 = []"
  shows "control_part mc' = control_part mc" and "restored (snapshot_record mc0 0) mc'"
proof -
  have s: "mc_snapshots mc = [\<lparr>se_snapshot = \<lparr>si_execution = mc_execution mc0, si_context = mc_context mc0,
      si_mem = mc_mem mc0, si_shadow = mc_shadow mc0\<rparr>, se_index = 0\<rparr>]"
    using assms(2,3) by (simp add: snapshot_record_def)
  then show "control_part mc' = control_part mc" "restored (snapshot_record mc0 0) mc'"
    using assms(1)
    by (auto simp: reset_to_initial_state_def snapshot_backtrack_before_def Let_def roll_back_def control_part_def
        restored_def snapshot_record_def reset_execution_def)
qed

text \<open>What holds at the start of every execution when the first snapshot was taken in \<open>mc0\<close>.\<close>

definition start_ok :: "ModelChecker \<Rightarrow> ModelChecker \<Rightarrow> bool" where
  "start_ok mc0 mc \<longleftrightarrow>
     mc_snapshots mc = mc_snapshots (snapshot_record mc0 0) \<and> mc_params mc = mc_params mc0 \<and>
     stats_ok (mc_stats mc) \<and> mc_execution_number mc = st_num_total (mc_stats mc) + 1 \<and> 0 \<le> st_num_total (mc_stats mc) \<and>
     (0 < mp_maxexecutions (mc_params mc0) \<longrightarrow> st_num_complete (mc_stats mc) < mp_maxexecutions (mc_params mc0))"

definition end_ok :: "ModelChecker \<Rightarrow> ModelChecker \<Rightarrow> bool" where
  "end_ok mc0 mc \<longleftrightarrow>
     stats_ok (mc_stats mc) \<and> 1 \<le> st_num_total (mc_stats mc) \<and>
     (0 < mp_maxexecutions (mc_params mc0) \<longrightarrow> st_num_complete (mc_stats mc) \<le> mp_maxexecutions (mc_params mc0))"

lemma start_ok_control: "control_part mc' = control_part mc \<Longrightarrow> start_ok mc0 mc' = start_ok mc0 mc"
  by (simp add: start_ok_def control_part_def)

lemma do_restart_effect:
  assumes "do_restart mc = Some mc'" and "start_ok mc0 (mc\<lparr>mc_stats := s, mc_execution_number := i\<rparr>)" and "mc_snapshots mc0 = []"
  shows "start_ok mc0 mc'" and "restored (snapshot_record mc0 0) mc'"
proof -
  let ?mc = "mc\<lparr>mc_restart_flag := False, mc_diverge := None, mc_earliest_diverge := None\<rparr>"
  obtain mc1 where r: "reset_to_initial_state ?mc = Some mc1"
    and mc': "mc' = mc1\<lparr>mc_execution := (mc_execution mc1)\<lparr>ex_node_stack := full_reset (ex_node_stack (mc_execution mc1))\<rparr>,
        mc_stats := zero_stats, mc_execution_number := 1\<rparr>"
    using assms(1) by (auto simp: do_restart_def Let_def split: Option.bind_splits)
  have "mc_snapshots ?mc = mc_snapshots (snapshot_record mc0 0)" using assms(2) by (simp add: start_ok_def)
  note e = reset_to_initial_state_effect [OF r this assms(3)]
  then show "start_ok mc0 mc'"
    using assms(2) by (auto simp: mc' start_ok_def control_part_def stats_ok_def zero_stats_def)
  have k: "(mc_execution mc1)\<lparr>ex_node_stack := ns\<rparr> = (mc_execution (snapshot_record mc0 0))\<lparr>ex_acts := ex_acts (mc_execution mc1),
      ex_next_act := ex_next_act (mc_execution mc1), ex_node_stack := ns\<rparr>" for ns
    using arg_cong [OF e(2) [unfolded restored_def, THEN conjunct1], of "\<lambda>ex. ex\<lparr>ex_node_stack := ns\<rparr>"] by simp
  show "restored (snapshot_record mc0 0) mc'"
    using e(2) [unfolded restored_def, THEN conjunct2] by (simp add: mc' restored_def k) (simp add: full_reset_def reset_execution_def)
qed

lemma next_execution_effect:
  assumes "next_execution mc = Some (b, mc')" and start: "start_ok mc0 mc" and "mc_snapshots mc0 = []"
  shows "if b then start_ok mc0 mc' \<and> restored (snapshot_record mc0 0) mc' else end_ok mc0 mc'"
proof -
  obtain complete mc1 mc2 where ec: "end_checks mc = Some (complete, mc1)" and rs: "record_stats mc1 = Some mc2"
    using assms(1) by (auto simp: next_execution_def split: Option.bind_splits)
  define mc3 where "mc3 = (if complete then mc2\<lparr>mc_earliest_diverge := None\<rparr> else mc2)"
  have ch: "choose_next mc3 = Some (b, mc')" using assms(1) by (simp add: next_execution_def ec rs mc3_def)
  note r = record_stats_effect [OF rs]
  have c1: "start_ok mc0 mc1" using start start_ok_control [OF control_end_checks [OF ec]] by blast
  have s3: "mc_stats mc3 = mc_stats mc2" "mc_snapshots mc3 = mc_snapshots mc1" "mc_params mc3 = mc_params mc1"
    "mc_execution_number mc3 = mc_execution_number mc1"
    using arg_cong [OF r(1), of mc_snapshots] arg_cong [OF r(1), of mc_params] arg_cong [OF r(1), of mc_execution_number]
    by (auto simp: mc3_def)
  have e3: "end_ok mc0 mc3" using c1 r(2-) by (auto simp: start_ok_def end_ok_def s3)
  have k3: "start_ok mc0 (mc3\<lparr>mc_stats := zero_stats, mc_execution_number := 1\<rparr>)"
    using c1 by (auto simp: start_ok_def s3 zero_stats_def stats_ok_def)
  let ?d = "Execution_get_next_backtrack (mc_execution mc3)"
  let ?mc5 = "mc3\<lparr>mc_diverge := fst ?d, mc_execution := snd ?d, mc_execution_number := mc_execution_number mc3 + 1\<rparr>"
  consider (restart) "b" "do_restart mc3 = Some mc'"
    | (stop) "\<not> b" "mc_stats mc' = mc_stats mc3"
    | (go_on) "b" "\<not> (mp_maxexecutions (mc_params mc3) \<noteq> 0 \<and> st_num_complete (mc_stats mc3) \<ge> mp_maxexecutions (mc_params mc3))"
        "reset_to_initial_state ?mc5 = Some mc'"
    using ch unfolding choose_next_def by (auto simp: Let_def case_prod_beta split: Option.bind_splits if_splits)
  then show ?thesis
  proof cases
    case restart
    then show ?thesis using do_restart_effect [OF restart(2) k3 assms(3)] by simp
  next
    case stop
    then show ?thesis using e3 by (simp add: end_ok_def)
  next
    case go_on
    have "mc_snapshots ?mc5 = mc_snapshots (snapshot_record mc0 0)" using c1 s3 by (simp add: start_ok_def)
    note e = reset_to_initial_state_effect [OF go_on(3) this assms(3)]
    have "start_ok mc0 ?mc5"
      using c1 r(2-) go_on(2) by (auto simp: start_ok_def s3)
    then show ?thesis using e start_ok_control [OF e(1)] go_on(1) by simp
  qed
qed

text \<open>The states in which an execution of \<open>run\<close> starts.\<close>

inductive starts :: "program \<Rightarrow> ModelChecker \<Rightarrow> ModelChecker \<Rightarrow> bool" for pg mc0 where
  first: "starts pg mc0 mc0"
| again: "starts pg mc0 mc \<Longrightarrow> new_main_thread pg (mc_execution mc) = Some (t, ex) \<Longrightarrow>
    run_execution pg (Some t) (mc\<lparr>mc_execution := ex\<rparr>) = Some mc1 \<Longrightarrow>
    next_execution mc1 = Some (True, mc') \<Longrightarrow> starts pg mc0 mc'"

lemma new_ModelChecker_ok:
  assumes "new_ModelChecker h params mem shadow = Some mc0"
  shows "mc_snapshots mc0 = []" and "mc_params mc0 = params" and "start_ok mc0 (snapshot_record mc0 0)"
    and "restored (snapshot_record mc0 0) (snapshot_record mc0 0)"
proof -
  obtain ex where ex: "new_ModelExecution h params new_Scheduler new_NodeStack = Some ex"
    and mc0: "mc0 = \<lparr>mc_params = params, mc_restart_flag = False, mc_exit_flag = False, mc_execution = ex,
           mc_execution_number = 1, mc_diverge = None, mc_earliest_diverge = None,
           mc_stats = zero_stats, mc_context = Map.empty, mc_mem = mem, mc_shadow = shadow, mc_snapshots = []\<rparr>"
    using assms by (auto simp: new_ModelChecker_def split: Option.bind_splits)
  have "ex_node_stack ex = new_NodeStack"
    using ex by (auto simp: new_ModelExecution_def get_next_id_def Execution_add_thread_def new_model_Thread_def Let_def)
  then show "mc_snapshots mc0 = []" "mc_params mc0 = params" "start_ok mc0 (snapshot_record mc0 0)"
    "restored (snapshot_record mc0 0) (snapshot_record mc0 0)"
    by (auto simp: mc0 start_ok_def snapshot_record_def zero_stats_def stats_ok_def restored_def new_NodeStack_def)
qed

lemma start_ok_run:
  assumes "start_ok mc0 mc" and "run_execution pg t (mc\<lparr>mc_execution := ex\<rparr>) = Some mc1"
  shows "start_ok mc0 mc1"
  using assms(1) start_ok_control [OF control_run_execution [OF assms(2)]] start_ok_control [of "mc\<lparr>mc_execution := ex\<rparr>" mc] by simp

lemma starts_ok:
  assumes "starts pg (snapshot_record mc0 0) mc" and "new_ModelChecker h params mem shadow = Some mc0"
  shows "start_ok mc0 mc \<and> restored (snapshot_record mc0 0) mc"
  using assms(1)
proof induction
  case first
  then show ?case using new_ModelChecker_ok [OF assms(2)] by blast
next
  case (again mc t ex mc1 mc')
  have "start_ok mc0 mc1" using again.IH start_ok_run again.hyps(3) by blast
  then show ?case using next_execution_effect [OF again.hyps(4) _ new_ModelChecker_ok(1) [OF assms(2)]] by simp
qed

lemma run_executions_end:
  assumes "run_executions pg mc = Some mc'" and "start_ok mc0 mc" and "mc_snapshots mc0 = []"
  shows "end_ok mc0 mc'"
proof -
  have "start_ok mc0 mc \<longrightarrow> end_ok mc0 mc'"
    using assms(1)
  proof (rule run_executions.raw_induct [where P = "\<lambda>pg mc mc'. start_ok mc0 mc \<longrightarrow> end_ok mc0 mc'", rotated], intro impI)
    fix loop :: "program \<Rightarrow> ModelChecker \<Rightarrow> ModelChecker option" and pg mc mc'
    assume IH: "\<And>pg mc mc'. loop pg mc = Some mc' \<Longrightarrow> start_ok mc0 mc \<longrightarrow> end_ok mc0 mc'" and st: "start_ok mc0 mc"
      and res: "Option.bind (new_main_thread pg (mc_execution mc)) (\<lambda>r.
         Option.bind (run_execution pg (Some (fst r)) (mc\<lparr>mc_execution := snd r\<rparr>)) (\<lambda>mc1.
         Option.bind (next_execution mc1) (\<lambda>p. if fst p then loop pg (snd p) else Some (snd p)))) = Some mc'"
    then obtain r mc1 p where run: "run_execution pg (Some (fst r)) (mc\<lparr>mc_execution := snd r\<rparr>) = Some mc1"
      and nx: "next_execution mc1 = Some (fst p, snd p)" and rest: "(if fst p then loop pg (snd p) else Some (snd p)) = Some mc'"
      by (auto split: Option.bind_splits)
    show "end_ok mc0 mc'"
      using next_execution_effect [OF nx start_ok_run [OF st run] assms(3)] rest IH by (auto split: if_splits)
  qed
  then show ?thesis using assms(2) by blast
qed

section \<open>The verdict on an execution\<close>

datatype verdict = Infeasible | Buggy | Complete | Redundant

fun count_verdict :: "verdict \<Rightarrow> execution_stats \<Rightarrow> execution_stats" where
  "count_verdict Infeasible s = s\<lparr>st_num_total := st_num_total s + 1, st_num_infeasible := st_num_infeasible s + 1\<rparr>"
| "count_verdict Buggy s = s\<lparr>st_num_total := st_num_total s + 1, st_num_buggy_executions := st_num_buggy_executions s + 1\<rparr>"
| "count_verdict Complete s = s\<lparr>st_num_total := st_num_total s + 1, st_num_complete := st_num_complete s + 1\<rparr>"
| "count_verdict Redundant s = s\<lparr>st_num_total := st_num_total s + 1, st_num_redundant := st_num_redundant s + 1\<rparr>"

definition all_disabled :: "ModelExecution \<Rightarrow> bool" where
  "all_disabled ex \<longleftrightarrow> (\<forall>t < get_num_threads ex. status (ex_scheduler ex) t = THREAD_DISABLED)"

definition yield_pending :: "ModelExecution \<Rightarrow> bool" where
  "yield_pending ex \<longleftrightarrow> mp_yieldblock (ex_params ex) \<and>
     (\<exists>t < get_num_threads ex. \<exists>p. th_pending (ex_threads ex t) = Some p \<and> is_yield (ex_acts ex p))"

definition action_pending :: "ModelExecution \<Rightarrow> bool" where
  "action_pending ex \<longleftrightarrow> (\<exists>t < get_num_threads ex. t \<noteq> 0 \<and> th_pending (ex_threads ex t) \<noteq> None)"

definition real_race :: "act_store \<Rightarrow> DataRace \<Rightarrow> bool" where
  "real_race acts r \<longleftrightarrow>
     (\<exists>cv. ma_cv (acts (dr_newaction r)) = Some cv \<and>
           clock_may_race cv (ma_tid (acts (dr_newaction r))) (dr_oldclock r) (dr_oldthread r))"

definition verdict_of :: "ModelExecution \<Rightarrow> verdict" where
  "verdict_of ex =
     (let complete = (all_disabled ex \<and> \<not> yield_pending ex);
          bug = (action_pending ex \<or> (\<exists>r \<in> set (rs_unrealizedraces (ex_races ex)). real_race (ex_acts ex) r))
      in if \<not> isfeasibleprefix ex then Infeasible
         else if have_bug_reports ex \<or> complete \<and> bug then Buggy
         else if complete then Complete else Redundant)"

lemma realize_races_result:
  assumes "\<forall>r \<in> set races. ma_cv (acts (dr_newaction r)) \<noteq> None"
  shows "realize_races acts races b st =
    Some (b \<or> (\<exists>r \<in> set races. real_race acts r), st\<lparr>rs_asserted := rs_asserted st @ filter (real_race acts) races\<rparr>)"
  using assms by (induction races arbitrary: b st) (auto simp: real_race_def assert_race_def)

lemma have_bug_reports_effect [simp]: "have_bug_reports (snd (assert_bug ex msg))"
  by (simp add: have_bug_reports_def assert_bug_def set_assert_def Let_def)

lemma have_bug_reports_fold:
  "have_bug_reports (fold (\<lambda>race ex. snd (assert_bug ex (BugRace race))) races ex) \<longleftrightarrow> have_bug_reports ex \<or> races \<noteq> []"
  by (induction races arbitrary: ex) auto

text \<open>Two executions that differ in bugs and race records only.\<close>

definition same_but_bugs :: "ModelExecution \<Rightarrow> ModelExecution \<Rightarrow> bool" where
  "same_but_bugs ex ex' \<longleftrightarrow>
     checker_part ex' = checker_part ex \<and> ex_threads ex' = ex_threads ex \<and> ex_acts ex' = ex_acts ex"

lemma same_but_bugs_fold: "same_but_bugs ex (fold (\<lambda>race ex. snd (assert_bug ex (BugRace race))) races ex)"
proof (induction races arbitrary: ex)
  case (Cons r races)
  show ?case using Cons [of "snd (assert_bug ex (BugRace r))"] by (simp add: same_but_bugs_def assert_bug_effect)
qed (simp add: same_but_bugs_def)

lemma same_but_bugs_tests:
  assumes "same_but_bugs ex ex'"
  shows "isfeasibleprefix ex' = isfeasibleprefix ex" "all_disabled ex' = all_disabled ex" "yield_pending ex' = yield_pending ex"
    "thread_table_wf ex' = thread_table_wf ex"
proof -
  have p: "checker_part ex' = checker_part ex" "ex_threads ex' = ex_threads ex" "ex_acts ex' = ex_acts ex"
    using assms by (simp_all add: same_but_bugs_def)
  show "isfeasibleprefix ex' = isfeasibleprefix ex" by (rule isfeasibleprefix_part [OF p(1)])
  show "all_disabled ex' = all_disabled ex" "yield_pending ex' = yield_pending ex" "thread_table_wf ex' = thread_table_wf ex"
    using p(1) by (simp_all add: all_disabled_def yield_pending_def thread_table_wf_def get_num_threads_def status_def checker_part_def p(2,3))
qed

lemma exec_checkDataRaces_result:
  assumes "isfeasibleprefix ex" and "\<forall>r \<in> set (rs_unrealizedraces (ex_races ex)). ma_cv (ex_acts ex (dr_newaction r)) \<noteq> None"
  shows "\<exists>b ex'. exec_checkDataRaces ex = Some (b, ex') \<and> same_but_bugs ex ex' \<and>
    (have_bug_reports ex' \<longleftrightarrow> have_bug_reports ex \<or> (\<exists>r \<in> set (rs_unrealizedraces (ex_races ex)). real_race (ex_acts ex) r))"
proof -
  let ?races = "filter (real_race (ex_acts ex)) (rs_unrealizedraces (ex_races ex))"
  let ?rs = "(ex_races ex)\<lparr>rs_asserted := rs_asserted (ex_races ex) @ ?races, rs_unrealizedraces := []\<rparr>"
  let ?ex = "fold (\<lambda>race ex. snd (assert_bug ex (BugRace race))) ?races (ex\<lparr>ex_races := ?rs\<rparr>)"
  have "exec_checkDataRaces ex = Some (\<exists>r \<in> set (rs_unrealizedraces (ex_races ex)). real_race (ex_acts ex) r, ?ex)"
    using assms by (simp add: exec_checkDataRaces_def checkDataRaces_def exec_race_env_def realize_races_result)
  moreover have "same_but_bugs ex ?ex"
    using same_but_bugs_fold [of "ex\<lparr>ex_races := ?rs\<rparr>" ?races] by (simp add: same_but_bugs_def checker_part_def)
  moreover have "have_bug_reports (ex\<lparr>ex_races := ?rs\<rparr>) = have_bug_reports ex" by (simp add: have_bug_reports_def)
  ultimately show ?thesis by (auto simp: have_bug_reports_fold filter_empty_conv)
qed

lemma record_stats_result:
  assumes "thread_table_wf (mc_execution mc)"
  shows "record_stats mc = Some (mc\<lparr>mc_stats := count_verdict
    (if \<not> isfeasibleprefix (mc_execution mc) then Infeasible else if have_bug_reports (mc_execution mc) then Buggy
     else if all_disabled (mc_execution mc) \<and> \<not> yield_pending (mc_execution mc) then Complete else Redundant) (mc_stats mc)\<rparr>)"
proof -
  have "is_complete_execution (mc_execution mc) = Some (\<not> yield_pending (mc_execution mc) \<and> all_disabled (mc_execution mc))"
    using end_test_results(3) [OF assms] by (simp add: all_disabled_def yield_pending_def)
  then show ?thesis by (auto simp: record_stats_def Let_def)
qed

lemma end_checks_result:
  assumes "thread_table_wf (mc_execution mc)" and "isfeasibleprefix (mc_execution mc)"
    and "all_disabled (mc_execution mc) \<and> \<not> yield_pending (mc_execution mc) \<or> have_bug_reports (mc_execution mc)"
    and "\<forall>r \<in> set (rs_unrealizedraces (ex_races (mc_execution mc))). ma_cv (ex_acts (mc_execution mc) (dr_newaction r)) \<noteq> None"
  shows "\<exists>ex'. end_checks mc = Some (True, mc\<lparr>mc_execution := ex'\<rparr>) \<and> same_but_bugs (mc_execution mc) ex' \<and>
    (have_bug_reports ex' \<longleftrightarrow> have_bug_reports (mc_execution mc) \<or> all_disabled (mc_execution mc) \<and> action_pending (mc_execution mc) \<or>
      (\<exists>r \<in> set (rs_unrealizedraces (ex_races (mc_execution mc))). real_race (ex_acts (mc_execution mc)) r))"
proof -
  let ?ex = "mc_execution mc" and ?dead = "all_disabled (mc_execution mc) \<and> action_pending (mc_execution mc)"
  have tests: "is_deadlocked ?ex = Some ?dead" "is_complete_execution ?ex = Some (\<not> yield_pending ?ex \<and> all_disabled ?ex)"
    using end_test_results [OF assms(1)] by (simp_all add: all_disabled_def yield_pending_def action_pending_def)
  define ex1 where "ex1 = (if ?dead then snd (assert_bug ?ex (BugText ''Deadlock detected'')) else ?ex)"
  have ex1: "same_but_bugs ?ex ex1" "ex_races ex1 = ex_races ?ex" "have_bug_reports ex1 \<longleftrightarrow> have_bug_reports ?ex \<or> ?dead"
    by (auto simp: ex1_def same_but_bugs_def assert_bug_effect)
  have "isfeasibleprefix ex1" "\<forall>r \<in> set (rs_unrealizedraces (ex_races ex1)). ma_cv (ex_acts ex1 (dr_newaction r)) \<noteq> None"
    using same_but_bugs_tests(1) [OF ex1(1)] assms(2,4) ex1(1,2) by (simp_all add: same_but_bugs_def)
  from exec_checkDataRaces_result [OF this] obtain b ex2 where
    ex2: "exec_checkDataRaces ex1 = Some (b, ex2)" "same_but_bugs ex1 ex2"
      "have_bug_reports ex2 \<longleftrightarrow> have_bug_reports ex1 \<or> (\<exists>r \<in> set (rs_unrealizedraces (ex_races ?ex)). real_race (ex_acts ?ex) r)"
    using ex1(1,2) by (auto simp: same_but_bugs_def)
  have "end_checks mc = Some (True, mc\<lparr>mc_execution := ex2\<rparr>)"
    using assms(2,3) ex2(1) by (auto simp: end_checks_def tests Let_def Checker_assert_bug_def case_prod_beta ex1_def split: if_splits)
  then show ?thesis using ex1 ex2 by (auto simp: same_but_bugs_def)
qed

section \<open>Properties\<close>

text \<open>
  (C30) The code of a thread is isolated. When the checker lets a thread run until it comes back, then
  of the checker only its contexts, its memory and its execution have changed; of the execution all
  existing actions, all other threads, the modification order, the node stack, the lists, promises and
  statistics are as before. The thread is ready, no thread is current, and the thread has a new action
  of its own pending, or none because a bug in a feasible execution was asserted.
\<close>

theorem thread_code_isolated:
  assumes "switch_from_master pg mc t = Some mc'"
  shows "same_checker t mc mc' \<and> handed_over t (mc_execution mc) (mc_execution mc')"
  using switch_from_master_effect [OF assms] .

text \<open>
  (C31) Every execution starts from the same state. In whatever state of the exploration an
  execution begins, the execution object, the contexts and the memory of the program are those of the
  first snapshot, except for the recorded actions and the node stack, which is at its beginning; the
  number of the execution is one more than the number of executions counted so far.
\<close>

theorem executions_start_afresh:
  assumes "new_ModelChecker h params mem shadow = Some mc0" and "starts pg (snapshot_record mc0 0) mc"
  shows "restored (snapshot_record mc0 0) mc \<and> mc_execution_number mc = st_num_total (mc_stats mc) + 1"
  using starts_ok [OF assms(2,1)] by (simp add: start_ok_def)

text \<open>
  (C32) When the exploration ends, the executions counted as infeasible, buggy, complete and redundant
  add up to all of them, there is at least one, and with a limit on complete executions no more than
  that many were complete.
\<close>

theorem executions_are_counted:
  assumes "model_main h params mem pg = Some mc"
  shows "st_num_total (mc_stats mc) =
      st_num_infeasible (mc_stats mc) + st_num_buggy_executions (mc_stats mc) + st_num_complete (mc_stats mc) + st_num_redundant (mc_stats mc) \<and>
    1 \<le> st_num_total (mc_stats mc) \<and>
    (0 < mp_maxexecutions params \<longrightarrow> st_num_complete (mc_stats mc) \<le> mp_maxexecutions params)"
proof -
  obtain h' root mc0 mc1 where new: "new_ModelChecker h' params mem root = Some mc0"
    and run: "run_executions pg (snapshot_record mc0 0) = Some mc1" and stats: "mc_stats mc = mc_stats mc1"
    using assms by (auto simp: model_main_def Checker_run_def case_prod_beta Let_def split: Option.bind_splits)
  note n = new_ModelChecker_ok [OF new]
  show ?thesis using run_executions_end [OF run n(3,1)] n(2) stats by (simp add: end_ok_def stats_ok_def)
qed

text \<open>
  (C33) Going back to a snapshot works only if the latest snapshot is not after the given step. If it
  is after it, the loop of \<open>backTrackBeforeStep\<close> drops it and then looks beyond the end of the stack,
  because it counts its index up instead of down; an earlier snapshot is never found.
\<close>

theorem snapshot_search_only_latest:
  "snapshot_backtrack_before mc seq_index \<noteq> None \<longleftrightarrow>
     mc_snapshots mc \<noteq> [] \<and> se_index (last (mc_snapshots mc)) \<le> seq_index"
  unfolding snapshot_backtrack_before_def before_step_result by auto

text \<open>
  (C34) The verdict on an execution. In a well-formed thread table, with a clock vector for the
  later action of every unrealized race, the checks at its end and the recording of statistics
  return, and count the execution as infeasible, buggy, complete or redundant by what it is: buggy
  if it is feasible and has a report, or is complete and leaves a thread waiting or a race that the
  final clock vectors confirm; complete if no thread is enabled and it is not blocked by yields.
\<close>

theorem executions_classified:
  assumes "thread_table_wf (mc_execution mc)"
    and "\<forall>r \<in> set (rs_unrealizedraces (ex_races (mc_execution mc))). ma_cv (ex_acts (mc_execution mc) (dr_newaction r)) \<noteq> None"
  shows "\<exists>b mc1 mc2. end_checks mc = Some (b, mc1) \<and> record_stats mc1 = Some mc2 \<and>
    mc_stats mc2 = count_verdict (verdict_of (mc_execution mc)) (mc_stats mc)"
proof (cases "isfeasibleprefix (mc_execution mc) \<and>
    (all_disabled (mc_execution mc) \<and> \<not> yield_pending (mc_execution mc) \<or> have_bug_reports (mc_execution mc))")
  case True
  from end_checks_result [OF assms(1) _ _ assms(2)] True obtain ex' where
    ex': "end_checks mc = Some (True, mc\<lparr>mc_execution := ex'\<rparr>)" "same_but_bugs (mc_execution mc) ex'"
      "have_bug_reports ex' \<longleftrightarrow> have_bug_reports (mc_execution mc) \<or> all_disabled (mc_execution mc) \<and> action_pending (mc_execution mc) \<or>
        (\<exists>r \<in> set (rs_unrealizedraces (ex_races (mc_execution mc))). real_race (ex_acts (mc_execution mc)) r)" by blast
  show ?thesis
    using record_stats_result [of "mc\<lparr>mc_execution := ex'\<rparr>"] same_but_bugs_tests [OF ex'(2)] assms(1) True ex'(1,3)
    by (auto simp: verdict_of_def Let_def)
next
  case False
  have "is_complete_execution (mc_execution mc) = Some (\<not> yield_pending (mc_execution mc) \<and> all_disabled (mc_execution mc))"
    using end_test_results(3) [OF assms(1)] by (simp add: all_disabled_def yield_pending_def)
  then have "end_checks mc = Some (False, mc)" using False by (auto simp: end_checks_def Let_def)
  then show ?thesis using record_stats_result [OF assms(1)] False by (auto simp: verdict_of_def Let_def)
qed

section \<open>Concrete cases\<close>

theorem thread_code_isolated_witness:
  "\<exists>mc mc'. switch_from_master no_actions mc 1 = Some mc' \<and> same_checker 1 mc mc' \<and>
     th_pending (ex_threads (mc_execution mc') 1) \<noteq> None \<and> handed_over 1 (mc_execution mc) (mc_execution mc')"
proof -
  have "map_option (\<lambda>(mc, t, mc'). (t, th_pending (ex_threads (mc_execution mc') 1))) (first_switch no_actions) = Some (1, Some 0)"
    by code_simp
  then obtain mc mc' where "switch_from_master no_actions mc 1 = Some mc'" "th_pending (ex_threads (mc_execution mc') 1) \<noteq> None"
    by (auto simp: first_switch_def split: option.splits Option.bind_splits)
  then show ?thesis using thread_code_isolated by blast
qed

theorem executions_start_afresh_witness:
  "\<exists>mc0. new_ModelChecker example_heap param_defaults (\<lambda>_. 0) (\<lambda>_. None) = Some mc0 \<and>
     starts no_actions (snapshot_record mc0 0) (snapshot_record mc0 0) \<and> mc_execution_number (snapshot_record mc0 0) = 1"
proof -
  obtain mc0 where new: "new_ModelChecker example_heap param_defaults (\<lambda>_. 0) (\<lambda>_. None) = Some mc0" "mc_stats mc0 = zero_stats"
    using new_ModelExecution_threads [of example_heap param_defaults new_Scheduler new_NodeStack] by (auto simp: new_ModelChecker_def)
  then show ?thesis
    using executions_start_afresh [OF new(1) starts.first [of no_actions]]
    by (auto simp: snapshot_record_def zero_stats_def intro: starts.first)
qed

theorem executions_are_counted_witness:
  "\<exists>mc. model_main example_heap param_defaults (\<lambda>_. 0) no_actions = Some mc \<and> 1 \<le> st_num_total (mc_stats mc)"
proof -
  have "case model_main example_heap param_defaults (\<lambda>_. 0) no_actions of None \<Rightarrow> False | Some _ \<Rightarrow> True"
    by code_simp
  then show ?thesis using executions_are_counted [of example_heap param_defaults "\<lambda>_. 0" no_actions]
    by (auto split: option.splits)
qed

theorem executions_classified_witness:
  "\<exists>mc b mc1 mc2. new_ModelChecker example_heap param_defaults (\<lambda>_. 0) (\<lambda>_. None) = Some mc \<and>
     end_checks mc = Some (b, mc1) \<and> record_stats mc1 = Some mc2"
proof -
  obtain ex where ex: "new_ModelExecution example_heap param_defaults new_Scheduler new_NodeStack = Some ex" "thread_table_wf ex"
    using new_ModelExecution_threads [of example_heap param_defaults new_Scheduler new_NodeStack] by blast
  have "rs_unrealizedraces (ex_races ex) = []"
    using ex(1) by (auto simp: new_ModelExecution_def get_next_id_def Execution_add_thread_def new_model_Thread_def Let_def example_heap_def)
  moreover obtain mc where "new_ModelChecker example_heap param_defaults (\<lambda>_. 0) (\<lambda>_. None) = Some mc" "mc_execution mc = ex"
    using ex(1) by (auto simp: new_ModelChecker_def)
  ultimately show ?thesis using executions_classified [of mc] ex(2) by auto
qed

end
