(* ===== verification/Inference.thy ===== *)
theory Inference
  imports ModelTypes
begin

text \<open>
  The order inference of \<open>scfence/\<close>: \<open>inference.cc\<close>, \<open>patch.cc\<close>, \<open>inferlist.cc\<close> and
  \<open>inferset.cc\<close> with the macros of \<open>wildcard.h\<close>. An inference assigns a memory order to each
  wildcard of the checked program; the set of inferences is what the search for weak but correct
  orders works on. An \<open>Inference *\<close> is a reference into a heap, because the lists share the objects
  and their flags change; freeing an object leaves the heap as it is. Output is left out; the
  \<open>ASSERT\<close> in \<open>Inference::print\<close>, on the size, holds of every inference the constructors and
  \<open>resize\<close> make. \<open>getWeakerInferences\<close>, \<open>canStrengthen\<close> and the \<open>applyPatch\<close> for one patch are
  never called and left out too. The macros of \<open>wildcard.h\<close> are abbreviations.
\<close>

section \<open>Wildcards\<close>

abbreviation MAX_WILDCARD_NUM :: int where "MAX_WILDCARD_NUM \<equiv> 50"

abbreviation memory_order_normal :: memory_order where
  "memory_order_normal \<equiv> memory_order_other 0x2000"

abbreviation WILDCARD_NONEXIST :: memory_order where
  "WILDCARD_NONEXIST \<equiv> memory_order_other (-1)"

abbreviation wildcard :: "32 word \<Rightarrow> memory_order" where
  "wildcard x \<equiv> memory_order_other (0x1000 + x)"

abbreviation get_wildcard_id :: "memory_order \<Rightarrow> int" where
  "get_wildcard_id x \<equiv> sint (memory_order_code x - 0x1000)"

abbreviation get_wildcard_id_zero :: "memory_order \<Rightarrow> int" where
  "get_wildcard_id_zero x \<equiv> (if get_wildcard_id x > 0 then get_wildcard_id x else 0)"

abbreviation in_C11_range :: "memory_order \<Rightarrow> bool" where
  "in_C11_range x \<equiv> memory_order_code x \<ge> memory_order_code memory_order_relaxed \<and>
                      memory_order_code x \<le> memory_order_code memory_order_seq_cst"

abbreviation is_wildcard :: "memory_order \<Rightarrow> bool" where
  "is_wildcard x \<equiv> \<not> in_C11_range x \<and> x \<noteq> memory_order_normal"

abbreviation is_normal_mo_infer :: "memory_order \<Rightarrow> bool" where
  "is_normal_mo_infer x \<equiv> in_C11_range x \<or> x = WILDCARD_NONEXIST \<or> x = memory_order_normal"

abbreviation is_normal_mo :: "memory_order \<Rightarrow> bool" where
  "is_normal_mo x \<equiv> in_C11_range x \<or> x = memory_order_normal"

section \<open>Inferences\<close>

type_synonym infer_ref = nat

text \<open>The array \<open>orders\<close> has \<open>size + 1\<close> elements; the first one is not used.\<close>

record Inference =
  in_orders :: "memory_order list"
  in_size :: int
  in_initialInfer :: infer_ref
  in_buggy :: bool
  in_explored :: bool
  in_leaf :: bool
  in_hasFixes :: bool
  in_shouldFix :: bool

definition Inference_resize :: "Inference \<Rightarrow> int \<Rightarrow> Inference option" where
  "Inference_resize infer newsize = do {
     ASSERT (newsize > in_size infer \<and> newsize \<le> MAX_WILDCARD_NUM);
     Some (infer\<lparr>in_orders := in_orders infer @ replicate (nat (newsize - in_size infer)) WILDCARD_NONEXIST,
                 in_size := newsize\<rparr>)
   }"

text \<open>
  The \<open>switch\<close> of \<open>strengthen\<close>: the new value of an order, or none where the function returns 0.
\<close>

fun stronger_order :: "memory_order \<Rightarrow> memory_order \<Rightarrow> memory_order option" where
  "stronger_order memory_order_seq_cst mo = None"
| "stronger_order memory_order_relaxed mo = (if mo = memory_order_relaxed then None else Some mo)"
| "stronger_order memory_order_acquire mo =
     (if mo = memory_order_acquire \<or> mo = memory_order_relaxed then None
      else if mo = memory_order_release then Some memory_order_acq_rel
      else if memory_order_code mo \<ge> memory_order_code memory_order_acq_rel \<and>
              memory_order_code mo \<le> memory_order_code memory_order_seq_cst then Some mo
      else Some memory_order_acquire)"
| "stronger_order memory_order_release mo =
     (if mo = memory_order_release \<or> mo = memory_order_relaxed then None
      else if mo = memory_order_acquire then Some memory_order_acq_rel
      else if memory_order_code mo \<ge> memory_order_code memory_order_acq_rel then Some mo
      else Some memory_order_release)"
| "stronger_order memory_order_acq_rel mo = (if mo = memory_order_seq_cst then Some mo else None)"
| "stronger_order (memory_order_other w) mo = Some mo"

text \<open>\<open>strengthen\<close>, for an action whose original order is \<open>wc\<close>; the result is -1, 0 or 1.\<close>

definition strengthen :: "Inference \<Rightarrow> memory_order \<Rightarrow> memory_order \<Rightarrow> (int \<times> Inference) option" where
  "strengthen infer wc mo =
     (let wildcardID = get_wildcard_id_zero wc
      in if \<not> is_wildcard wc then Some (-1, infer)
         else do {
           infer \<leftarrow> (if wildcardID > in_size infer then Inference_resize infer wildcardID else Some infer);
           ASSERT (is_normal_mo mo);
           old \<leftarrow> vec_at (in_orders infer) (nat wildcardID);
           ASSERT (is_normal_mo_infer old);
           Some (case stronger_order old mo of
                   None \<Rightarrow> (0, infer)
                 | Some new \<Rightarrow> (1, infer\<lparr>in_orders := (in_orders infer)[nat wildcardID := new]\<rparr>))
         })"

text \<open>The overload with the two flags, which the caller passes by reference.\<close>

definition strengthen_flags ::
    "Inference \<Rightarrow> memory_order \<Rightarrow> memory_order \<Rightarrow> bool \<Rightarrow> bool \<Rightarrow> (bool \<times> bool \<times> Inference) option" where
  "strengthen_flags infer wc mo canUpdate hasUpdated = do {
     (res, infer) \<leftarrow> strengthen infer wc mo;
     Some (if res = -1 then False else canUpdate, if res = 1 then True else hasUpdated, infer)
   }"

definition new_Inference :: "infer_ref \<Rightarrow> Inference" where
  "new_Inference this =
     \<lparr>in_orders = replicate 5 WILDCARD_NONEXIST, in_size = 4, in_initialInfer = this, in_buggy = False,
      in_explored = False, in_leaf = False, in_hasFixes = False, in_shouldFix = True\<rparr>"

definition copy_Inference :: "Inference \<Rightarrow> Inference option" where
  "copy_Inference infer = do {
     ASSERT (in_size infer > 0 \<and> in_size infer \<le> MAX_WILDCARD_NUM);
     Some (infer\<lparr>in_buggy := False, in_explored := False, in_leaf := False, in_hasFixes := False,
                 in_shouldFix := True\<rparr>)
   }"

abbreviation or_relaxed :: "memory_order \<Rightarrow> memory_order" where
  "or_relaxed mo \<equiv> (if mo = WILDCARD_NONEXIST then memory_order_relaxed else mo)"

definition compareMemoryOrder :: "memory_order \<Rightarrow> memory_order \<Rightarrow> int" where
  "compareMemoryOrder m1 m2 =
     (let mo1 = or_relaxed m1; mo2 = or_relaxed m2
      in if mo1 = mo2 then 0
         else if mo1 = memory_order_relaxed then -1
         else if mo1 = memory_order_acquire
         then if mo2 = memory_order_relaxed then 1 else if mo2 = memory_order_release then 2 else -1
         else if mo1 = memory_order_release
         then if mo2 = memory_order_relaxed then 1 else if mo2 = memory_order_acquire then 2 else -1
         else if mo1 = memory_order_acq_rel
         then if mo2 = memory_order_seq_cst then -1 else 1
         else 1)"

text \<open>The reference \<open>operator[]\<close> yields: the inference may have been enlarged.\<close>

definition inference_at :: "Inference \<Rightarrow> int \<Rightarrow> (memory_order \<times> Inference) option" where
  "inference_at infer idx =
     (if idx > 0 \<and> idx \<le> in_size infer
      then do { mo \<leftarrow> vec_at (in_orders infer) (nat idx); Some (mo, infer) }
      else do {
        infer \<leftarrow> Inference_resize infer idx;
        Some (WILDCARD_NONEXIST, infer\<lparr>in_orders := (in_orders infer)[nat idx := WILDCARD_NONEXIST]\<rparr>)
      })"

definition inference_put :: "Inference \<Rightarrow> int \<Rightarrow> memory_order \<Rightarrow> Inference option" where
  "inference_put infer idx mo = do {
     (_, infer) \<leftarrow> inference_at infer idx;
     Some (infer\<lparr>in_orders := (in_orders infer)[nat idx := mo]\<rparr>)
   }"

definition nextWeakOrder :: "memory_order \<Rightarrow> memory_order \<Rightarrow> memory_order" where
  "nextWeakOrder mo1 mo2 =
     (let res = (case mo1 of
                   memory_order_seq_cst \<Rightarrow> memory_order_acq_rel
                 | memory_order_acq_rel \<Rightarrow> memory_order_acquire
                 | _ \<Rightarrow> memory_order_relaxed);
          compVal = compareMemoryOrder res mo2
      in if compVal = 2 \<or> compVal = -1 then mo2 else res)"

text \<open>The first loop of \<open>addWeakerInference\<close>: the wildcards that are stronger in the first inference; looking may enlarge the second one.\<close>

definition strengthened_wildcards :: "Inference \<Rightarrow> Inference \<Rightarrow> (int list \<times> Inference) option" where
  "strengthened_wildcards infer1 infer2 =
     foldM (\<lambda>i r. do {
         mo1 \<leftarrow> vec_at (in_orders infer1) (nat i);
         (mo2, infer2) \<leftarrow> inference_at (snd r) i;
         let compVal = compareMemoryOrder mo1 mo2;
         ASSERT (compVal = 0 \<or> compVal = 1);
         Some (if compVal = 0 then fst r else fst r @ [i], infer2)
       }) [1..in_size infer1] ([], infer2)"

text \<open>
  The loop of \<open>compareTo\<close>, over the pairs of orders at the common indices: the test for an acquire
  against a release, the comparison \<open>subResult\<close> of two other orders, and the loop.
\<close>

abbreviation acquire_release :: "memory_order \<Rightarrow> memory_order \<Rightarrow> bool" where
  "acquire_release mo1 mo2 \<equiv>
     (mo1 = memory_order_acquire \<and> mo2 = memory_order_release) \<or>
     (mo1 = memory_order_release \<and> mo2 = memory_order_acquire)"

definition sub_result :: "memory_order \<Rightarrow> memory_order \<Rightarrow> int" where
  "sub_result mo1 mo2 =
     (if (mo1 = WILDCARD_NONEXIST \<and> mo2 \<noteq> WILDCARD_NONEXIST) \<or>
         (mo1 = WILDCARD_NONEXIST \<and> mo2 = memory_order_relaxed) \<or>
         (mo1 = memory_order_relaxed \<and> mo2 = WILDCARD_NONEXIST) then 1
      else if mo1 \<noteq> WILDCARD_NONEXIST \<and> mo2 = WILDCARD_NONEXIST then -1
      else if memory_order_code mo1 > memory_order_code mo2 then 1
      else if mo1 = mo2 then 0 else -1)"

primrec compare_orders :: "(memory_order \<times> memory_order) list \<Rightarrow> int \<Rightarrow> int" where
  "compare_orders [] result = result"
| "compare_orders (p # rest) result =
     (let subResult = sub_result (fst p) (snd p)
      in if acquire_release (fst p) (snd p) \<or>
            (subResult > 0 \<and> result < 0) \<or> (subResult < 0 \<and> result > 0) then -2
         else compare_orders rest (if subResult \<noteq> 0 then subResult else result))"

definition compareTo :: "Inference \<Rightarrow> Inference \<Rightarrow> int" where
  "compareTo this infer =
     (let result = (if in_size this = in_size infer then 0 else if in_size this > in_size infer then 1 else -1);
          smallerSize = (if in_size this > in_size infer then in_size infer else in_size this);
          n = nat (smallerSize + 1)
      in compare_orders (zip (take n (in_orders this)) (take n (in_orders infer))) result)"

section \<open>Patches\<close>

record PatchUnit =
  pu_act :: act_ref
  pu_mo :: memory_order

type_synonym Patch = "PatchUnit list"

definition isApplicable :: "act_store \<Rightarrow> Patch \<Rightarrow> bool" where
  "isApplicable acts patch \<longleftrightarrow>
     (\<forall>u \<in> set patch.
        let wc = ma_original_order (acts (pu_act u)); compVal = compareMemoryOrder wc (pu_mo u)
        in is_wildcard wc \<or> \<not> (compVal = 2 \<or> compVal = -1))"

section \<open>Lists of inferences\<close>

text \<open>The heap of inferences.\<close>

record infer_heap =
  ih_infers :: "infer_ref \<Rightarrow> Inference"
  ih_next :: infer_ref

definition put_infer :: "infer_heap \<Rightarrow> infer_ref \<Rightarrow> Inference \<Rightarrow> infer_heap" where
  "put_infer h r infer = h\<lparr>ih_infers := (ih_infers h)(r := infer)\<rparr>"

definition alloc_infer :: "infer_heap \<Rightarrow> Inference \<Rightarrow> infer_ref \<times> infer_heap" where
  "alloc_infer h infer = (ih_next h, (put_infer h (ih_next h) infer)\<lparr>ih_next := Suc (ih_next h)\<rparr>)"

text \<open>The units of a patch, applied until one cannot be; the flag says whether any order changed.\<close>

fun applyPatch_new :: "act_store \<Rightarrow> Patch \<Rightarrow> bool \<Rightarrow> Inference \<Rightarrow> (bool \<times> Inference) option" where
  "applyPatch_new acts [] updateState newInfer = Some (updateState, newInfer)"
| "applyPatch_new acts (u # us) updateState newInfer = do {
     (canUpdate, hasUpdated, newInfer) \<leftarrow>
       strengthen_flags newInfer (ma_original_order (acts (pu_act u))) (pu_mo u) True False;
     if \<not> canUpdate then Some (updateState, newInfer)
     else applyPatch_new acts us (updateState \<or> hasUpdated) newInfer
   }"

text \<open>A copy of an inference with a patch, appended to the list if the patch changed it.\<close>

definition try_patch ::
    "act_store \<Rightarrow> infer_ref \<Rightarrow> Patch \<Rightarrow> infer_ref list \<times> infer_heap \<Rightarrow> (infer_ref list \<times> infer_heap) option" where
  "try_patch acts infer patch st = do {
     copy \<leftarrow> copy_Inference (ih_infers (snd st) infer);
     (ok, newInfer) \<leftarrow> applyPatch_new acts patch False copy;
     let (r, h) = alloc_infer (snd st) newInfer;
     Some (if ok then fst st @ [r] else fst st, h)
   }"

definition applyPatches ::
    "act_store \<Rightarrow> infer_ref \<Rightarrow> Patch list \<Rightarrow> infer_ref list \<times> infer_heap \<Rightarrow> (infer_ref list \<times> infer_heap) option" where
  "applyPatches acts curInfer patches st =
     (if fst st = [] then foldM (try_patch acts curInfer) patches st
      else foldM (\<lambda>oldInfer st. foldM (try_patch acts oldInfer) patches st) (fst st) ([], snd st))"

text \<open>
  The loops erase with \<open>it = erase(it); it--\<close>, also at the first element, where the decrement reaches
  the sentinel of the list and the next increment the new first element: a filter.
\<close>

definition pruneCandidates :: "infer_heap \<Rightarrow> infer_ref \<Rightarrow> infer_ref list \<Rightarrow> infer_ref list" where
  "pruneCandidates h curInfer candidates =
     fold (\<lambda>cand newCandidates.
         if compareTo (ih_infers h cand) (ih_infers h curInfer) = 0 then newCandidates
         else filter (\<lambda>added. let compVal = compareTo (ih_infers h added) (ih_infers h cand)
                              in \<not> (compVal = 0 \<or> compVal = 1)) newCandidates @ [cand])
       candidates []"

section \<open>Sets of inferences\<close>

record InferenceSet =
  is_discoveredSet :: "infer_ref list"
  is_results :: "infer_ref list"
  is_candidates :: "infer_ref list"
  is_notAddedAtFirstPlace :: int

definition new_InferenceSet :: InferenceSet where
  "new_InferenceSet =
     \<lparr>is_discoveredSet = [], is_results = [], is_candidates = [], is_notAddedAtFirstPlace = 0\<rparr>"

definition addResult :: "infer_heap \<Rightarrow> InferenceSet \<Rightarrow> infer_ref \<Rightarrow> InferenceSet" where
  "addResult h s infer =
     s\<lparr>is_results :=
         filter (\<lambda>existResult. let compVal = compareTo (ih_infers h existResult) (ih_infers h infer)
                               in \<not> (compVal = 0 \<or> compVal = 1)) (is_results s) @ [infer]\<rparr>"

definition commitInference :: "infer_heap \<times> InferenceSet \<Rightarrow> infer_ref \<Rightarrow> bool \<Rightarrow> infer_heap \<times> InferenceSet" where
  "commitInference st infer feasible =
     (let h = put_infer (fst st) infer ((ih_infers (fst st) infer)\<lparr>in_explored := True\<rparr>)
      in (h, if feasible then addResult h (snd st) infer else snd st))"

definition hasBeenDiscovered :: "infer_heap \<Rightarrow> InferenceSet \<Rightarrow> infer_ref \<Rightarrow> bool" where
  "hasBeenDiscovered h s infer \<longleftrightarrow>
     (\<exists>d \<in> set (is_discoveredSet s).
        let compVal = compareTo (ih_infers h d) (ih_infers h infer)
        in compVal = 0 \<or> (compVal = -1 \<and> in_leaf (ih_infers h d) \<and> in_explored (ih_infers h d)))"

definition hasBeenExplored :: "infer_heap \<Rightarrow> InferenceSet \<Rightarrow> infer_ref \<Rightarrow> bool" where
  "hasBeenExplored h s infer \<longleftrightarrow>
     (\<exists>d \<in> set (is_discoveredSet s).
        in_explored (ih_infers h d) \<and>
        (let compVal = compareTo (ih_infers h d) (ih_infers h infer) in compVal = 0 \<or> compVal = -1))"

definition addCurInference :: "infer_heap \<times> InferenceSet \<Rightarrow> infer_ref \<Rightarrow> infer_heap \<times> InferenceSet" where
  "addCurInference st infer =
     (put_infer (fst st) infer ((ih_infers (fst st) infer)\<lparr>in_leaf := False\<rparr>),
      (snd st)\<lparr>is_candidates := is_candidates (snd st) @ [infer]\<rparr>)"

definition addInference :: "infer_heap \<times> InferenceSet \<Rightarrow> infer_ref \<Rightarrow> bool \<times> infer_heap \<times> InferenceSet" where
  "addInference st infer =
     (if \<not> hasBeenDiscovered (fst st) (snd st) infer
      then (True, put_infer (fst st) infer ((ih_infers (fst st) infer)\<lparr>in_leaf := True\<rparr>),
            (snd st)\<lparr>is_candidates := is_candidates (snd st) @ [infer],
                     is_discoveredSet := is_discoveredSet (snd st) @ [infer]\<rparr>)
      else (False, fst st, (snd st)\<lparr>is_notAddedAtFirstPlace := is_notAddedAtFirstPlace (snd st) + 1\<rparr>))"

definition addCandidates ::
    "infer_heap \<times> InferenceSet \<Rightarrow> infer_ref \<Rightarrow> infer_ref list option \<Rightarrow> bool \<times> infer_heap \<times> InferenceSet" where
  "addCandidates st curInfer inferList =
     (case inferList of
        None \<Rightarrow> (False, st)
      | Some l \<Rightarrow>
          fold (\<lambda>candidate (added, st).
              let h = put_infer (fst st) candidate
                        ((ih_infers (fst st) candidate)\<lparr>in_initialInfer := in_initialInfer (ih_infers (fst st) curInfer)\<rparr>);
                  (tmpAdded, st) = addInference (h, snd st) candidate
              in (added \<or> tmpAdded, st))
            (pruneCandidates (fst st) curInfer l) (False, addCurInference st curInfer))"

text \<open>The search takes candidates from the back.\<close>

fun next_inference :: "infer_heap \<times> InferenceSet \<Rightarrow> infer_ref list \<Rightarrow> infer_ref option \<times> infer_heap \<times> InferenceSet" where
  "next_inference st [] = (None, fst st, (snd st)\<lparr>is_candidates := []\<rparr>)"
| "next_inference st (infer # rest) =
     (if \<not> in_leaf (ih_infers (fst st) infer) then next_inference (commitInference st infer False) rest
      else if in_shouldFix (ih_infers (fst st) infer) \<and> hasBeenExplored (fst st) (snd st) infer then next_inference st rest
      else (Some infer, fst st, (snd st)\<lparr>is_candidates := rev rest\<rparr>))"

definition getNextInference :: "infer_heap \<times> InferenceSet \<Rightarrow> infer_ref option \<times> infer_heap \<times> InferenceSet" where
  "getNextInference st = next_inference st (rev (is_candidates (snd st)))"

text \<open>Adding the inferences with one strengthened wildcard made weaker.\<close>

definition add_undiscovered :: "infer_heap \<times> InferenceSet \<Rightarrow> Inference \<Rightarrow> infer_heap \<times> InferenceSet" where
  "add_undiscovered st weaker =
     (let (r, h) = alloc_infer (fst st) (weaker\<lparr>in_shouldFix := False, in_leaf := True\<rparr>)
      in if \<exists>d \<in> set (is_discoveredSet (snd st)).
              compareTo (ih_infers h d) (ih_infers h r) = 0 \<and> \<not> in_leaf (ih_infers h d)
         then (h, snd st) else snd (addInference (h, snd st) r))"

definition weaken_at :: "Inference \<Rightarrow> Inference \<Rightarrow> int \<Rightarrow> infer_heap \<times> InferenceSet \<Rightarrow> (infer_heap \<times> InferenceSet) option" where
  "weaken_at cur initial w st = do {
     (mo1, _) \<leftarrow> inference_at cur w;
     (mo2, _) \<leftarrow> inference_at initial w;
     let weakerMO = nextWeakOrder mo1 mo2;
     copy \<leftarrow> copy_Inference cur;
     if mo1 = memory_order_acq_rel
     then if mo2 = memory_order_acquire \<or> mo2 = memory_order_release
          then do { weaker \<leftarrow> inference_put copy w mo2; Some (add_undiscovered st weaker) }
          else do {
            weaker1 \<leftarrow> inference_put copy w memory_order_acquire;
            weaker2 \<leftarrow> inference_put copy w memory_order_release;
            Some (add_undiscovered (add_undiscovered st weaker1) weaker2)
          }
     else do {
       weaker \<leftarrow> (if mo2 \<noteq> weakerMO then inference_put copy w weakerMO else Some copy);
       Some (add_undiscovered st weaker)
     }
   }"

definition addWeakerInference :: "infer_heap \<times> InferenceSet \<Rightarrow> infer_ref \<Rightarrow> (infer_heap \<times> InferenceSet) option" where
  "addWeakerInference st curInfer = do {
     let cur = ih_infers (fst st) curInfer;
     let initial = in_initialInfer cur;
     (strengthened, infer2) \<leftarrow> strengthened_wildcards cur (ih_infers (fst st) initial);
     foldM (\<lambda>w st. weaken_at cur infer2 w st) strengthened (put_infer (fst st) initial infer2, snd st)
   }"

end
