(* ===== verification/InferLattice.thy ===== *)
theory InferLattice
  imports Inference Action
begin

text \<open>
  The lattice of inferences. Each memory order is given the set of its powers, with \<open>Chosen\<close> telling
  relaxed from a wildcard without an order; strengthening is the union of powers, patches are
  sequences of strengthenings, and \<open>compareTo\<close> is compared with inclusion of powers.
\<close>

section \<open>Powers of orders\<close>

datatype power = Chosen | Acq | Rel | SC

fun powers :: "memory_order \<Rightarrow> power set" where
  "powers memory_order_relaxed = {Chosen}"
| "powers memory_order_acquire = {Chosen, Acq}"
| "powers memory_order_release = {Chosen, Rel}"
| "powers memory_order_acq_rel = {Chosen, Acq, Rel}"
| "powers memory_order_seq_cst = {Chosen, Acq, Rel, SC}"
| "powers (memory_order_other w) = {}"

definition c11 :: "memory_order \<Rightarrow> bool" where
  "c11 mo \<longleftrightarrow> (case mo of memory_order_other w \<Rightarrow> False | _ \<Rightarrow> True)"

definition order_of :: "Inference \<Rightarrow> int \<Rightarrow> memory_order" where
  "order_of infer w = (if 0 \<le> w \<and> w \<le> in_size infer then in_orders infer ! nat w else WILDCARD_NONEXIST)"

definition wf_inference :: "Inference \<Rightarrow> bool" where
  "wf_inference infer \<longleftrightarrow>
     length (in_orders infer) = nat (in_size infer) + 1 \<and> 0 < in_size infer \<and> in_size infer \<le> MAX_WILDCARD_NUM \<and>
     (\<forall>mo \<in> set (in_orders infer). c11 mo \<or> mo = WILDCARD_NONEXIST)"

lemma c11_simps [simp]:
  "c11 memory_order_relaxed" "c11 memory_order_acquire" "c11 memory_order_release"
  "c11 memory_order_acq_rel" "c11 memory_order_seq_cst" "\<not> c11 (memory_order_other w)"
  by (simp_all add: c11_def)

lemma c11_range: "c11 mo \<Longrightarrow> in_C11_range mo"
  by (cases mo) simp_all

lemma stronger_order_powers:
  assumes "c11 old \<or> old = WILDCARD_NONEXIST" and "c11 mo"
  shows "case stronger_order old mo of
           None \<Rightarrow> powers mo \<subseteq> powers old
         | Some new \<Rightarrow> c11 new \<and> \<not> powers mo \<subseteq> powers old \<and> powers new = powers old \<union> powers mo"
  using assms by (cases old; cases mo) auto

lemma wildcard_id:
  assumes "1 \<le> w" and "w \<le> MAX_WILDCARD_NUM"
  shows "get_wildcard_id (wildcard (word_of_int w)) = w" and "is_wildcard (wildcard (word_of_int w))"
proof -
  show "get_wildcard_id (wildcard (word_of_int w)) = w"
    using assms by (simp add: int_word_sint)
  have u: "uint (0x1000 + word_of_int w :: 32 word) = 0x1000 + w"
    using assms by (simp add: uint_word_ariths uint_word_of_int)
  have "(0x1000 + word_of_int w :: 32 word) \<noteq> 0x2000"
  proof
    assume "(0x1000 + word_of_int w :: 32 word) = 0x2000"
    from arg_cong [OF this, of uint] show False using u assms by simp
  qed
  then show "is_wildcard (wildcard (word_of_int w))" using u assms by (simp add: word_le_def)
qed

lemma wf_nth: "wf_inference infer \<Longrightarrow> i < length (in_orders infer) \<Longrightarrow>
    c11 (in_orders infer ! i) \<or> in_orders infer ! i = WILDCARD_NONEXIST"
  by (auto simp: wf_inference_def)

lemma resize_enlarges:
  assumes "wf_inference infer" and "in_size infer < n" and "n \<le> MAX_WILDCARD_NUM"
  shows "\<exists>infer'. Inference_resize infer n = Some infer' \<and> wf_inference infer' \<and> in_size infer' = n \<and>
           order_of infer' = order_of infer"
  using assms
  by (auto simp: Inference_resize_def wf_inference_def order_of_def fun_eq_iff nth_append)

section \<open>Strengthening and patches\<close>

lemma strengthen_inside:
  assumes wf: "wf_inference infer" and w: "1 \<le> w" "w \<le> in_size infer" and mo: "c11 mo"
  shows "\<exists>r infer'. strengthen infer (wildcard (word_of_int w)) mo = Some (r, infer') \<and> wf_inference infer' \<and>
           in_size infer' = in_size infer \<and>
           powers (order_of infer' w) = powers (order_of infer w) \<union> powers mo \<and>
           (\<forall>v. v \<noteq> w \<longrightarrow> order_of infer' v = order_of infer v) \<and>
           r = (if powers mo \<subseteq> powers (order_of infer w) then 0 else 1) \<and>
           (r = 0 \<longrightarrow> infer' = infer)"
proof -
  let ?old = "in_orders infer ! nat w"
  have w50: "w \<le> MAX_WILDCARD_NUM" and len: "nat w < length (in_orders infer)"
    using wf w by (auto simp: wf_inference_def)
  note ids = wildcard_id [OF w(1) w50]
  have old: "c11 ?old \<or> ?old = WILDCARD_NONEXIST" using wf_nth [OF wf len] .
  have at: "order_of infer w = ?old" using w by (simp add: order_of_def)
  have eq: "strengthen infer (wildcard (word_of_int w)) mo =
      Some (case stronger_order ?old mo of None \<Rightarrow> (0, infer)
            | Some new \<Rightarrow> (1, infer\<lparr>in_orders := (in_orders infer)[nat w := new]\<rparr>))"
    unfolding strengthen_def Let_def ids(1)
    using ids(2) w len old c11_range [OF mo] c11_range [of ?old] by (auto simp: vec_at_def)
  show ?thesis
  proof (cases "stronger_order ?old mo")
    case None
    then show ?thesis using eq stronger_order_powers [OF old mo] wf at by auto
  next
    case (Some new)
    let ?infer = "infer\<lparr>in_orders := (in_orders infer)[nat w := new]\<rparr>"
    have new: "c11 new" "\<not> powers mo \<subseteq> powers ?old" "powers new = powers ?old \<union> powers mo"
      using stronger_order_powers [OF old mo] Some by auto
    have "wf_inference ?infer"
      using wf new(1) set_update_subset_insert [of "in_orders infer" "nat w" new]
      by (auto simp: wf_inference_def)
    moreover have "order_of ?infer w = new" using w len by (simp add: order_of_def)
    moreover have "\<forall>v. v \<noteq> w \<longrightarrow> order_of ?infer v = order_of infer v"
      using w by (auto simp: order_of_def nth_list_update)
    ultimately show ?thesis using eq Some new at by auto
  qed
qed

lemma strengthen_resized:
  assumes wf: "wf_inference infer" and w: "1 \<le> w" "w \<le> MAX_WILDCARD_NUM" and big: "in_size infer < w"
    and res: "Inference_resize infer w = Some infer1" and size: "in_size infer1 = w"
  shows "strengthen infer (wildcard (word_of_int w)) mo = strengthen infer1 (wildcard (word_of_int w)) mo"
  unfolding strengthen_def Let_def wildcard_id(1) [OF w] using assms wildcard_id(2) [OF w] by simp

lemma strengthen_join:
  assumes wf: "wf_inference infer" and w: "1 \<le> w" "w \<le> MAX_WILDCARD_NUM" and mo: "c11 mo"
  shows "\<exists>r infer'. strengthen infer (wildcard (word_of_int w)) mo = Some (r, infer') \<and> wf_inference infer' \<and>
           in_size infer' = max w (in_size infer) \<and>
           powers (order_of infer' w) = powers (order_of infer w) \<union> powers mo \<and>
           (\<forall>v. v \<noteq> w \<longrightarrow> order_of infer' v = order_of infer v) \<and>
           r = (if powers mo \<subseteq> powers (order_of infer w) then 0 else 1)"
proof (cases "w \<le> in_size infer")
  case True
  then show ?thesis using strengthen_inside [OF wf w(1) _ mo] by (fastforce simp: max_def)
next
  case False
  then obtain infer1 where 1: "Inference_resize infer w = Some infer1" "wf_inference infer1"
      "in_size infer1 = w" "order_of infer1 = order_of infer"
    using resize_enlarges [OF wf _ w(2)] by auto
  have "strengthen infer (wildcard (word_of_int w)) mo = strengthen infer1 (wildcard (word_of_int w)) mo"
    using strengthen_resized [OF wf w _ 1(1,3)] False by simp
  then show ?thesis using strengthen_inside [OF 1(2) w(1) _ mo] 1(3,4) False by (fastforce simp: max_def)
qed

lemma strengthen_fixed: "c11 wc \<Longrightarrow> strengthen infer wc mo = Some (-1, infer)"
  using c11_range [of wc] by (simp add: strengthen_def Let_def)

text \<open>
  (C35) Strengthening is the join of the lattice of orders. For an action whose order is wildcard
  \<open>w\<close> of the allowed ids 1 to 50 and a requested order of C11, \<open>strengthen\<close> returns, leaves a well-formed inference in which \<open>w\<close> has exactly the powers it
  had and those of the requested order, keeps every other wildcard, and returns 0 exactly if the
  order was strong enough before and 1 otherwise; the inference grows exactly as far as \<open>w\<close> needs.
  An action with a fixed order is refused with -1 and the inference kept.
\<close>

theorem strengthen_is_join:
  assumes "wf_inference infer" and "1 \<le> w" and "w \<le> MAX_WILDCARD_NUM" and "c11 mo" and "c11 fixed"
  shows "strengthen infer fixed mo = Some (-1, infer) \<and>
         (\<exists>r infer'. strengthen infer (wildcard (word_of_int w)) mo = Some (r, infer') \<and> wf_inference infer' \<and>
           in_size infer' = max w (in_size infer) \<and>
           powers (order_of infer' w) = powers (order_of infer w) \<union> powers mo \<and>
           (\<forall>v. v \<noteq> w \<longrightarrow> order_of infer' v = order_of infer v) \<and>
           r = (if powers mo \<subseteq> powers (order_of infer w) then 0 else 1))"
  using strengthen_join [OF assms(1-4)] strengthen_fixed [OF assms(5)] by simp

lemma new_Inference_wf: "wf_inference (new_Inference r)"
  by (simp add: wf_inference_def new_Inference_def)

lemma order_of_new: "order_of (new_Inference r) w = WILDCARD_NONEXIST"
  by (auto simp: order_of_def new_Inference_def nth_Cons' eval_nat_numeral)

theorem strengthen_is_join_witness:
  "\<exists>infer'. strengthen (new_Inference 0) (wildcard 7) memory_order_release = Some (1, infer') \<and>
     in_size infer' = 7 \<and> powers (order_of infer' 7) = {Chosen, Rel}"
  using strengthen_is_join [OF new_Inference_wf [of 0], of 7 memory_order_release memory_order_relaxed]
  by (auto simp: order_of_new) (simp add: new_Inference_def)

text \<open>The units of a patch before the first one whose action has a fixed order.\<close>

definition applied_units :: "act_store \<Rightarrow> Patch \<Rightarrow> PatchUnit list" where
  "applied_units acts patch = takeWhile (\<lambda>u. \<not> c11 (ma_original_order (acts (pu_act u)))) patch"

definition wf_unit :: "act_store \<Rightarrow> PatchUnit \<Rightarrow> bool" where
  "wf_unit acts u \<longleftrightarrow> c11 (pu_mo u) \<and>
     (c11 (ma_original_order (acts (pu_act u))) \<or>
      ma_original_order (acts (pu_act u)) \<in> (\<lambda>w. wildcard (word_of_int w)) ` {1..MAX_WILDCARD_NUM})"

definition unit_powers :: "act_store \<Rightarrow> int \<Rightarrow> PatchUnit \<Rightarrow> power set" where
  "unit_powers acts w u =
     (if get_wildcard_id (ma_original_order (acts (pu_act u))) = w then powers (pu_mo u) else {})"

lemma patch_units:
  assumes "wf_inference infer" and "\<forall>u \<in> set patch. wf_unit acts u"
  shows "\<exists>ok infer'. applyPatch_new acts patch b infer = Some (ok, infer') \<and> wf_inference infer' \<and>
     (\<forall>w. powers (order_of infer' w) =
            powers (order_of infer w) \<union> (\<Union>u \<in> set (applied_units acts patch). unit_powers acts w u)) \<and>
     (ok \<longleftrightarrow> b \<or> (\<exists>w. powers (order_of infer' w) \<noteq> powers (order_of infer w)))"
  using assms
proof (induction patch arbitrary: b infer)
  case Nil
  then show ?case by (simp add: applied_units_def)
next
  case (Cons u us)
  let ?wc = "ma_original_order (acts (pu_act u))"
  show ?case
  proof (cases "c11 ?wc")
    case True
    then show ?thesis
      using Cons.prems by (simp add: applied_units_def strengthen_flags_def strengthen_fixed)
  next
    case False
    then obtain w where w: "1 \<le> w" "w \<le> MAX_WILDCARD_NUM" and wc: "?wc = wildcard (word_of_int w)"
      using Cons.prems(2) by (auto simp: wf_unit_def)
    have mo: "c11 (pu_mo u)" using Cons.prems(2) by (simp add: wf_unit_def)
    obtain r infer1 where 1: "strengthen infer ?wc (pu_mo u) = Some (r, infer1)" "wf_inference infer1"
        "powers (order_of infer1 w) = powers (order_of infer w) \<union> powers (pu_mo u)"
        "\<And>v. v \<noteq> w \<Longrightarrow> order_of infer1 v = order_of infer v"
        "r = (if powers (pu_mo u) \<subseteq> powers (order_of infer w) then 0 else 1)"
      using strengthen_join [OF Cons.prems(1) w mo] unfolding wc by blast
    have up: "unit_powers acts v u = (if v = w then powers (pu_mo u) else {})" for v
      unfolding unit_powers_def wc wildcard_id(1) [OF w] by auto
    have p1: "powers (order_of infer1 v) = powers (order_of infer v) \<union> unit_powers acts v u" for v
      using 1(3,4) up by auto
    have r: "r = 1 \<longleftrightarrow> (\<exists>v. powers (order_of infer1 v) \<noteq> powers (order_of infer v))" "r \<noteq> -1"
      using 1(5) p1 up by auto
    obtain ok infer' where 2: "applyPatch_new acts us (b \<or> r = 1) infer1 = Some (ok, infer')"
        "wf_inference infer'"
        "\<And>v. powers (order_of infer' v) =
            powers (order_of infer1 v) \<union> (\<Union>u \<in> set (applied_units acts us). unit_powers acts v u)"
        "ok \<longleftrightarrow> (b \<or> r = 1) \<or> (\<exists>v. powers (order_of infer' v) \<noteq> powers (order_of infer1 v))"
      using Cons.IH [OF 1(2), of "b \<or> r = 1"] Cons.prems(2) by auto
    have app: "applyPatch_new acts (u # us) b infer = Some (ok, infer')"
      using 1(1) 2(1) r(2) by (cases "r = 1") (simp_all add: strengthen_flags_def)
    have all: "powers (order_of infer' v) = powers (order_of infer v) \<union>
        (\<Union>u \<in> set (applied_units acts (u # us)). unit_powers acts v u)" for v
      using 2(3) [of v] p1 [of v] False by (auto simp: applied_units_def)
    have "ok \<longleftrightarrow> b \<or> (\<exists>v. powers (order_of infer' v) \<noteq> powers (order_of infer v))"
      using 2(3,4) r(1) p1 by blast
    then show ?thesis using app 2(2) all by blast
  qed
qed

text \<open>
  (C36) Applying a patch to an inference returns, never weakens an order, and gives each wildcard
  exactly its old powers and those that the units before the first unit on a fixed order ask for;
  it answers true exactly if the powers of some wildcard changed. So a patch with a unit that
  cannot be applied is accepted as soon as an earlier unit changed something.
\<close>

theorem patch_application:
  assumes "wf_inference infer" and "\<forall>u \<in> set patch. wf_unit acts u"
  shows "\<exists>ok infer'. applyPatch_new acts patch False infer = Some (ok, infer') \<and> wf_inference infer' \<and>
     (\<forall>w. powers (order_of infer' w) =
            powers (order_of infer w) \<union> (\<Union>u \<in> set (applied_units acts patch). unit_powers acts w u)) \<and>
     (ok \<longleftrightarrow> (\<exists>w. powers (order_of infer' w) \<noteq> powers (order_of infer w)))"
  using patch_units [OF assms, of False] by simp

definition example_patch :: Patch where
  "example_patch = [\<lparr>pu_act = 0, pu_mo = memory_order_release\<rparr>, \<lparr>pu_act = 1, pu_mo = memory_order_acquire\<rparr>]"

definition example_patch_acts :: act_store where
  "example_patch_acts r = example_action ATOMIC_WRITE (if r = 0 then wildcard 1 else memory_order_relaxed)"

lemma example_patch_wf: "\<forall>u \<in> set example_patch. wf_unit example_patch_acts u"
  using image_eqI [of "wildcard 1" "\<lambda>w. wildcard (word_of_int w)" 1 "{1..MAX_WILDCARD_NUM}"]
  by (simp add: example_patch_def example_patch_acts_def wf_unit_def example_action_def)

lemma example_patch_powers:
  "(\<Union>u \<in> set (applied_units example_patch_acts example_patch). unit_powers example_patch_acts 1 u) = {Chosen, Rel}"
  by (simp add: applied_units_def example_patch_def example_patch_acts_def example_action_def unit_powers_def)

theorem patch_application_witness:
  "\<exists>infer'. applyPatch_new example_patch_acts example_patch False (new_Inference 0) = Some (True, infer') \<and>
     powers (order_of infer' 1) = {Chosen, Rel}"
proof -
  obtain ok infer' where 1:
      "applyPatch_new example_patch_acts example_patch False (new_Inference 0) = Some (ok, infer')" and 2:
      "\<forall>w. powers (order_of infer' w) = powers (order_of (new_Inference 0) w) \<union>
         (\<Union>u \<in> set (applied_units example_patch_acts example_patch). unit_powers example_patch_acts w u)" and 3:
      "ok \<longleftrightarrow> (\<exists>w. powers (order_of infer' w) \<noteq> powers (order_of (new_Inference 0) w))"
    using patch_application [OF new_Inference_wf example_patch_wf, of 0] by (elim exE conjE) (rule that)
  have 4: "powers (order_of infer' 1) = {Chosen, Rel}"
    using 2 [THEN spec, of 1] unfolding example_patch_powers order_of_new by simp
  then have "powers (order_of infer' 1) \<noteq> powers (order_of (new_Inference 0) 1)"
    unfolding order_of_new by simp
  then have "ok = True" using 3 by blast
  with 1 have "applyPatch_new example_patch_acts example_patch False (new_Inference 0) = Some (True, infer')"
    by (simp only:)
  then show ?thesis using 4 by blast
qed

section \<open>Comparing inferences\<close>

definition comparable_pair :: "memory_order \<times> memory_order \<Rightarrow> bool" where
  "comparable_pair p \<longleftrightarrow> c11 (fst p) \<and> c11 (snd p) \<or> fst p = WILDCARD_NONEXIST \<and> snd p = WILDCARD_NONEXIST"

lemma sub_result_powers:
  assumes "comparable_pair (m1, m2)"
  shows "if acquire_release m1 m2 then \<not> powers m1 \<subseteq> powers m2 \<and> \<not> powers m2 \<subseteq> powers m1
         else sub_result m1 m2 = (if m1 = m2 then 0 else if powers m2 \<subseteq> powers m1 then 1 else -1) \<and>
              (powers m1 \<subseteq> powers m2 \<or> powers m2 \<subseteq> powers m1) \<and> (m1 = m2 \<longleftrightarrow> powers m1 = powers m2)"
  using assms by (cases m1; cases m2) (auto simp: comparable_pair_def sub_result_def)

definition comparison :: "bool \<Rightarrow> bool \<Rightarrow> int" where
  "comparison ge le = (if ge \<and> le then 0 else if ge then 1 else if le then -1 else -2)"

lemma compare_step:
  assumes "\<not> acquire_release m1 m2"
  shows "compare_orders ((m1, m2) # ps) r =
     (if (sub_result m1 m2 > 0 \<and> r < 0) \<or> (sub_result m1 m2 < 0 \<and> r > 0) then -2
      else compare_orders ps (if sub_result m1 m2 \<noteq> 0 then sub_result m1 m2 else r))"
  using assms by (simp only: compare_orders.simps Let_def fst_conv snd_conv simp_thms if_False)

lemma compare_orders_comparison:
  assumes "\<forall>p \<in> set ps. comparable_pair p" and "r \<in> {-1, 0, 1}"
  shows "compare_orders ps r =
           comparison (0 \<le> r \<and> (\<forall>p \<in> set ps. powers (snd p) \<subseteq> powers (fst p)))
                   (r \<le> 0 \<and> (\<forall>p \<in> set ps. powers (fst p) \<subseteq> powers (snd p)))"
  using assms
proof (induction ps arbitrary: r)
  case Nil
  then show ?case by (auto simp: comparison_def)
next
  case (Cons p ps)
  obtain m1 m2 where p: "p = (m1, m2)" by (cases p)
  let ?s = "sub_result m1 m2"
  note sub = sub_result_powers [of m1 m2]
  have good: "comparable_pair (m1, m2)" and rest: "\<forall>p \<in> set ps. comparable_pair p"
    using Cons.prems p by auto
  show ?case
  proof (cases "acquire_release m1 m2")
    case True
    then show ?thesis using sub good by (simp add: p Let_def comparison_def)
  next
    case False
    then have s: "?s = (if m1 = m2 then 0 else if powers m2 \<subseteq> powers m1 then 1 else -1)"
        "powers m1 \<subseteq> powers m2 \<or> powers m2 \<subseteq> powers m1" "m1 = m2 \<longleftrightarrow> powers m1 = powers m2"
      using sub good by auto
    then consider "?s = 0" "m1 = m2" | "?s = 1" "powers m2 \<subset> powers m1" | "?s = -1" "powers m1 \<subset> powers m2"
      by (auto split: if_splits)
    then show ?thesis
    proof cases
      case 1
      then show ?thesis unfolding p compare_step [OF False] using Cons.IH [OF rest Cons.prems(2)] by simp
    next
      case 2
      then show ?thesis unfolding p compare_step [OF False] using Cons.IH [OF rest, of 1] Cons.prems(2)
        by (auto simp: comparison_def)
    next
      case 3
      then show ?thesis unfolding p compare_step [OF False] using Cons.IH [OF rest, of "-1"] Cons.prems(2)
        by (auto simp: comparison_def)
    qed
  qed
qed

lemma compareTo_same_size:
  assumes "wf_inference a" and "wf_inference b" and "in_size a = in_size b"
  shows "compareTo a b = compare_orders (zip (in_orders a) (in_orders b)) 0"
  using assms by (simp add: compareTo_def wf_inference_def Let_def nat_add_distrib)

lemma all_orders:
  assumes "wf_inference a" and "wf_inference b" and "in_size a = in_size b"
  shows "(\<forall>p \<in> set (zip (in_orders a) (in_orders b)). P (fst p) (snd p)) \<longleftrightarrow>
         (\<forall>w. 0 \<le> w \<and> w \<le> in_size a \<longrightarrow> P (order_of a w) (order_of b w))"
proof -
  have len: "length (in_orders a) = nat (in_size a) + 1" "length (in_orders b) = nat (in_size a) + 1"
    using assms by (auto simp: wf_inference_def)
  have "(\<forall>p \<in> set (zip (in_orders a) (in_orders b)). P (fst p) (snd p)) \<longleftrightarrow>
        (\<forall>i < nat (in_size a) + 1. P (in_orders a ! i) (in_orders b ! i))"
    using len by (auto simp: set_zip)
  also have "\<dots> \<longleftrightarrow> (\<forall>w. 0 \<le> w \<and> w \<le> in_size a \<longrightarrow> P (order_of a w) (order_of b w))"
  proof (intro iffI allI impI)
    fix w assume "\<forall>i < nat (in_size a) + 1. P (in_orders a ! i) (in_orders b ! i)" "0 \<le> w \<and> w \<le> in_size a"
    then show "P (order_of a w) (order_of b w)" using assms(3) by (auto simp: order_of_def)
  next
    fix i assume "\<forall>w. 0 \<le> w \<and> w \<le> in_size a \<longrightarrow> P (order_of a w) (order_of b w)" "i < nat (in_size a) + 1"
    then show "P (in_orders a ! i) (in_orders b ! i)"
      using assms spec [of "\<lambda>w. 0 \<le> w \<and> w \<le> in_size a \<longrightarrow> P (order_of a w) (order_of b w)" "int i"]
      by (auto simp: order_of_def wf_inference_def)
  qed
  finally show ?thesis .
qed

definition as_strong :: "Inference \<Rightarrow> Inference \<Rightarrow> bool" where
  "as_strong a b \<longleftrightarrow> (\<forall>w. 0 \<le> w \<and> w \<le> in_size a \<longrightarrow> powers (order_of b w) \<subseteq> powers (order_of a w))"

definition same_wildcards :: "Inference \<Rightarrow> Inference \<Rightarrow> bool" where
  "same_wildcards a b \<longleftrightarrow>
     in_size a = in_size b \<and> (\<forall>w. 0 \<le> w \<and> w \<le> in_size a \<longrightarrow> comparable_pair (order_of a w, order_of b w))"

text \<open>
  (C37) On inferences that give orders to the same wildcards, \<open>compareTo\<close> decides the pointwise
  order: 0 if each is as strong as the other, 1 if only the first is as strong as the second, -1 if
  only the second is, and -2 if they are incomparable.
\<close>

theorem compareTo_pointwise:
  assumes "wf_inference a" and "wf_inference b" and "same_wildcards a b"
  shows "compareTo a b = comparison (as_strong a b) (as_strong b a)"
proof -
  have size: "in_size a = in_size b"
    and pairs: "\<forall>w. 0 \<le> w \<and> w \<le> in_size a \<longrightarrow> comparable_pair (order_of a w, order_of b w)"
    using assms(3) by (auto simp: same_wildcards_def)
  note all = all_orders [OF assms(1,2) size]
  have "\<forall>p \<in> set (zip (in_orders a) (in_orders b)). comparable_pair p"
    using all [of "\<lambda>x y. comparable_pair (x, y)"] pairs by simp
  then have "compareTo a b =
      comparison (\<forall>p \<in> set (zip (in_orders a) (in_orders b)). powers (snd p) \<subseteq> powers (fst p))
              (\<forall>p \<in> set (zip (in_orders a) (in_orders b)). powers (fst p) \<subseteq> powers (snd p))"
    using compare_orders_comparison [of "zip (in_orders a) (in_orders b)" 0]
    by (simp add: compareTo_same_size [OF assms(1,2) size])
  then show ?thesis
    using all [of "\<lambda>x y. powers y \<subseteq> powers x"] all [of "\<lambda>x y. powers x \<subseteq> powers y"] size
    by (simp add: as_strong_def)
qed

definition example_inference :: "memory_order list \<Rightarrow> Inference" where
  "example_inference mos = (new_Inference 0)\<lparr>in_orders := WILDCARD_NONEXIST # mos, in_size := int (length mos)\<rparr>"

lemma example_orders:
  "wf_inference (example_inference [m1, m2]) \<longleftrightarrow> (\<forall>m \<in> {m1, m2}. c11 m \<or> m = WILDCARD_NONEXIST)"
  "in_size (example_inference [m1, m2]) = 2"
  "0 \<le> w \<and> w \<le> 2 \<longleftrightarrow> w = 0 \<or> w = 1 \<or> w = (2::int)"
  "order_of (example_inference [m1, m2]) 0 = WILDCARD_NONEXIST"
  "order_of (example_inference [m1, m2]) 1 = m1" "order_of (example_inference [m1, m2]) 2 = m2"
  by (auto simp: example_inference_def new_Inference_def wf_inference_def order_of_def)

theorem compareTo_pointwise_witness:
  "compareTo (example_inference [memory_order_acq_rel, memory_order_relaxed])
             (example_inference [memory_order_release, memory_order_relaxed]) = 1"
  using compareTo_pointwise [of "example_inference [memory_order_acq_rel, memory_order_relaxed]"
      "example_inference [memory_order_release, memory_order_relaxed]"]
  by (auto simp: example_orders same_wildcards_def as_strong_def comparable_pair_def comparison_def
           dest: spec [of _ 1])

section \<open>Wildcards without an order\<close>

lemma compare_never_less:
  assumes "\<forall>p \<in> set ps. \<not> acquire_release (fst p) (snd p) \<and>
             sub_result (fst p) (snd p) = (if fst p = snd p then 0 else 1)"
    and "r \<in> {0, 1}"
  shows "compare_orders ps r = (if r = 1 \<or> (\<exists>p \<in> set ps. fst p \<noteq> snd p) then 1 else 0)"
  using assms
proof (induction ps arbitrary: r)
  case (Cons p ps)
  obtain m1 m2 where p: "p = (m1, m2)" by (cases p)
  have n: "\<not> acquire_release m1 m2" and s: "sub_result m1 m2 = (if m1 = m2 then 0 else 1)"
    using Cons.prems(1) p by auto
  have IH: "compare_orders ps q = (if q = 1 \<or> (\<exists>p \<in> set ps. fst p \<noteq> snd p) then 1 else 0)" if "q \<in> {0, 1}" for q
    using Cons.IH [OF _ that] Cons.prems(1) by simp
  show ?case unfolding p compare_step [OF n] s using IH [of 1] IH [of r] Cons.prems(2) by auto
qed auto

lemma sub_result_unset:
  "m1 = WILDCARD_NONEXIST \<or> m1 = m2 \<Longrightarrow> \<not> acquire_release m1 m2 \<and> sub_result m1 m2 = (if m1 = m2 then 0 else 1)"
  "m1 = m2 \<or> m1 = memory_order_relaxed \<and> m2 = WILDCARD_NONEXIST \<Longrightarrow>
     \<not> acquire_release m1 m2 \<and> sub_result m1 m2 = (if m1 = m2 then 0 else 1)"
  by (auto simp: sub_result_def)

text \<open>
  (C38) A wildcard without an order counts as the strongest. Let \<open>b\<close> be \<open>a\<close> with orders given to
  some wildcards that have none in \<open>a\<close>: \<open>compareTo\<close> says that \<open>a\<close> is the stronger one, although
  it is the weaker one; and if all of the added orders are relaxed it says so both ways.
\<close>

theorem compareTo_unset_strongest:
  assumes wf: "wf_inference a" "wf_inference b" and size: "in_size a = in_size b"
    and more: "\<forall>w. 0 \<le> w \<and> w \<le> in_size a \<longrightarrow> order_of a w = WILDCARD_NONEXIST \<or> order_of a w = order_of b w"
    and diff: "\<exists>w. 0 \<le> w \<and> w \<le> in_size a \<and> order_of a w \<noteq> order_of b w"
  shows "compareTo a b = 1 \<and>
         ((\<forall>w. 0 \<le> w \<and> w \<le> in_size a \<and> order_of a w \<noteq> order_of b w \<longrightarrow> order_of b w = memory_order_relaxed) \<longrightarrow>
          compareTo b a = 1)"
proof (intro conjI impI)
  note ab = all_orders [OF wf size] and ba = all_orders [OF wf(2,1) size [symmetric]]
  let ?ok = "\<lambda>m1 m2. \<not> acquire_release m1 m2 \<and> sub_result m1 m2 = (if m1 = m2 then 0 else 1)"
  have "\<forall>p \<in> set (zip (in_orders a) (in_orders b)). ?ok (fst p) (snd p)"
    unfolding ab [of ?ok] using more sub_result_unset(1) by blast
  moreover have "\<exists>p \<in> set (zip (in_orders a) (in_orders b)). fst p \<noteq> snd p"
    using ab [of "(=)"] diff by blast
  ultimately show "compareTo a b = 1"
    unfolding compareTo_same_size [OF wf size] using compare_never_less [of _ 0] by simp
  assume rel: "\<forall>w. 0 \<le> w \<and> w \<le> in_size a \<and> order_of a w \<noteq> order_of b w \<longrightarrow> order_of b w = memory_order_relaxed"
  have "\<forall>p \<in> set (zip (in_orders b) (in_orders a)). ?ok (fst p) (snd p)"
    unfolding ba [of ?ok] size [symmetric] using more rel sub_result_unset(2) by metis
  moreover have "\<exists>p \<in> set (zip (in_orders b) (in_orders a)). fst p \<noteq> snd p"
    using ba [of "(=)"] diff size by metis
  ultimately show "compareTo b a = 1"
    unfolding compareTo_same_size [OF wf(2,1) size [symmetric]] using compare_never_less [of _ 0] by simp
qed

theorem compareTo_unset_strongest_witness:
  "compareTo (example_inference [WILDCARD_NONEXIST, memory_order_acquire])
             (example_inference [memory_order_relaxed, memory_order_acquire]) = 1 \<and>
   compareTo (example_inference [memory_order_relaxed, memory_order_acquire])
             (example_inference [WILDCARD_NONEXIST, memory_order_acquire]) = 1"
proof -
  let ?a = "example_inference [WILDCARD_NONEXIST, memory_order_acquire]"
  let ?b = "example_inference [memory_order_relaxed, memory_order_acquire]"
  have upto: "w = 0 \<or> w = 1 \<or> w = 2" if "0 \<le> w \<and> w \<le> in_size ?a" for w
    using that by (auto simp: example_orders)
  have wf: "wf_inference ?a" "wf_inference ?b" "in_size ?a = in_size ?b" by (simp_all add: example_orders)
  have more: "\<forall>w. 0 \<le> w \<and> w \<le> in_size ?a \<longrightarrow> order_of ?a w = WILDCARD_NONEXIST \<or> order_of ?a w = order_of ?b w"
    using upto by (auto simp: example_orders)
  have diff: "\<exists>w. 0 \<le> w \<and> w \<le> in_size ?a \<and> order_of ?a w \<noteq> order_of ?b w"
    by (rule exI [of _ 1]) (simp add: example_orders)
  have "\<forall>w. 0 \<le> w \<and> w \<le> in_size ?a \<and> order_of ?a w \<noteq> order_of ?b w \<longrightarrow> order_of ?b w = memory_order_relaxed"
  proof (intro allI impI)
    fix w assume w: "0 \<le> w \<and> w \<le> in_size ?a \<and> order_of ?a w \<noteq> order_of ?b w"
    with upto [of w] have "w = 0 \<or> w = 1 \<or> w = 2" by blast
    with w show "order_of ?b w = memory_order_relaxed" by (auto simp: example_orders(4-6))
  qed
  then show ?thesis using compareTo_unset_strongest [OF wf more diff] by blast
qed

end
