(* ===== verification/InferSearch.thy ===== *)
theory InferSearch
  imports InferLattice
begin

text \<open>
  The set of inferences during the search. Steps of the search change flags and initial inferences
  of the objects but not their orders, so the verdicts of \<open>compareTo\<close> on the listed objects stay;
  the lists of discovered inferences and of results stay free of repetitions, and taking the next
  candidate ends with a leaf that is still to be explored.
\<close>

section \<open>Verdicts are stable\<close>

definition orders_part :: "infer_heap \<Rightarrow> infer_ref \<Rightarrow> memory_order list \<times> int" where
  "orders_part h r = (in_orders (ih_infers h r), in_size (ih_infers h r))"

lemma compareTo_part:
  assumes "orders_part h' = orders_part h"
  shows "compareTo (ih_infers h' a) (ih_infers h' b) = compareTo (ih_infers h a) (ih_infers h b)"
  using fun_cong [OF assms, of a] fun_cong [OF assms, of b] by (simp add: orders_part_def compareTo_def)

lemma put_infer_part:
  assumes "in_orders infer = in_orders (ih_infers h r)" and "in_size infer = in_size (ih_infers h r)"
  shows "orders_part (put_infer h r infer) = orders_part h"
  using assms by (auto simp: orders_part_def put_infer_def fun_eq_iff)

definition set_inv :: "infer_heap \<times> InferenceSet \<Rightarrow> bool" where
  "set_inv st \<longleftrightarrow>
     sorted_wrt (\<lambda>a b. compareTo (ih_infers (fst st) a) (ih_infers (fst st) b) \<noteq> 0) (is_discoveredSet (snd st)) \<and>
     sorted_wrt (\<lambda>a b. compareTo (ih_infers (fst st) a) (ih_infers (fst st) b) \<notin> {0, 1}) (is_results (snd st))"

lemma set_inv_part:
  assumes "orders_part h' = orders_part h"
    and "is_discoveredSet s' = is_discoveredSet s" and "is_results s' = is_results s"
  shows "set_inv (h', s') = set_inv (h, s)"
  using assms(2,3) by (simp add: set_inv_def compareTo_part [OF assms(1)])

lemma commitInference_step:
  assumes "set_inv st"
  shows "set_inv (commitInference st infer feasible) \<and>
         orders_part (fst (commitInference st infer feasible)) = orders_part (fst st)"
proof -
  let ?h = "put_infer (fst st) infer ((ih_infers (fst st) infer)\<lparr>in_explored := True\<rparr>)"
  have part: "orders_part ?h = orders_part (fst st)" by (rule put_infer_part) simp_all
  have "set_inv (?h, snd st)" using assms set_inv_part [OF part, of "snd st" "snd st"] by simp
  then have "set_inv (?h, addResult ?h (snd st) infer)"
    by (auto simp: set_inv_def addResult_def sorted_wrt_append sorted_wrt_filter Let_def)
  then show ?thesis using \<open>set_inv (?h, snd st)\<close> part by (simp add: commitInference_def Let_def)
qed

lemma addCurInference_step:
  assumes "set_inv st"
  shows "set_inv (addCurInference st infer)"
proof -
  let ?h = "put_infer (fst st) infer ((ih_infers (fst st) infer)\<lparr>in_leaf := False\<rparr>)"
  have "orders_part ?h = orders_part (fst st)" by (rule put_infer_part) simp_all
  from set_inv_part [OF this] show ?thesis using assms by (simp add: addCurInference_def set_inv_def)
qed

lemma addInference_step:
  assumes "set_inv st"
  shows "set_inv (snd (addInference st infer))"
proof -
  let ?h = "put_infer (fst st) infer ((ih_infers (fst st) infer)\<lparr>in_leaf := True\<rparr>)"
  have part: "orders_part ?h = orders_part (fst st)" by (rule put_infer_part) simp_all
  show ?thesis using assms
    by (auto simp: addInference_def set_inv_def hasBeenDiscovered_def Let_def compareTo_part [OF part] sorted_wrt_append)
qed

lemma addCandidates_step:
  assumes "set_inv st"
  shows "set_inv (snd (addCandidates st cur l))"
proof (cases l)
  case None
  then show ?thesis using assms by (simp add: addCandidates_def)
next
  case (Some cands)
  define body where "body = (\<lambda>candidate (added, st).
      let h = put_infer (fst st) candidate
                ((ih_infers (fst st) candidate)\<lparr>in_initialInfer := in_initialInfer (ih_infers (fst st) cur)\<rparr>);
          (tmpAdded, st) = addInference (h, snd st) candidate
      in (added \<or> tmpAdded, st))"
  have body: "set_inv (snd (body c r))" if "set_inv (snd r)" for c r
  proof -
    obtain added h s where r: "r = (added, h, s)" by (cases r) auto
    let ?h = "put_infer h c ((ih_infers h c)\<lparr>in_initialInfer := in_initialInfer (ih_infers h cur)\<rparr>)"
    have "set_inv (?h, s)" using that set_inv_part [OF put_infer_part, of _ h c s s] by (simp add: r)
    from addInference_step [OF this, of c] show ?thesis
      by (auto simp: body_def r Let_def split: prod.split)
  qed
  have "set_inv (snd (fold body cs r))" if "set_inv (snd r)" for cs r
    using that body by (induction cs arbitrary: r) auto
  then show ?thesis using addCurInference_step [OF assms, of cur]
    by (simp add: addCandidates_def Some body_def)
qed

section \<open>The next inference\<close>

lemma next_inference_inv:
  "set_inv st \<Longrightarrow> set_inv (snd (next_inference st cs))"
proof (induction st cs rule: next_inference.induct)
  case (2 st infer rest)
  then show ?case using commitInference_step [of st infer False] by (auto simp: set_inv_def)
qed (simp add: set_inv_def)

inductive search_step :: "infer_heap \<times> InferenceSet \<Rightarrow> infer_heap \<times> InferenceSet \<Rightarrow> bool" where
  commit: "search_step st (commitInference st infer feasible)"
| candidates: "search_step st (snd (addCandidates st cur l))"
| add: "search_step st (snd (addInference st infer))"
| take: "search_step st (snd (getNextInference st))"

text \<open>
  (C39) Starting with an empty set, after any sequence of commits, additions of candidates and
  inferences and choices of the next inference, no two discovered inferences were equal by
  \<open>compareTo\<close> when listed, and no result is followed by one it is equal to or stronger than.
  \<open>addWeakerInference\<close> is not among the steps: it may enlarge the initial inference, and with it
  change the verdicts on that object.
\<close>

theorem search_keeps_lists_minimal:
  assumes "search_step\<^sup>*\<^sup>* (h, new_InferenceSet) st"
  shows "sorted_wrt (\<lambda>a b. compareTo (ih_infers (fst st) a) (ih_infers (fst st) b) \<noteq> 0) (is_discoveredSet (snd st)) \<and>
         sorted_wrt (\<lambda>a b. compareTo (ih_infers (fst st) a) (ih_infers (fst st) b) \<notin> {0, 1}) (is_results (snd st))"
proof -
  have "set_inv st" using assms
  proof (induction rule: rtranclp_induct)
    case base
    show ?case by (simp add: set_inv_def new_InferenceSet_def)
  next
    case (step st st')
    from step.hyps(2) step.IH show ?case
      by cases (auto simp: getNextInference_def commitInference_step addCandidates_step addInference_step next_inference_inv)
  qed
  then show ?thesis by (simp add: set_inv_def)
qed

definition example_infer_heap :: infer_heap where
  "example_infer_heap = \<lparr>ih_infers = (\<lambda>r. new_Inference r), ih_next = 1\<rparr>"

theorem search_keeps_lists_minimal_witness:
  "\<exists>st. search_step\<^sup>*\<^sup>* (example_infer_heap, new_InferenceSet) st \<and> is_results (snd st) = [0] \<and>
     sorted_wrt (\<lambda>a b. compareTo (ih_infers (fst st) a) (ih_infers (fst st) b) \<notin> {0, 1}) (is_results (snd st))"
proof (intro exI conjI)
  let ?st = "commitInference (snd (addInference (example_infer_heap, new_InferenceSet) 0)) 0 True"
  show run: "search_step\<^sup>*\<^sup>* (example_infer_heap, new_InferenceSet) ?st"
    by (rule rtranclp.rtrancl_into_rtrancl, rule r_into_rtranclp, rule search_step.add, rule search_step.commit)
  show "is_results (snd ?st) = [0]"
    by (simp add: commitInference_def addResult_def addInference_def hasBeenDiscovered_def new_InferenceSet_def Let_def)
  show "sorted_wrt (\<lambda>a b. compareTo (ih_infers (fst ?st) a) (ih_infers (fst ?st) b) \<notin> {0, 1}) (is_results (snd ?st))"
    using search_keeps_lists_minimal [OF run] by (rule conjunct2)
qed

text \<open>What skipping candidates leaves: orders, leaves and fix flags, and what was explored.\<close>

definition later :: "infer_heap \<Rightarrow> infer_heap \<Rightarrow> bool" where
  "later h h' \<longleftrightarrow> orders_part h' = orders_part h \<and>
     (\<forall>r. in_leaf (ih_infers h' r) = in_leaf (ih_infers h r) \<and>
          in_shouldFix (ih_infers h' r) = in_shouldFix (ih_infers h r) \<and>
          (in_explored (ih_infers h r) \<longrightarrow> in_explored (ih_infers h' r)))"

lemma later_refl [simp]: "later h h"
  by (simp add: later_def)

lemma later_trans: "later h h1 \<Longrightarrow> later h1 h2 \<Longrightarrow> later h h2"
  by (simp add: later_def)

lemma later_explored:
  assumes "later h h'" and "is_discoveredSet s' = is_discoveredSet s" and "hasBeenExplored h s infer"
  shows "hasBeenExplored h' s' infer"
  using assms compareTo_part [of h' h] by (auto simp: later_def hasBeenExplored_def Let_def)

lemma later_commit: "later (fst st) (fst (commitInference st infer False))"
  using put_infer_part [of "(ih_infers (fst st) infer)\<lparr>in_explored := True\<rparr>" "fst st" infer]
  by (simp add: later_def commitInference_def Let_def) (simp add: put_infer_def)

definition skipped_ok :: "infer_heap \<Rightarrow> InferenceSet \<Rightarrow> infer_ref \<Rightarrow> bool" where
  "skipped_ok h s r \<longleftrightarrow>
     (if in_leaf (ih_infers h r) then in_shouldFix (ih_infers h r) \<and> hasBeenExplored h s r
      else in_explored (ih_infers h r))"

lemma skipped_ok_later:
  assumes "later h h'" and "is_discoveredSet s' = is_discoveredSet s" and "skipped_ok h s r"
  shows "skipped_ok h' s' r"
  using assms(1,3) later_explored [OF assms(1,2), of r] by (auto simp: skipped_ok_def later_def split: if_splits)

definition next_ok :: "infer_heap \<times> InferenceSet \<Rightarrow> infer_ref list \<Rightarrow>
    infer_ref option \<times> infer_heap \<times> InferenceSet \<Rightarrow> bool" where
  "next_ok st cs out \<longleftrightarrow> (case out of (res, h, s) \<Rightarrow>
     later (fst st) h \<and> is_discoveredSet s = is_discoveredSet (snd st) \<and> is_results s = is_results (snd st) \<and>
     (\<exists>skipped. (\<forall>r \<in> set skipped. skipped_ok h s r) \<and>
        (case res of
           None \<Rightarrow> cs = skipped \<and> is_candidates s = []
         | Some i \<Rightarrow> cs = skipped @ i # rev (is_candidates s) \<and> in_leaf (ih_infers h i) \<and>
                      \<not> (in_shouldFix (ih_infers h i) \<and> hasBeenExplored h s i))))"

lemma next_ok_skip:
  assumes "next_ok st1 cs out" and "later (fst st) (fst st1)" and "snd st1 = snd st"
    and "skipped_ok (fst st1) (snd st1) infer"
  shows "next_ok st (infer # cs) out"
proof -
  obtain res h s where out: "out = (res, h, s)" by (cases out) auto
  from assms(1) obtain skipped where a: "later (fst st1) h" "is_discoveredSet s = is_discoveredSet (snd st1)"
      "is_results s = is_results (snd st1)" "\<forall>r \<in> set skipped. skipped_ok h s r"
    and b: "case res of
           None \<Rightarrow> cs = skipped \<and> is_candidates s = []
         | Some i \<Rightarrow> cs = skipped @ i # rev (is_candidates s) \<and> in_leaf (ih_infers h i) \<and>
                      \<not> (in_shouldFix (ih_infers h i) \<and> hasBeenExplored h s i)"
    by (auto simp: next_ok_def out)
  have "skipped_ok h s infer" using skipped_ok_later [OF a(1,2) assms(4)] .
  then show ?thesis unfolding next_ok_def out prod.case
    using a b assms(3) later_trans [OF assms(2) a(1)]
    by (intro conjI exI [of _ "infer # skipped"]) (auto split: option.splits)
qed

lemma next_inference_ok: "next_ok st cs (next_inference st cs)"
proof (induction st cs rule: next_inference.induct)
  case (1 st)
  then show ?case by (simp add: next_ok_def)
next
  case (2 st infer rest)
  let ?c = "commitInference st infer False"
  consider "\<not> in_leaf (ih_infers (fst st) infer)"
    | "in_leaf (ih_infers (fst st) infer)" "in_shouldFix (ih_infers (fst st) infer) \<and> hasBeenExplored (fst st) (snd st) infer"
    | "in_leaf (ih_infers (fst st) infer)" "\<not> (in_shouldFix (ih_infers (fst st) infer) \<and> hasBeenExplored (fst st) (snd st) infer)"
    by blast
  then show ?case
  proof cases
    case 1
    have "skipped_ok (fst ?c) (snd ?c) infer"
      using 1 by (simp add: skipped_ok_def commitInference_def put_infer_def Let_def)
    then show ?thesis
      using next_ok_skip [OF 2(1) [OF 1] later_commit] 1 by (simp add: commitInference_def Let_def)
  next
    case c: 2
    then show ?thesis using next_ok_skip [OF 2(2), of st infer] by (simp add: skipped_ok_def)
  next
    case c: 3
    then show ?thesis by (auto simp: next_ok_def hasBeenExplored_def)
  qed
qed

text \<open>
  (C40) \<open>getNextInference\<close> ends. It takes candidates from the back and skips those it is done with:
  a skipped non-leaf is explored afterwards, a skipped leaf was to be fixed and is at least as
  strong as an explored inference by \<open>compareTo\<close>. What it returns is a leaf that need not be fixed
  or is not yet explored, and the candidates before it remain; it returns none only with no
  candidate left. Orders, discovered inferences and results are unchanged.
\<close>

theorem next_inference_is_open:
  "case getNextInference st of (res, h, s) \<Rightarrow>
     orders_part h = orders_part (fst st) \<and>
     is_discoveredSet s = is_discoveredSet (snd st) \<and> is_results s = is_results (snd st) \<and>
     (\<exists>skipped. (\<forall>r \<in> set skipped. skipped_ok h s r) \<and>
        (case res of
           None \<Rightarrow> is_candidates (snd st) = skipped \<and> is_candidates s = []
         | Some i \<Rightarrow> is_candidates (snd st) = is_candidates s @ i # skipped \<and> in_leaf (ih_infers h i) \<and>
                      \<not> (in_shouldFix (ih_infers h i) \<and> hasBeenExplored h s i)))"
proof -
  obtain res h s where out: "getNextInference st = (res, h, s)" by (cases "getNextInference st") auto
  have "next_ok st (rev (is_candidates (snd st))) (res, h, s)"
    using next_inference_ok [of st "rev (is_candidates (snd st))"] by (simp add: getNextInference_def [symmetric] out)
  then obtain skipped where a: "later (fst st) h" "is_discoveredSet s = is_discoveredSet (snd st)"
      "is_results s = is_results (snd st)" "\<forall>r \<in> set skipped. skipped_ok h s r"
    and b: "case res of
           None \<Rightarrow> rev (is_candidates (snd st)) = skipped \<and> is_candidates s = []
         | Some i \<Rightarrow> rev (is_candidates (snd st)) = skipped @ i # rev (is_candidates s) \<and> in_leaf (ih_infers h i) \<and>
                      \<not> (in_shouldFix (ih_infers h i) \<and> hasBeenExplored h s i)"
    by (auto simp: next_ok_def)
  show ?thesis unfolding out prod.case
    using a b by (intro conjI exI [of _ "rev skipped"])
      (auto simp: later_def rev_swap split: option.splits)
qed

theorem next_inference_is_open_witness:
  "\<exists>h s. getNextInference (snd (addInference (example_infer_heap, new_InferenceSet) 0)) = (Some 0, h, s) \<and>
     in_leaf (ih_infers h 0) \<and> \<not> (in_shouldFix (ih_infers h 0) \<and> hasBeenExplored h s 0)"
proof -
  let ?st = "snd (addInference (example_infer_heap, new_InferenceSet) 0)"
  have "fst (getNextInference ?st) = Some 0"
    by (simp add: getNextInference_def addInference_def hasBeenDiscovered_def hasBeenExplored_def
        new_InferenceSet_def example_infer_heap_def put_infer_def new_Inference_def)
  then obtain h s where "getNextInference ?st = (Some 0, h, s)" by (cases "getNextInference ?st") auto
  then show ?thesis using next_inference_is_open [of ?st] by auto
qed

end
