(* ===== verification/Spec2Isabelle.thy ===== *)
theory Spec2Isabelle
  imports CycleOrder HashTable Selection NodeFairness RaceSpec ExecFaults CheckerRun InferSearch
begin

text \<open>
  A verification development for CDSChecker, a stateless model checker for programs with C11/C++11
  atomics.

  \<^bold>\<open>The program.\<close> The checker runs a program again and again. The code of a thread calls the
  interface functions; each of them hands an action to the checker (\<open>model.cc\<close>), which lets the
  execution (\<open>execution.cc\<close>) process it: a read chooses a store or a promised future value, the
  modification order grows as a graph (\<open>cyclegraph.cc\<close>), clock vectors are merged on
  synchronization, plain accesses are checked for races (\<open>datarace.cc\<close>). The choices made are kept
  in a stack of nodes (\<open>nodestack.cc\<close>). At the end of an execution the state is rolled back to a
  snapshot, and the next execution replays the stack up to its last open choice. An optional plugin
  (\<open>scfence/\<close>) looks for weak memory orders that keep a program correct.

  \<^bold>\<open>Theories and sources.\<close>
  \<^item> \<open>Prelude\<close>, \<open>ModelTypes\<close>: machine types, \<open>ASSERT\<close>, vectors, monadic folds; the enums and
    records of \<open>action.h\<close>, \<open>clockvector.h\<close>, \<open>promise.h\<close>, \<open>memoryorder.h\<close>.
  \<^item> \<open>ClockVector\<close>, \<open>Action\<close>, \<open>Promise\<close>: the classes of \<open>clockvector.cc\<close>, \<open>action.cc\<close>,
    \<open>promise.cc\<close>, with their invariants.
  \<^item> \<open>CycleGraph\<close>: \<open>cyclegraph.cc\<close>. \<open>CycleSearch\<close>, \<open>CycleChange\<close>, \<open>CycleRollback\<close> and
    \<open>CycleOrder\<close> hold the lemmas on its searches, additions and rollback.
  \<^item> \<open>HashTable\<close>: \<open>hashtable.h\<close>. \<open>Threads\<close>: \<open>threads-model.h\<close>, \<open>threads.cc\<close>.
    \<open>Schedule\<close>, \<open>Selection\<close>: \<open>schedule.cc\<close>.
  \<^item> \<open>NodeStack\<close>, \<open>Yield\<close>: \<open>nodestack.cc\<close>. \<open>NodeChoices\<close>, \<open>NodeRun\<close>, \<open>NodeFairness\<close>
    hold the lemmas on one node, on the stack and on the fairness counters.
  \<^item> \<open>DataRace\<close>: \<open>datarace.cc\<close>; \<open>RaceSpec\<close> has the abstract detector it refines.
  \<^item> \<open>ExecState\<close>, \<open>ExecPromise\<close>, \<open>ExecOrder\<close>, \<open>ExecRelSeq\<close>, \<open>ExecConflict\<close>, \<open>ExecStep\<close>,
    \<open>ExecRun\<close>: \<open>execution.cc\<close>, \<open>execution.h\<close>, \<open>workqueue.h\<close>, in the order in which one part
    calls another. \<open>ExecLists\<close>, \<open>ExecThreads\<close>, \<open>ExecFaults\<close> hold the lemmas on action lists,
    threads and the end tests, and on inputs that end the process.
  \<^item> \<open>UserApi\<close>: the interface, \<open>cmodelint.cc\<close>, \<open>impatomic.h\<close>, \<open>impatomic.cc\<close>, \<open>mutex.cc\<close>,
    \<open>conditionvariable.cc\<close>, \<open>libthreads.cc\<close>, \<open>librace.cc\<close>. \<open>ModelChecker\<close>: \<open>model.cc\<close>, the
    snapshot stack of \<open>snapshot-interface.cc\<close>, \<open>model_main\<close> of \<open>main.cc\<close>. \<open>Programs\<close> has small
    programs as concrete inputs, \<open>CheckerRun\<close> the lemmas on the exploration.
  \<^item> \<open>Inference\<close>: \<open>scfence/inference.cc\<close>, \<open>patch.cc\<close>, \<open>inferlist.cc\<close>, \<open>inferset.cc\<close>,
    \<open>wildcard.h\<close>. \<open>InferLattice\<close> and \<open>InferSearch\<close> hold the lemmas on orders and on the search.

  \<^bold>\<open>How the code is modelled.\<close> An object is a record and a pointer to a shared object a reference
  into a heap, a map from references to records; an operation returns the changed state. \<open>None\<close> is
  a failed \<open>ASSERT\<close>, a null or dangling access, an index out of range, or not returning. Integers
  whose width matters are words. The checked program is a possibly infinite tree of operations, and
  an argument of the model.

  \<^bold>\<open>What is shown.\<close>
  \<^item> Modification order (C1 to C7): as long as no cycle is recorded the stores can be ordered totally
    with every read-modify-write next to the store it reads from; edges are added exactly, rollback
    restores, searches decide reachability; resolving a promise with a store that has no node yet
    ends the process. C1 to C6 are about graphs in which no promise has been resolved and
    read-modify-writes come as the comment of \<open>addRMWEdge\<close> assumes: \<open>resolvePromise\<close> and
    \<open>mergeNodes\<close> are modelled, but they may fail half-way, and \<open>resolved_addEdge_diverges\<close> shows a
    graph left by such a failure on which a later \<open>addEdge\<close> does not return.
  \<^item> Tables, waiting, nodes, scheduling (C8 to C16): the hash table is a map, the chain of
    waiting threads is followed correctly and for ever only on a cycle beside the thread, the choices
    of a node are enumerated completely and the enumeration ends, selection follows priorities and makes progress under yields, replay and
    recording agree, fairness counters count their window.
  \<^item> Races (C17 to C20): the packed and the full form refine one history, with a report of the last
    write that may come twice; the packed word is a round trip; the shadow table is a map; the reads
    that overflow a record are characterised, and are outside the refinement.
  \<^item> Executions (C21 to C27): action lists and the last actions of user threads and of the model
    thread, the searches in them, inputs that end the process, what a blocked thread does to the
    pending promises, threads and the tests for the end of an execution.
  \<^item> Interface and exploration (C28 to C34): the values that atomic operations hand to the checker
    and get back from it, plain accesses byte by byte, what user code can change, that executions
    start afresh (a rollback restores the saved value of the state), are counted and classified.
  \<^item> Order inference (C35 to C40): strengthening is the join of the orders, patches, comparison with
    its exception for wildcards without an order, the lists of the search and its next element.

  \<^bold>\<open>Bounds and fuel.\<close> No definition takes fuel. Loops whose end depends on the data are partial
  functions with result \<open>None\<close> when they do not return; where a theorem says that such an operation
  returns, this is proved. Theorems on the whole exploration (C32) speak of runs that return, since a
  checked program may run for ever.

  \<^bold>\<open>Not modelled.\<close>
  \<^item> \<open>malloc.c\<close>, \<open>mymemory.cc\<close>, \<open>stl-model.h\<close>: allocation; the model allocates fresh references.
  \<^item> \<open>snapshot.cc\<close>, \<open>context.cc\<close>, stacks and context switches of \<open>threads.cc\<close>: effects on the
    address space and on machine contexts. A snapshot is the saved value of the state.
  \<^item> Printing, stack traces, option parsing and registration of plugins.
  \<^item> \<open>scanalysis.cc\<close>, \<open>scfence/scfence.cc\<close>, \<open>scfence/scgen.cc\<close>: plugins that are off by default;
    they analyse finished traces. Of the inference plugin the data structures are modelled and the
    search for patches in a trace is not.
  \<^item> \<open>request.cc\<close>: written against headers of a web server that are not part of the sources.
    \<open>mockfs.cc\<close>: file calls of a program under test.
  \<^item> The wrappers \<open>impatomic.h\<close> repeats for every type: those of \<open>atomic_int\<close> stand for them.
\<close>

end
